(* ===== verification/Prelude.thy ===== *)
theory Prelude
  imports Main "HOL-Library.Word" "HOL-Library.List_Lexorder"
begin

text \<open>
  Shared vocabulary of the development: the machine integers and byte strings of the Rust
  code, its result type as a sum, the iterator combinators that stop at the first error,
  and Rust's checked and saturating integer operations.

  A Rust \<open>&str\<close> or \<open>String\<close> is its UTF-8 byte sequence, so \<open>len()\<close> is the length of the
  list and the derived \<open>Ord\<close> is the lexicographic order of the bytes
  (\<open>HOL-Library.List_Lexorder\<close>). A \<open>Vec<u8>\<close> has the same type.
\<close>

named_theorems res_simps \<open>success and failure of the result combinators\<close>
named_theorems codec_read \<open>what a reader returns on what the matching writer wrote\<close>
named_theorems codec_inv \<open>what a reader must have consumed to return a value\<close>

section \<open>Machine integers and byte strings\<close>

type_synonym byte = "8 word"
type_synonym bytes = "byte list"
type_synonym str = "byte list"
type_synonym u16 = "16 word"
type_synonym u32 = "32 word"
type_synonym u64 = "64 word"
type_synonym i64 = "64 word"

text \<open>An ASCII literal of the source as its bytes.\<close>

definition lit :: "string \<Rightarrow> str" where
  "lit s = map of_char s"

lemma lit_simps [simp]:
  "lit [] = []"
  "lit (c # cs) = of_char c # lit cs"
  by (simp_all add: lit_def)

lemma length_lit [simp]: "length (lit s) = length s"
  by (simp add: lit_def)

section \<open>Results\<close>

text \<open>\<open>Result<T, E>\<close> is \<open>E + T\<close>; \<open>res_bind\<close> is the question mark operator.\<close>

definition res_bind :: "'e + 'a \<Rightarrow> ('a \<Rightarrow> 'e + 'b) \<Rightarrow> 'e + 'b" where
  "res_bind m f = (case m of Inl e \<Rightarrow> Inl e | Inr a \<Rightarrow> f a)"

definition res_map_err :: "('e \<Rightarrow> 'f) \<Rightarrow> 'e + 'a \<Rightarrow> 'f + 'a" where
  "res_map_err f m = (case m of Inl e \<Rightarrow> Inl (f e) | Inr a \<Rightarrow> Inr a)"

definition ok_or :: "'e \<Rightarrow> 'a option \<Rightarrow> 'e + 'a" where
  "ok_or e x = (case x of None \<Rightarrow> Inl e | Some a \<Rightarrow> Inr a)"

definition ensure :: "bool \<Rightarrow> 'e \<Rightarrow> 'e + unit" where
  "ensure b e = (if b then Inr () else Inl e)"

abbreviation is_ok :: "'e + 'a \<Rightarrow> bool" where
  "is_ok m \<equiv> (\<exists>a. m = Inr a)"

lemma res_bind_simps [simp]:
  "res_bind (Inl e) f = Inl e"
  "res_bind (Inr a) f = f a"
  by (simp_all add: res_bind_def)

lemma res_map_err_simps [simp]:
  "res_map_err f (Inl e) = Inl (f e)"
  "res_map_err f (Inr a) = Inr a"
  by (simp_all add: res_map_err_def)

lemma ok_or_simps [simp]:
  "ok_or e None = Inl e"
  "ok_or e (Some a) = Inr a"
  by (simp_all add: ok_or_def)

lemma ensure_simps [simp]:
  "ensure True e = Inr ()"
  "ensure False e = Inl e"
  by (simp_all add: ensure_def)

lemma res_bind_Inr_iff [res_simps]:
  "res_bind m f = Inr b \<longleftrightarrow> (\<exists>a. m = Inr a \<and> f a = Inr b)"
  by (cases m) auto

lemma res_bind_Inl_iff [res_simps]:
  "res_bind m f = Inl e \<longleftrightarrow> m = Inl e \<or> (\<exists>a. m = Inr a \<and> f a = Inl e)"
  by (cases m) auto

lemma res_map_err_Inr_iff [res_simps]: "res_map_err f m = Inr a \<longleftrightarrow> m = Inr a"
  by (cases m) auto

lemma ok_or_Inr_iff [res_simps]: "ok_or e x = Inr a \<longleftrightarrow> x = Some a"
  by (cases x) auto

lemma ensure_Inr_iff [res_simps]: "ensure b e = Inr u \<longleftrightarrow> b"
  by (cases b) auto

lemma ensure_Inl_iff [res_simps]: "ensure b e = Inl e' \<longleftrightarrow> \<not> b \<and> e' = e"
  by (cases b) auto

lemma if_Inl_eq_Inr [res_simps]:
  "(if b then Inl e else m) = Inr a \<longleftrightarrow> \<not> b \<and> m = Inr a"
  "(if b then m else Inl e) = Inr a \<longleftrightarrow> b \<and> m = Inr a"
  by auto

lemma res_bind_cong [fundef_cong]:
  "m = m' \<Longrightarrow> (\<And>a. m' = Inr a \<Longrightarrow> f a = f' a) \<Longrightarrow> res_bind m f = res_bind m' f'"
  by (cases m') auto

text \<open>\<open>iter().map(f).collect::<Result<Vec<_>, _>>()\<close>: stops at the first error.\<close>

fun try_map :: "('a \<Rightarrow> 'e + 'b) \<Rightarrow> 'a list \<Rightarrow> 'e + 'b list" where
  "try_map f [] = Inr []"
| "try_map f (x # xs) = res_bind (f x) (\<lambda>y. res_bind (try_map f xs) (\<lambda>ys. Inr (y # ys)))"

text \<open>\<open>try_fold\<close>, and a \<open>for\<close> loop whose body may return early with an error.\<close>

fun try_fold :: "('s \<Rightarrow> 'a \<Rightarrow> 'e + 's) \<Rightarrow> 's \<Rightarrow> 'a list \<Rightarrow> 'e + 's" where
  "try_fold f s [] = Inr s"
| "try_fold f s (x # xs) = res_bind (f s x) (\<lambda>s'. try_fold f s' xs)"

fun try_all :: "('a \<Rightarrow> 'e + unit) \<Rightarrow> 'a list \<Rightarrow> 'e + unit" where
  "try_all f [] = Inr ()"
| "try_all f (x # xs) = res_bind (f x) (\<lambda>_. try_all f xs)"

lemma try_map_Inr_iff [res_simps]:
  "try_map f xs = Inr ys \<longleftrightarrow> list_all2 (\<lambda>x y. f x = Inr y) xs ys"
  by (induction xs arbitrary: ys) (auto simp: res_simps list_all2_Cons1)

lemma try_map_length: "try_map f xs = Inr ys \<Longrightarrow> length ys = length xs"
  by (simp add: try_map_Inr_iff list_all2_lengthD)

lemma try_map_append:
  "try_map f (xs @ ys) =
     res_bind (try_map f xs) (\<lambda>us. res_bind (try_map f ys) (\<lambda>vs. Inr (us @ vs)))"
proof (induction xs)
  case Nil
  then show ?case by (cases "try_map f ys") simp_all
next
  case (Cons x xs)
  then show ?case
    by (cases "f x"; cases "try_map f xs"; cases "try_map f ys") simp_all
qed

lemma try_all_Inr_iff [res_simps]:
  "try_all f xs = Inr u \<longleftrightarrow> (\<forall>x \<in> set xs. f x = Inr ())"
  by (induction xs) (auto simp: res_simps)

lemma try_fold_append:
  "try_fold f s (xs @ ys) = res_bind (try_fold f s xs) (\<lambda>s'. try_fold f s' ys)"
proof (induction xs arbitrary: s)
  case (Cons x xs)
  then show ?case by (cases "f s x") simp_all
qed simp

lemma try_map_concat_set:
  "try_map f xs = Inr yss \<Longrightarrow> set (concat yss) = (\<Union>x \<in> set xs. case f x of Inr ys \<Rightarrow> set ys | Inl _ \<Rightarrow> {})"
proof (induction xs arbitrary: yss)
  case (Cons x xs)
  then obtain ys zss where "f x = Inr ys" "try_map f xs = Inr zss" "yss = ys # zss"
    by (auto simp: res_simps)
  with Cons.IH show ?case by simp
qed simp

lemma try_map_each:
  "try_map f xs = Inr yss \<Longrightarrow> x \<in> set xs \<Longrightarrow> \<exists>ys. f x = Inr ys"
  by (induction xs arbitrary: yss) (auto simp: res_simps)

lemma list_all2_map_cong:
  "list_all2 (\<lambda>x y. f x = Inr y) xs ys \<Longrightarrow> (\<And>x y. x \<in> set xs \<Longrightarrow> f x = Inr y \<Longrightarrow> g y = x)
   \<Longrightarrow> map g ys = xs"
  by (induction rule: list_all2_induct) auto

lemma try_fold_cong [fundef_cong]:
  "xs = ys \<Longrightarrow> s = t \<Longrightarrow> (\<And>s x. x \<in> set ys \<Longrightarrow> f s x = g s x) \<Longrightarrow> try_fold f s xs = try_fold g t ys"
proof (induction ys arbitrary: s t xs)
  case (Cons y ys)
  then show ?case by (auto intro!: arg_cong [where f = "res_bind (g t y)"])
qed simp

section \<open>Results with a state that survives errors\<close>

text \<open>
  A function with a \<open>&mut\<close> argument and a \<open>Result\<close>: what it wrote to the argument before it
  failed stays.
\<close>

type_synonym ('s, 'e, 'a) st_result = "'s \<Rightarrow> ('e + 'a) \<times> 's"

definition st_bind :: "('s, 'e, 'a) st_result \<Rightarrow> ('a \<Rightarrow> ('s, 'e, 'b) st_result) \<Rightarrow> ('s, 'e, 'b) st_result" where
  "st_bind m f s = (case m s of (Inl e, s') \<Rightarrow> (Inl e, s') | (Inr a, s') \<Rightarrow> f a s')"

definition st_lift :: "'e + 'a \<Rightarrow> ('s, 'e, 'a) st_result" where
  "st_lift m s = (m, s)"

fun st_fold :: "('b \<Rightarrow> 'a \<Rightarrow> ('s, 'e, 'b) st_result) \<Rightarrow> 'b \<Rightarrow> 'a list \<Rightarrow> ('s, 'e, 'b) st_result" where
  "st_fold f b [] s = (Inr b, s)"
| "st_fold f b (x # xs) s =
     (case f b x s of (Inl e, s') \<Rightarrow> (Inl e, s') | (Inr b', s') \<Rightarrow> st_fold f b' xs s')"

lemma st_bind_cong [fundef_cong]:
  "m s = m' s' \<Longrightarrow> (\<And>a t. m' s' = (Inr a, t) \<Longrightarrow> f a t = f' a t) \<Longrightarrow> st_bind m f s = st_bind m' f' s'"
  by (auto simp: st_bind_def split: prod.splits sum.splits)

lemma st_fold_cong [fundef_cong]:
  "xs = ys \<Longrightarrow> b = c \<Longrightarrow> s = t \<Longrightarrow> (\<And>b x s. x \<in> set ys \<Longrightarrow> f b x s = g b x s) \<Longrightarrow>
   st_fold f b xs s = st_fold g c ys t"
  by (induction ys arbitrary: b c s t xs) (auto split: prod.splits sum.splits)

lemma st_bind_Inr_iff [res_simps]:
  "st_bind m f s = (Inr b, t) \<longleftrightarrow> (\<exists>a u. m s = (Inr a, u) \<and> f a u = (Inr b, t))"
  by (auto simp: st_bind_def split: prod.splits sum.splits)

lemma st_lift_Inr_iff [res_simps]: "st_lift m s = (Inr b, t) \<longleftrightarrow> m = Inr b \<and> t = s"
  by (auto simp: st_lift_def)

lemma st_fold_append:
  "st_fold f b (xs @ ys) s = (case st_fold f b xs s of (Inl e, t) \<Rightarrow> (Inl e, t) | (Inr b', t) \<Rightarrow> st_fold f b' ys t)"
  by (induction xs arbitrary: b s) (auto split: prod.splits sum.splits)

lemma st_fold_snoc_Inr_iff:
  "st_fold f b (xs @ [y]) s = (Inr c, t) \<longleftrightarrow> (\<exists>b' t'. st_fold f b xs s = (Inr b', t') \<and> f b' y t' = (Inr c, t))"
  by (auto simp: st_fold_append split: prod.splits sum.splits)

section \<open>Checked and saturating arithmetic\<close>

definition checked_add :: "'a::len word \<Rightarrow> 'a word \<Rightarrow> 'a word option" where
  "checked_add a b = (if unat a + unat b < 2 ^ LENGTH('a) then Some (a + b) else None)"

definition checked_sub :: "'a::len word \<Rightarrow> 'a word \<Rightarrow> 'a word option" where
  "checked_sub a b = (if b \<le> a then Some (a - b) else None)"

definition saturating_add :: "'a::len word \<Rightarrow> 'a word \<Rightarrow> 'a word" where
  "saturating_add a b = (if unat a + unat b < 2 ^ LENGTH('a) then a + b else - 1)"

definition saturating_sub :: "'a::len word \<Rightarrow> 'a word \<Rightarrow> 'a word" where
  "saturating_sub a b = (if b \<le> a then a - b else 0)"

lemma checked_add_Some_iff:
  "checked_add a b = Some (c :: 'a::len word) \<longleftrightarrow> unat c = unat a + unat b"
proof
  assume "checked_add a b = Some c"
  then have "unat a + unat b < 2 ^ LENGTH('a)" and "c = a + b"
    by (auto simp: checked_add_def split: if_splits)
  then show "unat c = unat a + unat b"
    by (simp add: unat_word_ariths)
next
  assume *: "unat c = unat a + unat b"
  then have lt: "unat a + unat b < 2 ^ LENGTH('a)"
    using unsigned_less [of c] by metis
  have "c = a + b"
    by (simp add: word_unat_eq_iff * unat_word_ariths lt)
  with lt show "checked_add a b = Some c"
    by (simp add: checked_add_def)
qed

lemma checked_sub_Some_iff:
  "checked_sub a b = Some (c :: 'a::len word) \<longleftrightarrow> unat a = unat b + unat c"
proof
  assume "checked_sub a b = Some c"
  then have "b \<le> a" and "c = a - b"
    by (auto simp: checked_sub_def split: if_splits)
  then show "unat a = unat b + unat c"
    by (simp add: unat_sub word_le_nat_alt)
next
  assume *: "unat a = unat b + unat c"
  then have "b \<le> a" by (simp add: word_le_nat_alt)
  moreover have "c = a - b"
    using * \<open>b \<le> a\<close> by (simp add: word_unat_eq_iff unat_sub)
  ultimately show "checked_sub a b = Some c"
    by (simp add: checked_sub_def)
qed

text \<open>\<open>usize\<close> is 64 bits wide on the supported targets; lengths are naturals below its range.\<close>

definition usize_checked_add :: "nat \<Rightarrow> nat \<Rightarrow> nat option" where
  "usize_checked_add a b = (if a + b < 2 ^ 64 then Some (a + b) else None)"

definition usize_checked_mul :: "nat \<Rightarrow> nat \<Rightarrow> nat option" where
  "usize_checked_mul a b = (if a * b < 2 ^ 64 then Some (a * b) else None)"

section \<open>Big-endian encodings\<close>

text \<open>The \<open>n\<close> low bytes of a natural, most significant first, and back.\<close>

fun be_enc :: "nat \<Rightarrow> nat \<Rightarrow> bytes" where
  "be_enc 0 v = []"
| "be_enc (Suc n) v = be_enc n (v div 256) @ [word_of_nat (v mod 256)]"

definition be_dec :: "bytes \<Rightarrow> nat" where
  "be_dec bs = foldl (\<lambda>a b. 256 * a + unat b) 0 bs"

lemma be_dec_Nil [simp]: "be_dec [] = 0"
  by (simp add: be_dec_def)

lemma be_dec_snoc [simp]: "be_dec (bs @ [b]) = 256 * be_dec bs + unat b"
  by (simp add: be_dec_def)

lemma length_be_enc [simp]: "length (be_enc n v) = n"
  by (induction n arbitrary: v) auto

lemma unat_byte_mod [simp]: "unat (word_of_nat (v mod 256) :: byte) = v mod 256"
  by (simp add: unat_of_nat take_bit_nat_def)

lemma be_dec_enc: "be_dec (be_enc n v) = v mod 256 ^ n"
proof (induction n arbitrary: v)
  case (Suc n)
  have "v mod (256 * 256 ^ n) = 256 * (v div 256 mod 256 ^ n) + v mod 256"
    by (rule mod_mult2_eq)
  with Suc show ?case by simp
qed simp

lemma be_dec_bound: "be_dec bs < 256 ^ length bs"
proof (induction bs rule: rev_induct)
  case (snoc b bs)
  have "unat b < 256" using unsigned_less [of b] by simp
  with snoc show ?case by simp
qed simp

lemma be_enc_dec: "be_enc (length bs) (be_dec bs) = bs"
proof (induction bs rule: rev_induct)
  case (snoc b bs)
  have "unat b < 256" using unsigned_less [of b] by simp
  then have "(256 * be_dec bs + unat b) div 256 = be_dec bs"
    and "(256 * be_dec bs + unat b) mod 256 = unat b" by auto
  with snoc show ?case by simp
qed simp

text \<open>\<open>to_be_bytes\<close> and \<open>from_be_bytes\<close> of an unsigned (or two's complement) word.\<close>

definition word_be :: "'a::len word \<Rightarrow> bytes" where
  "word_be w = be_enc (LENGTH('a) div 8) (unat w)"

definition be_word :: "bytes \<Rightarrow> 'a::len word" where
  "be_word bs = word_of_nat (be_dec bs)"

lemma length_word_be [simp]: "length (word_be (w :: 'a::len word)) = LENGTH('a) div 8"
  by (simp add: word_be_def)

lemma be_word_word_be:
  assumes "LENGTH('a) mod 8 = 0"
  shows "be_word (word_be w) = (w :: 'a::len word)"
proof -
  have "(256::nat) ^ (LENGTH('a) div 8) = (2 ^ 8) ^ (LENGTH('a) div 8)" by simp
  also have "\<dots> = 2 ^ (8 * (LENGTH('a) div 8))" by (simp only: power_mult)
  also have "8 * (LENGTH('a) div 8) = LENGTH('a)" using assms by presburger
  finally have "be_dec (word_be w) = unat w"
    by (simp add: word_be_def be_dec_enc)
  then show ?thesis by (simp add: be_word_def)
qed

lemma word_be_be_word:
  assumes "length bs * 8 = LENGTH('a)"
  shows "word_be (be_word bs :: 'a::len word) = bs"
proof -
  have "(256::nat) ^ length bs = (2 ^ 8) ^ length bs" by simp
  also have "\<dots> = 2 ^ LENGTH('a)" using assms by (simp only: power_mult [symmetric] mult.commute)
  finally have "be_dec bs < 2 ^ LENGTH('a)" using be_dec_bound [of bs] by simp
  then have "unat (be_word bs :: 'a word) = be_dec bs"
    by (simp add: be_word_def unat_of_nat take_bit_nat_eq_self)
  moreover have "LENGTH('a) div 8 = length bs" using assms by presburger
  ultimately show ?thesis by (simp add: word_be_def be_enc_dec)
qed

section \<open>Lists\<close>

text \<open>\<open>dedup\<close> removes consecutive repetitions; \<open>windows(2)\<close> lists the adjacent pairs.\<close>

fun dedup :: "'a list \<Rightarrow> 'a list" where
  "dedup [] = []"
| "dedup [x] = [x]"
| "dedup (x # y # zs) = (if x = y then dedup (y # zs) else x # dedup (y # zs))"

fun windows2 :: "'a list \<Rightarrow> ('a \<times> 'a) list" where
  "windows2 (x # y # zs) = (x, y) # windows2 (y # zs)"
| "windows2 _ = []"

lemma set_dedup [simp]: "set (dedup xs) = set xs"
  by (induction xs rule: dedup.induct) auto

lemma windows2_sorted_wrt:
  assumes "transp R"
  shows "(\<forall>(x, y) \<in> set (windows2 xs). R x y) \<longleftrightarrow> sorted_wrt R xs"
proof (induction xs rule: windows2.induct)
  case (1 x y zs)
  have "R x y \<and> sorted_wrt R (y # zs) \<longleftrightarrow> sorted_wrt R (x # y # zs)"
    using assms by (auto dest: transpD)
  with 1 show ?case by auto
qed auto

lemma dedup_sorted_distinct: "sorted (xs :: 'a::linorder list) \<Longrightarrow> sorted_wrt (<) (dedup xs)"
proof (induction xs rule: dedup.induct)
  case (3 x y zs)
  show ?case
  proof (cases "x = y")
    case False
    with "3.prems" have "x < y" "sorted (y # zs)" "\<forall>z \<in> set zs. y \<le> z" by auto
    with False "3.IH" show ?thesis by auto
  qed (use 3 in auto)
qed auto

lemma dedup_distinct_id: "sorted_wrt (<) (xs :: 'a::linorder list) \<Longrightarrow> dedup xs = xs"
  by (induction xs rule: dedup.induct) auto

lemma sorted_lt_distinct: "sorted_wrt (<) (xs :: 'a::linorder list) \<Longrightarrow> distinct xs"
  by (simp add: strict_sorted_iff)

text \<open>Strictly sorted lists are determined by their elements.\<close>

lemma sorted_lt_set_unique:
  "sorted_wrt (<) (xs :: 'a::linorder list) \<Longrightarrow> sorted_wrt (<) ys \<Longrightarrow> set xs = set ys \<Longrightarrow> xs = ys"
  by (metis strict_sorted_equal)

lemma find_append:
  "find P (xs @ ys) = (case find P xs of None \<Rightarrow> find P ys | Some x \<Rightarrow> Some x)"
  by (induction xs) auto

text \<open>Prefix tests: \<open>starts_with\<close>, \<open>strip_prefix\<close>, \<open>strip_suffix\<close>, \<open>ends_with\<close>.\<close>

fun strip_prefix :: "'a list \<Rightarrow> 'a list \<Rightarrow> 'a list option" where
  "strip_prefix [] ys = Some ys"
| "strip_prefix (x # xs) [] = None"
| "strip_prefix (x # xs) (y # ys) = (if x = y then strip_prefix xs ys else None)"

definition starts_with :: "'a list \<Rightarrow> 'a list \<Rightarrow> bool" where
  "starts_with p s = (strip_prefix p s \<noteq> None)"

definition strip_suffix :: "'a list \<Rightarrow> 'a list \<Rightarrow> 'a list option" where
  "strip_suffix p s = map_option rev (strip_prefix (rev p) (rev s))"

lemma strip_prefix_Some_iff [simp]: "strip_prefix p s = Some r \<longleftrightarrow> s = p @ r"
  by (induction p s rule: strip_prefix.induct) auto

lemma strip_prefix_append [simp]: "strip_prefix p (p @ r) = Some r"
  by simp

lemma starts_with_iff: "starts_with p s \<longleftrightarrow> (\<exists>r. s = p @ r)"
  by (auto simp: starts_with_def)

lemma strip_suffix_Some_iff [simp]: "strip_suffix p s = Some r \<longleftrightarrow> s = r @ p"
  by (auto simp: strip_suffix_def rev_swap)

lemma starts_with_append [simp]: "starts_with p (p @ r)"
  by (auto simp: starts_with_iff)

text \<open>
  A \<open>BTreeSet\<close> collected from a sequence is its elements in order; a \<open>BTreeMap\<close> collected from a
  sequence of pairs keeps the last value of each key.
\<close>

definition btree_set :: "'k::linorder list \<Rightarrow> 'k list" where
  "btree_set xs = sort (remdups xs)"

definition btree_map :: "('k::linorder \<times> 'v) list \<Rightarrow> ('k \<times> 'v) list" where
  "btree_map kvs = map (\<lambda>k. (k, the (map_of (rev kvs) k))) (btree_set (map fst kvs))"

lemma set_btree_set [simp]: "set (btree_set xs) = set xs"
  by (simp add: btree_set_def)

lemma sorted_btree_set [simp]: "sorted_wrt (<) (btree_set xs)"
  by (simp add: btree_set_def strict_sorted_iff)

lemma btree_set_id: "sorted_wrt (<) xs \<Longrightarrow> btree_set xs = xs"
  by (simp add: btree_set_def strict_sorted_iff distinct_remdups_id sorted_sort_id)

lemma fst_btree_map [simp]: "map fst (btree_map kvs) = btree_set (map fst kvs)"
  by (simp add: btree_map_def o_def)

lemma map_of_btree_map [simp]: "map_of (btree_map kvs) = map_of (rev kvs)"
proof
  fix k
  show "map_of (btree_map kvs) k = map_of (rev kvs) k"
  proof (cases "k \<in> set (map fst kvs)")
    case True
    then have "map_of (rev kvs) k \<noteq> None" by (simp add: map_of_eq_None_iff)
    then show ?thesis
      using True by (auto simp: btree_map_def map_of_map_restrict restrict_map_def)
  next
    case False
    then have "map_of (rev kvs) k = None" "map_of (btree_map kvs) k = None"
      by (simp_all add: map_of_eq_None_iff btree_map_def image_iff)
    then show ?thesis by simp
  qed
qed

lemma map_of_rev_distinct: "distinct (map fst kvs) \<Longrightarrow> map_of (rev kvs) = map_of kvs"
  by (intro ext map_of_eqI) (auto simp: rev_map [symmetric])

lemma btree_map_id:
  assumes "sorted_wrt (<) (map fst kvs)"
  shows "btree_map kvs = kvs"
proof -
  have d: "distinct (map fst kvs)" using assms by (rule sorted_lt_distinct)
  have "map (\<lambda>k. (k, the (map_of kvs k))) (map fst kvs) = kvs"
    using d by (auto simp: o_def intro!: map_idI)
  then show ?thesis
    by (simp add: btree_map_def btree_set_id [OF assms] map_of_rev_distinct [OF d])
qed

lemma mem_map_filter_iff: "y \<in> set (List.map_filter f xs) \<longleftrightarrow> (\<exists>x \<in> set xs. f x = Some y)"
  by (induction xs) (auto simp: List.map_filter_simps split: option.splits)

lemma try_map_concat_mem:
  assumes "try_map f xs = Inr yss"
  shows "y \<in> set (concat yss) \<longleftrightarrow> (\<exists>x \<in> set xs. \<exists>ys. f x = Inr ys \<and> y \<in> set ys)"
  unfolding try_map_concat_set [OF assms] by (fastforce split: sum.splits)

lemma try_map_mem: "try_map f xs = Inr ys \<Longrightarrow> x \<in> set xs \<Longrightarrow> \<exists>y \<in> set ys. f x = Inr y"
  by (induction xs arbitrary: ys) (auto simp: res_simps)

lemma try_map_mem_rev: "try_map f xs = Inr ys \<Longrightarrow> y \<in> set ys \<Longrightarrow> \<exists>x \<in> set xs. f x = Inr y"
  by (fastforce simp: try_map_Inr_iff list_all2_conv_all_nth in_set_conv_nth)

lemma dedup_distinct: "distinct xs \<Longrightarrow> dedup xs = xs"
  by (induction xs rule: dedup.induct) auto

lemma try_map_total: "\<forall>x \<in> set xs. is_ok (f x) \<Longrightarrow> \<exists>ys. try_map f xs = Inr ys"
proof (induction xs)
  case (Cons x xs)
  then show ?case by (cases "f x") auto
qed simp

lemma sort_key_Nil_iff: "sort_key f xs = [] \<longleftrightarrow> xs = []"
  by (metis length_0_conv length_sort)

lemma map_of_map_values:
  "map_of (map (\<lambda>x. (k x, g (h x))) xs) p = map_option g (map_of (map (\<lambda>x. (k x, h x)) xs) p)"
  by (induction xs) auto

end
