(* ===== verification/RustStr.thy ===== *)
theory RustStr
  imports Prelude
begin

text \<open>
  The operations of Rust's \<open>str\<close> that the program relies on, over UTF-8 byte sequences:
  \<open>String::from_utf8\<close>, \<open>char::from_u32\<close>, \<open>chars\<close>, \<open>push\<close>, \<open>split\<close>, \<open>split_once\<close>,
  \<open>trim\<close> and \<open>to_ascii_uppercase\<close>. Patterns that are ASCII characters are searched
  bytewise, which is the same on UTF-8 since every byte of a longer character is at
  least 128.
\<close>

unbundle bit_operations_syntax

section \<open>UTF-8\<close>

definition is_cont :: "byte \<Rightarrow> bool" where
  "is_cont b \<longleftrightarrow> 0x80 \<le> b \<and> b \<le> 0xBF"

text \<open>Well-formed second bytes of three- and four-byte sequences (Unicode table 3-7).\<close>

definition lead3 :: "byte \<Rightarrow> byte \<Rightarrow> bool" where
  "lead3 b0 b1 \<longleftrightarrow>
     (b0 = 0xE0 \<and> 0xA0 \<le> b1 \<and> b1 \<le> 0xBF)
   \<or> (0xE1 \<le> b0 \<and> b0 \<le> 0xEC \<and> is_cont b1)
   \<or> (b0 = 0xED \<and> 0x80 \<le> b1 \<and> b1 \<le> 0x9F)
   \<or> (0xEE \<le> b0 \<and> b0 \<le> 0xEF \<and> is_cont b1)"

definition lead4 :: "byte \<Rightarrow> byte \<Rightarrow> bool" where
  "lead4 b0 b1 \<longleftrightarrow>
     (b0 = 0xF0 \<and> 0x90 \<le> b1 \<and> b1 \<le> 0xBF)
   \<or> (0xF1 \<le> b0 \<and> b0 \<le> 0xF3 \<and> is_cont b1)
   \<or> (b0 = 0xF4 \<and> 0x80 \<le> b1 \<and> b1 \<le> 0x8F)"

text \<open>The scalar values of a byte sequence, or \<open>None\<close> where it is not UTF-8.\<close>

fun utf8_decode :: "bytes \<Rightarrow> nat list option" where
  "utf8_decode [] = Some []"
| "utf8_decode (b0 # r0) =
     (if b0 < 0x80 then map_option ((#) (unat b0)) (utf8_decode r0)
      else case r0 of [] \<Rightarrow> None | b1 # r1 \<Rightarrow>
        (if 0xC2 \<le> b0 \<and> b0 \<le> 0xDF
         then (if is_cont b1
               then map_option ((#) ((unat b0 - 0xC0) * 64 + (unat b1 - 0x80))) (utf8_decode r1)
               else None)
         else case r1 of [] \<Rightarrow> None | b2 # r2 \<Rightarrow>
           (if lead3 b0 b1
            then (if is_cont b2
                  then map_option ((#) ((unat b0 - 0xE0) * 4096 + (unat b1 - 0x80) * 64 + (unat b2 - 0x80)))
                         (utf8_decode r2)
                  else None)
            else case r2 of [] \<Rightarrow> None | b3 # r3 \<Rightarrow>
              (if lead4 b0 b1 \<and> is_cont b2 \<and> is_cont b3
               then map_option ((#) ((unat b0 - 0xF0) * 262144 + (unat b1 - 0x80) * 4096
                                      + (unat b2 - 0x80) * 64 + (unat b3 - 0x80)))
                      (utf8_decode r3)
               else None))))"

declare utf8_decode.simps(2) [simp del]

definition utf8_valid :: "bytes \<Rightarrow> bool" where
  "utf8_valid bs \<longleftrightarrow> utf8_decode bs \<noteq> None"

lemma utf8_valid_Nil [simp]: "utf8_valid []"
  by (simp add: utf8_valid_def)

lemma utf8_valid_ascii_Cons: "b < 0x80 \<Longrightarrow> utf8_valid (b # bs) = utf8_valid bs"
  by (simp add: utf8_valid_def utf8_decode.simps(2))

lemma utf8_valid_ascii: "\<forall>b \<in> set bs. b < 0x80 \<Longrightarrow> utf8_valid bs"
  by (induction bs) (auto simp: utf8_valid_ascii_Cons)

text \<open>\<open>String::push\<close> of a scalar value, and \<open>char::from_u32\<close>.\<close>

definition byte_of :: "nat \<Rightarrow> byte" where
  "byte_of n = word_of_nat n"

definition utf8_encode_char :: "nat \<Rightarrow> bytes" where
  "utf8_encode_char c =
     (if c < 0x80 then [byte_of c]
      else if c < 0x800 then [byte_of (0xC0 + c div 64), byte_of (0x80 + c mod 64)]
      else if c < 0x10000 then
        [byte_of (0xE0 + c div 4096), byte_of (0x80 + c div 64 mod 64),
         byte_of (0x80 + c mod 64)]
      else [byte_of (0xF0 + c div 262144), byte_of (0x80 + c div 4096 mod 64),
            byte_of (0x80 + c div 64 mod 64), byte_of (0x80 + c mod 64)])"

definition is_scalar_value :: "nat \<Rightarrow> bool" where
  "is_scalar_value c \<longleftrightarrow> c < 0xD800 \<or> (0xE000 \<le> c \<and> c < 0x110000)"

definition char_from_u32 :: "nat \<Rightarrow> nat option" where
  "char_from_u32 c = (if is_scalar_value c then Some c else None)"

definition utf8_encode :: "nat list \<Rightarrow> bytes" where
  "utf8_encode cs = concat (map utf8_encode_char cs)"

text \<open>Encoding then decoding gives the scalar values back.\<close>

lemma unat_byte_of_nat: "n < 256 \<Longrightarrow> unat (byte_of n) = n"
  by (simp add: byte_of_def unat_of_nat take_bit_nat_eq_self)

lemma byte_le_of_nat: "n < 256 \<Longrightarrow> (k \<le> byte_of n) = (unat k \<le> n)"
  by (simp add: word_le_nat_alt unat_byte_of_nat)

lemma byte_of_nat_le: "n < 256 \<Longrightarrow> (byte_of n \<le> k) = (n \<le> unat k)"
  by (simp add: word_le_nat_alt unat_byte_of_nat)

lemma byte_of_nat_less: "n < 256 \<Longrightarrow> (byte_of n < k) = (n < unat k)"
  by (simp add: word_less_nat_alt unat_byte_of_nat)

lemma byte_of_nat_eq: "n < 256 \<Longrightarrow> (byte_of n = k) = (n = unat k)"
  by (metis unat_byte_of_nat word_unat_eq_iff)

lemmas byte_of_nat_cmp = byte_le_of_nat byte_of_nat_le byte_of_nat_less byte_of_nat_eq

lemma utf8_decode_encode_char:
  assumes "is_scalar_value c"
  shows "utf8_decode (utf8_encode_char c @ r) = map_option ((#) c) (utf8_decode r)"
proof -
  have m: "n mod 64 \<le> 63" for n :: nat
    using mod_less_divisor [of 64 n] by linarith
  consider (one) "c < 0x80" | (two) "0x80 \<le> c" "c < 0x800" | (three) "0x800 \<le> c" "c < 0x10000"
    | (four) "0x10000 \<le> c" "c < 0x110000"
    using assms unfolding is_scalar_value_def by linarith
  then show ?thesis
  proof cases
    case one
    then show ?thesis
      by (simp add: utf8_encode_char_def utf8_decode.simps(2) byte_of_nat_cmp unat_byte_of_nat)
  next
    case two
    have b: "c div 64 < 32" "2 \<le> c div 64" using two by auto
    from two b show ?thesis
      by (simp add: utf8_encode_char_def utf8_decode.simps(2) byte_of_nat_cmp unat_byte_of_nat
          is_cont_def m)
  next
    case three
    define a b d where "a = c div 4096" and "b = c div 64 mod 64" and "d = c mod 64"
    note r = this [symmetric]
    have le: "a \<le> 15" "b \<le> 63" "d \<le> 63"
      using three m unfolding a_def b_def d_def by (simp_all add: less_mult_imp_div_less div_le_mono)
    have e: "a * 4096 + b * 64 + d = c"
    proof -
      have "c div 64 div 64 = a" by (simp add: a_def div_mult2_eq [symmetric])
      then show ?thesis
        using div_mult_mod_eq [of c 64] div_mult_mod_eq [of "c div 64" 64]
        unfolding b_def d_def by linarith
    qed
    have "a = 0 \<longrightarrow> 32 \<le> b" "a = 13 \<longrightarrow> b < 32"
      using e three le assms unfolding is_scalar_value_def by linarith+
    with le have l: "lead3 (byte_of (224 + a)) (byte_of (128 + b))"
      unfolding lead3_def is_cont_def by (auto simp: byte_of_nat_cmp)
    show ?thesis
      using three le
      by (simp add: utf8_encode_char_def r utf8_decode.simps(2) byte_of_nat_cmp unat_byte_of_nat
          is_cont_def l e)
  next
    case four
    define a b d f where "a = c div 262144" and "b = c div 4096 mod 64"
      and "d = c div 64 mod 64" and "f = c mod 64"
    note r = this [symmetric]
    have le: "a \<le> 4" "b \<le> 63" "d \<le> 63" "f \<le> 63"
      using four m unfolding a_def b_def d_def f_def by auto
    have e: "a * 262144 + b * 4096 + d * 64 + f = c"
    proof -
      have "c div 64 div 64 = c div 4096" "c div 4096 div 64 = a"
        by (simp_all add: a_def div_mult2_eq [symmetric])
      then show ?thesis
        using div_mult_mod_eq [of c 64] div_mult_mod_eq [of "c div 64" 64]
          div_mult_mod_eq [of "c div 4096" 64]
        unfolding b_def d_def f_def by linarith
    qed
    have "a = 0 \<longrightarrow> 16 \<le> b" "a = 4 \<longrightarrow> b < 16"
      using e four le by linarith+
    with le have l: "lead4 (byte_of (240 + a)) (byte_of (128 + b))"
      unfolding lead4_def is_cont_def by (auto simp: byte_of_nat_cmp)
    have nl: "\<not> lead3 (byte_of (240 + a)) (byte_of (128 + b))"
      using le unfolding lead3_def by (auto simp: byte_of_nat_cmp)
    show ?thesis
      using four le
      by (simp add: utf8_encode_char_def r utf8_decode.simps(2) byte_of_nat_cmp unat_byte_of_nat
          is_cont_def l nl e)
  qed
qed

lemma utf8_decode_encode:
  "\<forall>c \<in> set cs. is_scalar_value c \<Longrightarrow> utf8_decode (utf8_encode cs) = Some cs"
  by (induction cs) (simp_all add: utf8_encode_def utf8_decode_encode_char)

section \<open>Splitting and trimming\<close>

text \<open>\<open>split(c)\<close> always yields at least one segment.\<close>

fun split_on :: "byte \<Rightarrow> str \<Rightarrow> str list" where
  "split_on c [] = [[]]"
| "split_on c (b # bs) =
     (if b = c then [] # split_on c bs
      else (case split_on c bs of [] \<Rightarrow> [[b]] | s # ss \<Rightarrow> (b # s) # ss))"

text \<open>\<open>join(c)\<close> of the segments.\<close>

fun join_with :: "byte \<Rightarrow> str list \<Rightarrow> str" where
  "join_with c [] = []"
| "join_with c [s] = s"
| "join_with c (s # t # ss) = s @ c # join_with c (t # ss)"

definition split_once :: "byte \<Rightarrow> str \<Rightarrow> (str \<times> str) option" where
  "split_once c s =
     (let p = takeWhile (\<lambda>b. b \<noteq> c) s in
      if p = s then None else Some (p, drop (Suc (length p)) s))"

lemma split_on_nonempty [simp]: "split_on c s \<noteq> []"
  by (induction s) (auto split: list.splits)

lemma join_split [simp]: "join_with c (split_on c s) = s"
proof (induction s)
  case (Cons b s)
  obtain t ts where "split_on c s = t # ts" by (cases "split_on c s") auto
  with Cons show ?case by (cases ts) auto
qed simp

lemma split_on_no_sep: "t \<in> set (split_on c s) \<Longrightarrow> c \<notin> set t"
proof (induction s arbitrary: t)
  case (Cons b s)
  obtain u us where "split_on c s = u # us" by (cases "split_on c s") auto
  with Cons show ?case by (auto split: if_splits)
qed simp

lemma split_on_append_sep: "c \<notin> set t \<Longrightarrow> split_on c (t @ c # s) = t # split_on c s"
  by (induction t) auto

lemma split_on_single: "c \<notin> set t \<Longrightarrow> split_on c t = [t]"
  by (induction t) auto

lemma split_join:
  "ss \<noteq> [] \<Longrightarrow> \<forall>t \<in> set ss. c \<notin> set t \<Longrightarrow> split_on c (join_with c ss) = ss"
  by (induction c ss rule: join_with.induct) (auto simp: split_on_append_sep split_on_single)

text \<open>
  The characters of a valid string, each as its bytes, and \<open>trim\<close>, which drops leading and
  trailing characters of the Unicode property White\_Space.
\<close>

function utf8_split :: "bytes \<Rightarrow> bytes list" where
  "utf8_split [] = []"
| "utf8_split (b # bs) = (b # takeWhile is_cont bs) # utf8_split (dropWhile is_cont bs)"
  by pat_completeness auto
termination
  by (relation "measure length") (auto simp: le_imp_less_Suc length_dropWhile_le)

lemma concat_utf8_split [simp]: "concat (utf8_split s) = s"
  by (induction s rule: utf8_split.induct) auto

definition is_white_space :: "bytes \<Rightarrow> bool" where
  "is_white_space ch \<longleftrightarrow>
     (case ch of
        [b] \<Rightarrow> (0x09 \<le> b \<and> b \<le> 0x0D) \<or> b = 0x20
      | [b, c] \<Rightarrow> b = 0xC2 \<and> (c = 0x85 \<or> c = 0xA0)
      | [b, c, d] \<Rightarrow>
          (b = 0xE1 \<and> c = 0x9A \<and> d = 0x80)
        \<or> (b = 0xE2 \<and> c = 0x80 \<and> ((0x80 \<le> d \<and> d \<le> 0x8A) \<or> d = 0xA8 \<or> d = 0xA9 \<or> d = 0xAF))
        \<or> (b = 0xE2 \<and> c = 0x81 \<and> d = 0x9F)
        \<or> (b = 0xE3 \<and> c = 0x80 \<and> d = 0x80)
      | _ \<Rightarrow> False)"

definition str_trim :: "str \<Rightarrow> str" where
  "str_trim s =
     concat (rev (dropWhile is_white_space (rev (dropWhile is_white_space (utf8_split s)))))"

text \<open>\<open>to_ascii_uppercase\<close>.\<close>

definition ascii_upper :: "byte \<Rightarrow> byte" where
  "ascii_upper b = (if 0x61 \<le> b \<and> b \<le> 0x7A then b - 0x20 else b)"

definition to_ascii_uppercase :: "str \<Rightarrow> str" where
  "to_ascii_uppercase s = map ascii_upper s"

section \<open>Hexadecimal\<close>

definition is_ascii_hexdigit :: "byte \<Rightarrow> bool" where
  "is_ascii_hexdigit b \<longleftrightarrow>
     (0x30 \<le> b \<and> b \<le> 0x39) \<or> (0x41 \<le> b \<and> b \<le> 0x46) \<or> (0x61 \<le> b \<and> b \<le> 0x66)"

definition is_ascii_uppercase :: "byte \<Rightarrow> bool" where
  "is_ascii_uppercase b \<longleftrightarrow> 0x41 \<le> b \<and> b \<le> 0x5A"

definition is_lower_hex_digit :: "byte \<Rightarrow> bool" where
  "is_lower_hex_digit b \<longleftrightarrow> is_ascii_hexdigit b \<and> \<not> is_ascii_uppercase b"

lemma is_lower_hex_digit_iff:
  "is_lower_hex_digit b \<longleftrightarrow> (0x30 \<le> b \<and> b \<le> 0x39) \<or> (0x61 \<le> b \<and> b \<le> 0x66)"
  unfolding is_lower_hex_digit_def is_ascii_hexdigit_def is_ascii_uppercase_def
  by (auto simp: word_le_nat_alt)

section \<open>Splitting UTF-8 at an ASCII character\<close>

lemma not_cont_ascii: "c < 0x80 \<Longrightarrow> \<not> is_cont c \<and> \<not> lead3 b c \<and> \<not> lead4 b c"
  by (auto simp: is_cont_def lead3_def lead4_def word_le_nat_alt word_less_nat_alt)

lemma utf8_decode_step:
  "b0 < 0x80 \<Longrightarrow> utf8_decode (b0 # r) = map_option ((#) (unat b0)) (utf8_decode r)"
  "\<not> b0 < 0x80 \<Longrightarrow> utf8_decode [b0] = None"
  "\<not> b0 < 0x80 \<Longrightarrow> 0xC2 \<le> b0 \<and> b0 \<le> 0xDF \<Longrightarrow> utf8_decode (b0 # b1 # r) =
     (if is_cont b1
      then map_option ((#) ((unat b0 - 0xC0) * 64 + (unat b1 - 0x80))) (utf8_decode r) else None)"
  "\<not> b0 < 0x80 \<Longrightarrow> \<not> (0xC2 \<le> b0 \<and> b0 \<le> 0xDF) \<Longrightarrow> utf8_decode [b0, b1] = None"
  "\<not> b0 < 0x80 \<Longrightarrow> \<not> (0xC2 \<le> b0 \<and> b0 \<le> 0xDF) \<Longrightarrow> lead3 b0 b1 \<Longrightarrow>
   utf8_decode (b0 # b1 # b2 # r) =
     (if is_cont b2
      then map_option ((#) ((unat b0 - 0xE0) * 4096 + (unat b1 - 0x80) * 64 + (unat b2 - 0x80)))
             (utf8_decode r) else None)"
  "\<not> b0 < 0x80 \<Longrightarrow> \<not> (0xC2 \<le> b0 \<and> b0 \<le> 0xDF) \<Longrightarrow> \<not> lead3 b0 b1 \<Longrightarrow>
   utf8_decode [b0, b1, b2] = None"
  "\<not> b0 < 0x80 \<Longrightarrow> \<not> (0xC2 \<le> b0 \<and> b0 \<le> 0xDF) \<Longrightarrow> \<not> lead3 b0 b1 \<Longrightarrow>
   utf8_decode (b0 # b1 # b2 # b3 # r) =
     (if lead4 b0 b1 \<and> is_cont b2 \<and> is_cont b3
      then map_option ((#) ((unat b0 - 0xF0) * 262144 + (unat b1 - 0x80) * 4096
                              + (unat b2 - 0x80) * 64 + (unat b3 - 0x80)))
             (utf8_decode r) else None)"
  by (simp_all only: utf8_decode.simps(2) [of b0] if_True if_False list.case simp_thms)

lemma utf8_decode_split_ascii:
  assumes "c < 0x80"
  shows "utf8_decode (a @ c # b) = None \<longleftrightarrow> utf8_decode a = None \<or> utf8_decode b = None"
proof (induction a rule: utf8_decode.induct)
  case 1
  show ?case using assms by (simp add: utf8_decode.simps(2))
next
  case (2 b0 r0)
  note nc = not_cont_ascii [OF assms]
  show ?case
  proof (cases "b0 < 0x80")
    case True
    with 2(1) show ?thesis by (simp add: utf8_decode_step(1))
  next
    case nb: False
    show ?thesis
    proof (cases "0xC2 \<le> b0 \<and> b0 \<le> 0xDF")
      case two: True
      show ?thesis
      proof (cases r0)
        case (Cons b1 r1)
        with 2(2) [OF nb Cons two] show ?thesis by (simp add: utf8_decode_step(3) [OF nb two])
      qed (simp add: utf8_decode_step(2,3) nb two nc)
    next
      case n2: False
      show ?thesis
      proof (cases r0)
        case Nil
        then show ?thesis
          using nc by (cases b; cases "tl b")
            (simp_all add: utf8_decode_step(2,4,6,7) nb n2)
      next
        case r0: (Cons b1 r1)
        show ?thesis
        proof (cases "lead3 b0 b1")
          case l: True
          show ?thesis
          proof (cases r1)
            case (Cons b2 r2)
            with 2(3) [OF nb r0 n2 Cons l] r0 show ?thesis
              by (simp add: utf8_decode_step(5) [OF nb n2 l])
          qed (simp add: r0 nc utf8_decode_step(4) [OF nb n2] utf8_decode_step(5) [OF nb n2 l])
        next
          case n3: False
          show ?thesis
          proof (cases r1)
            case Nil
            then show ?thesis
              using nc r0 by (cases b)
                (simp_all add: utf8_decode_step(4) [OF nb n2] utf8_decode_step(6,7) [OF nb n2 n3])
          next
            case r1: (Cons b2 r2)
            show ?thesis
            proof (cases r2)
              case (Cons b3 r3)
              with 2(4) [OF nb r0 n2 r1 n3 Cons] r0 r1 show ?thesis
                by (simp add: utf8_decode_step(7) [OF nb n2 n3])
            qed (simp add: r0 r1 nc utf8_decode_step(6,7) [OF nb n2 n3])
          qed
        qed
      qed
    qed
  qed
qed

lemma utf8_valid_split_ascii:
  "c < 0x80 \<Longrightarrow> utf8_valid (a @ c # b) \<longleftrightarrow> utf8_valid a \<and> utf8_valid b"
  by (simp add: utf8_valid_def utf8_decode_split_ascii)

lemma utf8_valid_join:
  "c < 0x80 \<Longrightarrow> utf8_valid (join_with c gs) \<Longrightarrow> g \<in> set gs \<Longrightarrow> utf8_valid g"
  by (induction c gs rule: join_with.induct) (auto simp: utf8_valid_split_ascii)

lemma utf8_valid_segment: "utf8_valid s \<Longrightarrow> g \<in> set (split_on 0x2F s) \<Longrightarrow> utf8_valid g"
  using utf8_valid_join [of "0x2F" "split_on 0x2F s"] by simp

end
