(* ===== verification/CoreError.thy ===== *)
theory CoreError
  imports RustStr
begin

text \<open>
  The error type of the core library (\<open>lib.rs\<close>): \<open>CheckPoError\<close>, the wire kind each variant
  maps to, and the wire names. Message texts are the source's literals; the parts a
  \<open>format!\<close> interpolates into a message are kept where later code inspects them and
  dropped elsewhere, which the using theories say. A path is the list of its components,
  and a foreign error source (\<open>serde_json::Error\<close>, \<open>rusqlite::Error\<close>) is not kept.
\<close>

type_synonym path = "str list"

text \<open>The \<open>std::io::ErrorKind\<close>s the program distinguishes.\<close>

datatype io_error_kind =
    NotFound | AlreadyExists | NotADirectory | DirectoryNotEmpty | InvalidData | PermissionDenied
  | OtherIo

datatype checkpo_error_kind =
    UserKind
  | InvalidProjectKind
  | InvalidTrackedPathKind
  | InvalidIdKind
  | OutsideTrackedScopeKind
  | SnapshotNotFoundKind
  | ObjectMissingKind
  | ObjectHashMismatchKind
  | WorkingTreeChangedKind
  | RepositoryLockedKind
  | StorageRootConflictKind
  | StorageRootUnavailableKind
  | PendingTransactionKind
  | UnresolvedTransactionQuarantineKind
  | IndexUnavailableKind
  | UnsupportedFormatKind
  | CopiedProjectSuspectedKind
  | UnsafeFolderMetaOperationKind
  | CancelledKind
  | IoKind
  | JsonKind
  | DatabaseKind
  | CorruptionKind
  | UnexpectedKind

definition all_error_kinds :: "checkpo_error_kind list" where
  "all_error_kinds =
     [UserKind, InvalidProjectKind, InvalidTrackedPathKind, InvalidIdKind,
      OutsideTrackedScopeKind, SnapshotNotFoundKind, ObjectMissingKind, ObjectHashMismatchKind,
      WorkingTreeChangedKind, RepositoryLockedKind, StorageRootConflictKind,
      StorageRootUnavailableKind, PendingTransactionKind, UnresolvedTransactionQuarantineKind,
      IndexUnavailableKind, UnsupportedFormatKind, CopiedProjectSuspectedKind,
      UnsafeFolderMetaOperationKind, CancelledKind, IoKind, JsonKind, DatabaseKind,
      CorruptionKind, UnexpectedKind]"

fun error_kind_as_str :: "checkpo_error_kind \<Rightarrow> string" where
  "error_kind_as_str UserKind = ''user''"
| "error_kind_as_str InvalidProjectKind = ''invalidProject''"
| "error_kind_as_str InvalidTrackedPathKind = ''invalidTrackedPath''"
| "error_kind_as_str InvalidIdKind = ''invalidId''"
| "error_kind_as_str OutsideTrackedScopeKind = ''outsideTrackedScope''"
| "error_kind_as_str SnapshotNotFoundKind = ''snapshotNotFound''"
| "error_kind_as_str ObjectMissingKind = ''objectMissing''"
| "error_kind_as_str ObjectHashMismatchKind = ''objectHashMismatch''"
| "error_kind_as_str WorkingTreeChangedKind = ''workingTreeChanged''"
| "error_kind_as_str RepositoryLockedKind = ''repositoryLocked''"
| "error_kind_as_str StorageRootConflictKind = ''storageRootConflict''"
| "error_kind_as_str StorageRootUnavailableKind = ''storageRootUnavailable''"
| "error_kind_as_str PendingTransactionKind = ''pendingTransaction''"
| "error_kind_as_str UnresolvedTransactionQuarantineKind = ''unresolvedTransactionQuarantine''"
| "error_kind_as_str IndexUnavailableKind = ''indexUnavailable''"
| "error_kind_as_str UnsupportedFormatKind = ''unsupportedFormat''"
| "error_kind_as_str CopiedProjectSuspectedKind = ''copiedProjectSuspected''"
| "error_kind_as_str UnsafeFolderMetaOperationKind = ''unsafeFolderMetaOperation''"
| "error_kind_as_str CancelledKind = ''cancelled''"
| "error_kind_as_str IoKind = ''io''"
| "error_kind_as_str JsonKind = ''json''"
| "error_kind_as_str DatabaseKind = ''database''"
| "error_kind_as_str CorruptionKind = ''corruption''"
| "error_kind_as_str UnexpectedKind = ''unexpected''"

datatype checkpo_error =
    User str
  | InvalidProject str
  | InvalidTrackedPath str
  | InvalidId str
  | OutsideTrackedScope str
  | SnapshotNotFound str
  | ObjectMissing str
  | ObjectHashMismatch str
  | WorkingTreeChanged str
  | RepositoryLocked str
  | StorageRootConflict path path
  | StorageRootUnavailable str
  | PendingTransaction str
  | UnresolvedTransactionQuarantine str
  | IndexUnavailable str
  | UnsupportedFormat str u32 u32
  | CopiedProjectSuspected str
  | UnsafeFolderMetaOperation str
  | Cancelled
  | Io path io_error_kind
  | Json path
  | Db path
  | Corruption str
  | Unexpected str

fun error_kind :: "checkpo_error \<Rightarrow> checkpo_error_kind" where
  "error_kind (User _) = UserKind"
| "error_kind (InvalidProject _) = InvalidProjectKind"
| "error_kind (InvalidTrackedPath _) = InvalidTrackedPathKind"
| "error_kind (InvalidId _) = InvalidIdKind"
| "error_kind (OutsideTrackedScope _) = OutsideTrackedScopeKind"
| "error_kind (SnapshotNotFound _) = SnapshotNotFoundKind"
| "error_kind (ObjectMissing _) = ObjectMissingKind"
| "error_kind (ObjectHashMismatch _) = ObjectHashMismatchKind"
| "error_kind (WorkingTreeChanged _) = WorkingTreeChangedKind"
| "error_kind (RepositoryLocked _) = RepositoryLockedKind"
| "error_kind (StorageRootConflict _ _) = StorageRootConflictKind"
| "error_kind (StorageRootUnavailable _) = StorageRootUnavailableKind"
| "error_kind (PendingTransaction _) = PendingTransactionKind"
| "error_kind (UnresolvedTransactionQuarantine _) = UnresolvedTransactionQuarantineKind"
| "error_kind (IndexUnavailable _) = IndexUnavailableKind"
| "error_kind (UnsupportedFormat _ _ _) = UnsupportedFormatKind"
| "error_kind (CopiedProjectSuspected _) = CopiedProjectSuspectedKind"
| "error_kind (UnsafeFolderMetaOperation _) = UnsafeFolderMetaOperationKind"
| "error_kind Cancelled = CancelledKind"
| "error_kind (Io _ _) = IoKind"
| "error_kind (Json _) = JsonKind"
| "error_kind (Db _) = DatabaseKind"
| "error_kind (Corruption _) = CorruptionKind"
| "error_kind (Unexpected _) = UnexpectedKind"

type_synonym 'a result = "checkpo_error + 'a"

lemma set_all_error_kinds: "k \<in> set all_error_kinds"
  by (cases k) (simp_all add: all_error_kinds_def)

lemma distinct_error_kind_names: "distinct (map error_kind_as_str all_error_kinds)"
  by (simp add: all_error_kinds_def)

lemma error_kind_as_str_inj: "error_kind_as_str k = error_kind_as_str l \<Longrightarrow> k = l"
  using distinct_error_kind_names set_all_error_kinds [of k] set_all_error_kinds [of l]
  by (metis distinct_map inj_onD)

end
