(* ===== verification/TrackedPath.thy ===== *)
theory TrackedPath
  imports CoreError
begin

text \<open>
  \<open>path.rs\<close>: the newtypes over strings (\<open>TrackedUnityFilePath\<close>, \<open>SnapshotId\<close>, \<open>ObjectId\<close>,
  \<open>ProjectId\<close>) with their validating parsers, the lower-case hexadecimal codec, the
  conversion between a path under a project root and a tracked path, and the recognisers of
  the temporary file names the program owns. The platform is Unix: a path is absolute when it
  starts with a slash. \<open>blake3\<close> is the third-party hash, a parameter.
\<close>

unbundle bit_operations_syntax

section \<open>Newtypes\<close>

datatype tracked_path = TrackedPath (tracked_as_str: str)
datatype snapshot_id = SnapshotId (snapshot_as_str: str)
datatype object_id = ObjectId (object_as_str: str)
datatype project_id = ProjectId (project_as_str: str)

text \<open>The derived \<open>Ord\<close> of a newtype is the order of its string.\<close>

instantiation tracked_path :: linorder
begin

definition less_eq_tracked_path :: "tracked_path \<Rightarrow> tracked_path \<Rightarrow> bool" where
  "less_eq_tracked_path a b = (tracked_as_str a \<le> tracked_as_str b)"

definition less_tracked_path :: "tracked_path \<Rightarrow> tracked_path \<Rightarrow> bool" where
  "less_tracked_path a b = (tracked_as_str a < tracked_as_str b)"

instance
  by standard
    (auto simp: less_eq_tracked_path_def less_tracked_path_def tracked_path.expand)

end

instantiation snapshot_id :: linorder
begin

definition less_eq_snapshot_id :: "snapshot_id \<Rightarrow> snapshot_id \<Rightarrow> bool" where
  "less_eq_snapshot_id a b = (snapshot_as_str a \<le> snapshot_as_str b)"

definition less_snapshot_id :: "snapshot_id \<Rightarrow> snapshot_id \<Rightarrow> bool" where
  "less_snapshot_id a b = (snapshot_as_str a < snapshot_as_str b)"

instance
  by standard
    (auto simp: less_eq_snapshot_id_def less_snapshot_id_def snapshot_id.expand)

end

instantiation object_id :: linorder
begin

definition less_eq_object_id :: "object_id \<Rightarrow> object_id \<Rightarrow> bool" where
  "less_eq_object_id a b = (object_as_str a \<le> object_as_str b)"

definition less_object_id :: "object_id \<Rightarrow> object_id \<Rightarrow> bool" where
  "less_object_id a b = (object_as_str a < object_as_str b)"

instance
  by standard
    (auto simp: less_eq_object_id_def less_object_id_def object_id.expand)

end

section \<open>Lower-case hexadecimal\<close>

definition hex_digits :: "byte list" where
  "hex_digits = lit ''0123456789abcdef''"

fun encode_lower_hex :: "bytes \<Rightarrow> str" where
  "encode_lower_hex [] = []"
| "encode_lower_hex (b # bs) =
     hex_digits ! unat (drop_bit 4 b) # hex_digits ! unat (b AND 0x0F) # encode_lower_hex bs"

definition hex_nibble :: "byte \<Rightarrow> byte option" where
  "hex_nibble v =
     (if 0x30 \<le> v \<and> v \<le> 0x39 then Some (v - 0x30)
      else if 0x61 \<le> v \<and> v \<le> 0x66 then Some (v - 0x61 + 10)
      else None)"

text \<open>The loop of \<open>decode_lower_hex\<close> over \<open>chunks_exact(2)\<close>.\<close>

fun decode_hex_pairs :: "bytes \<Rightarrow> bytes option" where
  "decode_hex_pairs (h # l # rest) =
     (case hex_nibble h of
        None \<Rightarrow> None
      | Some a \<Rightarrow> (case hex_nibble l of
          None \<Rightarrow> None
        | Some b \<Rightarrow> map_option ((#) (push_bit 4 a OR b)) (decode_hex_pairs rest)))"
| "decode_hex_pairs _ = Some []"

definition decode_lower_hex :: "nat \<Rightarrow> str \<Rightarrow> bytes option" where
  "decode_lower_hex n value =
     (if length value \<noteq> n * 2 then None else decode_hex_pairs value)"

definition is_lowercase_hex :: "str \<Rightarrow> nat \<Rightarrow> bool" where
  "is_lowercase_hex value expected_len \<longleftrightarrow>
     length value = expected_len \<and> (\<forall>b \<in> set value. is_lower_hex_digit b)"

definition is_lowercase_hex_uuid :: "str \<Rightarrow> bool" where
  "is_lowercase_hex_uuid value = is_lowercase_hex value 32"

definition validate_lower_hex_id :: "str \<Rightarrow> str \<Rightarrow> unit result" where
  "validate_lower_hex_id input label =
     (if length input \<noteq> 64 \<or> \<not> (\<forall>b \<in> set input. is_ascii_hexdigit b \<and> \<not> is_ascii_uppercase b)
      then Inl (InvalidId (label @ lit '' id must be 64 lowercase hex characters: '' @ input))
      else Inr ())"

definition validate_project_id :: "str \<Rightarrow> unit result" where
  "validate_project_id input =
     (if length input \<noteq> 32 \<or> \<not> (\<forall>b \<in> set input. is_ascii_hexdigit b \<and> \<not> is_ascii_uppercase b)
      then Inl (InvalidId (lit ''project id must be 32 lowercase hex characters: '' @ input))
      else Inr ())"

section \<open>Ids\<close>

text \<open>
  \<open>digest_bytes\<close> and \<open>uuid_bytes\<close> panic where the string does not decode; that cannot
  happen for a parsed id, which \<open>snapshot_id_parse_iff\<close> and its companions show, so the value
  there is immaterial.
\<close>

definition snapshot_id_parse :: "str \<Rightarrow> snapshot_id result" where
  "snapshot_id_parse input =
     res_bind (validate_lower_hex_id input (lit ''snapshot'')) (\<lambda>_. Inr (SnapshotId input))"

definition snapshot_id_from_digest_bytes :: "bytes \<Rightarrow> snapshot_id" where
  "snapshot_id_from_digest_bytes bs = SnapshotId (encode_lower_hex bs)"

definition snapshot_digest_bytes :: "snapshot_id \<Rightarrow> bytes" where
  "snapshot_digest_bytes i =
     (case decode_lower_hex 32 (snapshot_as_str i) of Some d \<Rightarrow> d | None \<Rightarrow> [])"

definition object_id_parse :: "str \<Rightarrow> object_id result" where
  "object_id_parse input =
     res_bind (validate_lower_hex_id input (lit ''object'')) (\<lambda>_. Inr (ObjectId input))"

definition object_id_from_bytes :: "(bytes \<Rightarrow> bytes) \<Rightarrow> bytes \<Rightarrow> object_id" where
  "object_id_from_bytes blake3 bs = ObjectId (encode_lower_hex (blake3 bs))"

definition object_id_from_digest_bytes :: "bytes \<Rightarrow> object_id" where
  "object_id_from_digest_bytes bs = ObjectId (encode_lower_hex bs)"

definition object_digest_bytes :: "object_id \<Rightarrow> bytes" where
  "object_digest_bytes i =
     (case decode_lower_hex 32 (object_as_str i) of Some d \<Rightarrow> d | None \<Rightarrow> [])"

definition project_id_parse :: "str \<Rightarrow> project_id result" where
  "project_id_parse input = res_bind (validate_project_id input) (\<lambda>_. Inr (ProjectId input))"

definition project_uuid_bytes :: "project_id \<Rightarrow> bytes" where
  "project_uuid_bytes i =
     (case decode_lower_hex 16 (project_as_str i) of Some d \<Rightarrow> d | None \<Rightarrow> [])"

definition project_id_from_uuid_bytes :: "bytes \<Rightarrow> project_id" where
  "project_id_from_uuid_bytes bs = ProjectId (encode_lower_hex bs)"

text \<open>The ids that \<open>parse\<close> can produce.\<close>

definition snapshot_id_valid :: "snapshot_id \<Rightarrow> bool" where
  "snapshot_id_valid i = is_ok (snapshot_id_parse (snapshot_as_str i))"

definition object_id_valid :: "object_id \<Rightarrow> bool" where
  "object_id_valid i = is_ok (object_id_parse (object_as_str i))"

definition project_id_valid :: "project_id \<Rightarrow> bool" where
  "project_id_valid i = is_ok (project_id_parse (project_as_str i))"

section \<open>Tracked paths\<close>

definition invalid_path :: "str \<Rightarrow> string \<Rightarrow> checkpo_error" where
  "invalid_path input reason = InvalidTrackedPath (input @ lit '': '' @ lit reason)"

definition is_reserved_device_digit :: "str \<Rightarrow> bool" where
  "is_reserved_device_digit v \<longleftrightarrow>
     v \<in> set [lit ''1'', lit ''2'', lit ''3'', lit ''4'', lit ''5'', lit ''6'', lit ''7'',
             lit ''8'', lit ''9'', [0xC2, 0xB9], [0xC2, 0xB2], [0xC2, 0xB3]]"

definition is_windows_reserved_name :: "str \<Rightarrow> bool" where
  "is_windows_reserved_name segment =
     (let upper = to_ascii_uppercase (hd (split_on 0x2E segment)) in
      upper \<in> set [lit ''CON'', lit ''PRN'', lit ''AUX'', lit ''NUL'', lit ''CONIN$'',
                  lit ''CONOUT$'']
      \<or> (case strip_prefix (lit ''COM'') upper of
           Some d \<Rightarrow> is_reserved_device_digit d | None \<Rightarrow> False)
      \<or> (case strip_prefix (lit ''LPT'') upper of
           Some d \<Rightarrow> is_reserved_device_digit d | None \<Rightarrow> False))"

text \<open>All these characters are ASCII, so the test is bytewise.\<close>

definition is_windows_forbidden_character :: "byte \<Rightarrow> bool" where
  "is_windows_forbidden_character v \<longleftrightarrow> v \<le> 0x1F \<or> v \<in> set (lit ''<>'' @ [0x22] @ lit ''|?*'')"

definition validate_segment :: "str \<Rightarrow> str \<Rightarrow> unit result" where
  "validate_segment input segment =
     (if segment = [] then Inl (invalid_path input ''empty segment is not allowed'')
      else if segment = lit ''.'' \<or> segment = lit ''..''
      then Inl (invalid_path input ''dot segments are not allowed'')
      else if last segment = 0x20 \<or> last segment = 0x2E
      then Inl (invalid_path input ''segments ending with space or dot are not allowed'')
      else if (\<exists>b \<in> set segment. is_windows_forbidden_character b)
      then Inl (invalid_path input ''Windows-forbidden characters are not allowed'')
      else if is_windows_reserved_name segment
      then Inl (invalid_path input ''Windows reserved file names are not allowed'')
      else Inr ())"

definition tracked_roots :: "str list" where
  "tracked_roots = [lit ''Assets'', lit ''Packages'', lit ''ProjectSettings'']"

definition tracked_path_parse :: "str \<Rightarrow> tracked_path result" where
  "tracked_path_parse input =
     (if input = [] then Inl (invalid_path input ''empty path'')
      else if 0x5C \<in> set input then Inl (invalid_path input ''backslash is not allowed'')
      else if 0x3A \<in> set input then Inl (invalid_path input ''colon is not allowed'')
      else if hd input = 0x2F then Inl (invalid_path input ''absolute path is not allowed'')
      else
        let segments = split_on 0x2F input in
        if length segments < 2
        then Inl (invalid_path input ''tracked root alone is not a file path'')
        else if hd segments \<notin> set tracked_roots then Inl (OutsideTrackedScope input)
        else res_bind (try_all (validate_segment input) segments)
               (\<lambda>_. Inr (TrackedPath input)))"

definition parse_tracked_paths :: "str list \<Rightarrow> tracked_path list result" where
  "parse_tracked_paths paths = try_map tracked_path_parse paths"

definition tracked_path_valid :: "tracked_path \<Rightarrow> bool" where
  "tracked_path_valid t = is_ok (tracked_path_parse (tracked_as_str t))"

section \<open>Operating system paths\<close>

text \<open>
  \<open>Path::components\<close> on Unix: repeated separators, a trailing separator and every \<open>.\<close> but
  a leading one vanish.
\<close>

datatype path_component = RootDir | CurDir | ParentDir | NormalComp bytes

definition body_component :: "bytes \<Rightarrow> path_component list" where
  "body_component g =
     (if g = [] \<or> g = lit ''.'' then []
      else if g = lit ''..'' then [ParentDir] else [NormalComp g])"

definition path_components :: "bytes \<Rightarrow> path_component list" where
  "path_components s =
     (if s = [] then []
      else
        let segs = split_on 0x2F s in
        (if hd segs = [] then [RootDir]
         else if hd segs = lit ''.'' then [CurDir]
         else body_component (hd segs))
        @ concat (map body_component (tl segs)))"

text \<open>\<open>Path::join\<close> of a relative path, and \<open>Path::file_name\<close>.\<close>

definition path_join :: "bytes \<Rightarrow> bytes \<Rightarrow> bytes" where
  "path_join base p =
     (if starts_with [0x2F] p then p
      else if base = [] \<or> last base = 0x2F then base @ p
      else base @ 0x2F # p)"

definition path_file_name :: "bytes \<Rightarrow> bytes option" where
  "path_file_name p =
     (if path_components p = [] then None
      else case last (path_components p) of NormalComp n \<Rightarrow> Some n | _ \<Rightarrow> None)"

definition to_project_path :: "bytes \<Rightarrow> tracked_path \<Rightarrow> bytes" where
  "to_project_path project_root t = path_join project_root (tracked_as_str t)"

text \<open>
  The messages of \<open>relative_path_from_project\<close> print the path; only the fixed part is kept.
\<close>

definition relative_component :: "path_component \<Rightarrow> str result" where
  "relative_component c =
     (case c of
        NormalComp v \<Rightarrow>
          (if utf8_valid v then Inr v
           else Inl (InvalidTrackedPath (lit '': non-UTF-8 path component is not supported'')))
      | _ \<Rightarrow> Inl (InvalidTrackedPath []))"

definition relative_path_from_project :: "bytes \<Rightarrow> bytes \<Rightarrow> str result" where
  "relative_path_from_project project_root full_path =
     res_bind
       (ok_or (OutsideTrackedScope full_path)
          (strip_prefix (path_components project_root) (path_components full_path)))
       (\<lambda>relative.
     res_bind (try_map relative_component relative)
       (\<lambda>parts. Inr (join_with 0x2F parts)))"

section \<open>Names of owned temporary files\<close>

definition strip_tmp :: "string \<Rightarrow> str \<Rightarrow> str option" where
  "strip_tmp p name =
     (case strip_prefix (lit p) name of
        None \<Rightarrow> None | Some body \<Rightarrow> strip_suffix (lit ''.tmp'') body)"

definition is_checkpo_atomic_materialization_temporary_file_name :: "str \<Rightarrow> bool" where
  "is_checkpo_atomic_materialization_temporary_file_name name =
     (case strip_tmp ''.checkpo-'' name of
        None \<Rightarrow> False | Some v \<Rightarrow> is_lowercase_hex_uuid v)"

definition is_checkpo_owned_temporary_file_name :: "str \<Rightarrow> bool" where
  "is_checkpo_owned_temporary_file_name name \<longleftrightarrow>
     is_checkpo_atomic_materialization_temporary_file_name name
     \<or> (case strip_tmp ''.checkpo-r-'' name of
          None \<Rightarrow> False
        | Some body \<Rightarrow>
            (case split_once 0x2D body of
               None \<Rightarrow> False
             | Some (digest, transaction_id) \<Rightarrow>
                 is_lowercase_hex digest 16 \<and> is_lowercase_hex_uuid transaction_id))"

definition path_name_is :: "(str \<Rightarrow> bool) \<Rightarrow> bytes \<Rightarrow> bool" where
  "path_name_is f p =
     (case path_file_name p of None \<Rightarrow> False | Some n \<Rightarrow> utf8_valid n \<and> f n)"

definition is_checkpo_owned_temporary_file :: "bytes \<Rightarrow> bool" where
  "is_checkpo_owned_temporary_file p = path_name_is is_checkpo_owned_temporary_file_name p"

definition is_checkpo_temporary_file :: "bytes \<Rightarrow> bool" where
  "is_checkpo_temporary_file p = is_checkpo_owned_temporary_file p"

definition is_checkpo_atomic_materialization_temporary_file :: "bytes \<Rightarrow> bool" where
  "is_checkpo_atomic_materialization_temporary_file p =
     path_name_is is_checkpo_atomic_materialization_temporary_file_name p"

section \<open>Correctness of the hexadecimal codec and the ids\<close>

text \<open>Facts about all bytes, by evaluation.\<close>

lemma byte_of_unat: "word_of_nat (unat b) = (b :: byte)"
  by simp

lemma byte_exhaust:
  assumes "\<forall>n \<in> set [0..<256]. P (word_of_nat n)"
  shows "P (b :: byte)"
proof -
  have "unat b \<in> set [0..<256]" using unsigned_less [of b] by simp
  with assms have "P (word_of_nat (unat b))" by blast
  then show ?thesis by simp
qed

lemma nibbles_of_byte:
  "unat (drop_bit 4 (b::byte)) < 16 \<and> unat (b AND 0x0F) < 16
   \<and> push_bit 4 (drop_bit 4 b) OR (b AND 0x0F) = b"
  by (rule byte_exhaust) code_simp

lemma hex_nibble_digit: "n < 16 \<Longrightarrow> hex_nibble (hex_digits ! n) = Some (word_of_nat n)"
proof -
  have "\<forall>n \<in> set [0..<16]. hex_nibble (hex_digits ! n) = Some (word_of_nat n)"
    by code_simp
  then show "n < 16 \<Longrightarrow> ?thesis" by simp
qed

lemma hex_digit_of_nibble:
  "case hex_nibble v of None \<Rightarrow> \<not> is_lower_hex_digit v
   | Some a \<Rightarrow> unat a < 16 \<and> hex_digits ! unat a = v \<and> is_lower_hex_digit v"
  by (rule byte_exhaust) code_simp

lemma nibbles_split:
  assumes "unat a < 16" "unat b < 16"
  shows "drop_bit 4 (push_bit 4 a OR b) = (a::byte) \<and> (push_bit 4 a OR b) AND 0x0F = b"
proof -
  have "\<forall>m \<in> set [0..<16]. \<forall>n \<in> set [0..<16].
     drop_bit 4 (push_bit 4 (word_of_nat m) OR word_of_nat n) = (word_of_nat m :: byte)
     \<and> (push_bit 4 (word_of_nat m) OR word_of_nat n) AND 0x0F = (word_of_nat n :: byte)"
    by code_simp
  moreover have "unat a \<in> set [0..<16]" "unat b \<in> set [0..<16]" using assms by simp_all
  ultimately have "drop_bit 4 (push_bit 4 (word_of_nat (unat a)) OR word_of_nat (unat b)) = (word_of_nat (unat a) :: byte)
     \<and> (push_bit 4 (word_of_nat (unat a)) OR word_of_nat (unat b)) AND 0x0F = (word_of_nat (unat b) :: byte)"
    by blast
  then show ?thesis by (simp only: byte_of_unat)
qed

lemma length_encode_lower_hex [simp]: "length (encode_lower_hex bs) = length bs * 2"
  by (induction bs) auto

lemma hex_nibble_high: "hex_nibble (hex_digits ! unat (drop_bit 4 b)) = Some (drop_bit 4 b)"
  using hex_nibble_digit nibbles_of_byte [of b] by simp

lemma hex_nibble_low: "hex_nibble (hex_digits ! unat (b AND 0x0F)) = Some (b AND 0x0F)"
  using hex_nibble_digit nibbles_of_byte [of b] by simp

lemma decode_hex_pairs_encode: "decode_hex_pairs (encode_lower_hex bs) = Some bs"
  by (induction bs) (simp_all add: hex_nibble_high hex_nibble_low nibbles_of_byte)

lemma decode_encode_lower_hex: "decode_lower_hex (length bs) (encode_lower_hex bs) = Some bs"
  by (simp add: decode_lower_hex_def decode_hex_pairs_encode)

lemma encode_decode_hex_pairs:
  "decode_hex_pairs s = Some bs \<Longrightarrow> even (length s) \<Longrightarrow>
   encode_lower_hex bs = s \<and> (\<forall>b \<in> set s. is_lower_hex_digit b)"
proof (induction s arbitrary: bs rule: decode_hex_pairs.induct)
  case (1 h l rest)
  then obtain a b ds where ab: "hex_nibble h = Some a" "hex_nibble l = Some b"
    and ds: "decode_hex_pairs rest = Some ds" "bs = (push_bit 4 a OR b) # ds"
    by (auto split: option.splits)
  have n: "unat a < 16" "hex_digits ! unat a = h" "is_lower_hex_digit h"
    "unat b < 16" "hex_digits ! unat b = l" "is_lower_hex_digit l"
    using hex_digit_of_nibble [of h] hex_digit_of_nibble [of l] ab by auto
  from nibbles_split [OF n(1) n(4)] n ds "1.IH" [OF ab ds(1)] "1.prems"(2)
  show ?case by simp
qed auto

lemma decode_hex_pairs_total:
  "\<forall>b \<in> set s. is_lower_hex_digit b \<Longrightarrow> decode_hex_pairs s \<noteq> None"
proof (induction s rule: decode_hex_pairs.induct)
  case (1 h l rest)
  obtain a b where ab: "hex_nibble h = Some a" "hex_nibble l = Some b"
    using hex_digit_of_nibble [of h] hex_digit_of_nibble [of l] 1(2)
    by (auto split: option.splits)
  with 1 show ?case by auto
qed auto

lemma decode_lower_hex_Some_iff:
  "decode_lower_hex n s = Some bs \<longleftrightarrow> length bs = n \<and> s = encode_lower_hex bs"
proof
  assume "decode_lower_hex n s = Some bs"
  then have "length s = n * 2" "decode_hex_pairs s = Some bs"
    by (auto simp: decode_lower_hex_def split: if_splits)
  with encode_decode_hex_pairs [of s bs] length_encode_lower_hex [of bs]
  show "length bs = n \<and> s = encode_lower_hex bs" by auto
qed (auto simp: decode_encode_lower_hex)

lemma is_lowercase_hex_iff:
  "is_lowercase_hex s (2 * n) \<longleftrightarrow> (\<exists>bs. length bs = n \<and> s = encode_lower_hex bs)"
proof
  assume *: "is_lowercase_hex s (2 * n)"
  then obtain bs where "decode_hex_pairs s = Some bs"
    using decode_hex_pairs_total unfolding is_lowercase_hex_def by blast
  with * have "decode_lower_hex n s = Some bs"
    by (simp add: decode_lower_hex_def is_lowercase_hex_def)
  then show "\<exists>bs. length bs = n \<and> s = encode_lower_hex bs"
    by (auto simp: decode_lower_hex_Some_iff)
next
  assume "\<exists>bs. length bs = n \<and> s = encode_lower_hex bs"
  then obtain bs where bs: "length bs = n" "s = encode_lower_hex bs" by blast
  with encode_decode_hex_pairs [OF decode_hex_pairs_encode [of bs]]
  show "is_lowercase_hex s (2 * n)" by (simp add: is_lowercase_hex_def)
qed

lemma validate_lower_hex_id_iff:
  "validate_lower_hex_id s label = Inr u \<longleftrightarrow> is_lowercase_hex s (2 * 32)"
  by (auto simp: validate_lower_hex_id_def is_lowercase_hex_def is_lower_hex_digit_def)

lemma validate_project_id_iff: "validate_project_id s = Inr u \<longleftrightarrow> is_lowercase_hex s (2 * 16)"
  by (auto simp: validate_project_id_def is_lowercase_hex_def is_lower_hex_digit_def)

lemma snapshot_digest_bytes_from [simp]:
  "length d = 32 \<Longrightarrow> snapshot_digest_bytes (snapshot_id_from_digest_bytes d) = d"
  using decode_encode_lower_hex [of d]
  by (simp add: snapshot_digest_bytes_def snapshot_id_from_digest_bytes_def)

lemma object_digest_bytes_from [simp]:
  "length d = 32 \<Longrightarrow> object_digest_bytes (object_id_from_digest_bytes d) = d"
  using decode_encode_lower_hex [of d]
  by (simp add: object_digest_bytes_def object_id_from_digest_bytes_def)

lemma project_uuid_bytes_from [simp]:
  "length d = 16 \<Longrightarrow> project_uuid_bytes (project_id_from_uuid_bytes d) = d"
  using decode_encode_lower_hex [of d]
  by (simp add: project_uuid_bytes_def project_id_from_uuid_bytes_def)

lemma snapshot_id_parse_iff:
  "snapshot_id_parse s = Inr i \<longleftrightarrow>
     (\<exists>d. length d = 32 \<and> s = encode_lower_hex d \<and> i = snapshot_id_from_digest_bytes d)"
  unfolding snapshot_id_parse_def res_bind_Inr_iff validate_lower_hex_id_iff is_lowercase_hex_iff
  by (auto simp: snapshot_id_from_digest_bytes_def)

lemma object_id_parse_iff:
  "object_id_parse s = Inr i \<longleftrightarrow>
     (\<exists>d. length d = 32 \<and> s = encode_lower_hex d \<and> i = object_id_from_digest_bytes d)"
  unfolding object_id_parse_def res_bind_Inr_iff validate_lower_hex_id_iff is_lowercase_hex_iff
  by (auto simp: object_id_from_digest_bytes_def)

lemma project_id_parse_iff:
  "project_id_parse s = Inr i \<longleftrightarrow>
     (\<exists>d. length d = 16 \<and> s = encode_lower_hex d \<and> i = project_id_from_uuid_bytes d)"
  unfolding project_id_parse_def res_bind_Inr_iff validate_project_id_iff is_lowercase_hex_iff
  by (auto simp: project_id_from_uuid_bytes_def)

lemma snapshot_id_valid_iff:
  "snapshot_id_valid i \<longleftrightarrow> (\<exists>d. length d = 32 \<and> i = snapshot_id_from_digest_bytes d)"
  unfolding snapshot_id_valid_def snapshot_id_parse_iff
  by (metis snapshot_id.exhaust_sel snapshot_id.sel snapshot_id_from_digest_bytes_def)

lemma object_id_valid_iff:
  "object_id_valid i \<longleftrightarrow> (\<exists>d. length d = 32 \<and> i = object_id_from_digest_bytes d)"
  unfolding object_id_valid_def object_id_parse_iff
  by (metis object_id.exhaust_sel object_id.sel object_id_from_digest_bytes_def)

lemma project_id_valid_iff:
  "project_id_valid i \<longleftrightarrow> (\<exists>d. length d = 16 \<and> i = project_id_from_uuid_bytes d)"
  unfolding project_id_valid_def project_id_parse_iff
  by (metis project_id.exhaust_sel project_id.sel project_id_from_uuid_bytes_def)

lemma snapshot_id_from_digest [simp]:
  "snapshot_id_valid i \<Longrightarrow> snapshot_id_from_digest_bytes (snapshot_digest_bytes i) = i"
  by (auto simp: snapshot_id_valid_iff)

lemma object_id_from_digest [simp]:
  "object_id_valid i \<Longrightarrow> object_id_from_digest_bytes (object_digest_bytes i) = i"
  by (auto simp: object_id_valid_iff)

lemma project_id_from_uuid [simp]:
  "project_id_valid i \<Longrightarrow> project_id_from_uuid_bytes (project_uuid_bytes i) = i"
  by (auto simp: project_id_valid_iff)

lemma length_snapshot_digest [simp]:
  "snapshot_id_valid i \<Longrightarrow> length (snapshot_digest_bytes i) = 32"
  by (auto simp: snapshot_id_valid_iff)

lemma length_object_digest [simp]: "object_id_valid i \<Longrightarrow> length (object_digest_bytes i) = 32"
  by (auto simp: object_id_valid_iff)

lemma length_project_uuid [simp]: "project_id_valid i \<Longrightarrow> length (project_uuid_bytes i) = 16"
  by (auto simp: project_id_valid_iff)

lemma from_digest_valid [simp]:
  "length d = 32 \<Longrightarrow> snapshot_id_valid (snapshot_id_from_digest_bytes d)"
  "length d = 32 \<Longrightarrow> object_id_valid (object_id_from_digest_bytes d)"
  "length u = 16 \<Longrightarrow> project_id_valid (project_id_from_uuid_bytes u)"
  by (auto simp: snapshot_id_valid_iff object_id_valid_iff project_id_valid_iff)

section \<open>Correctness of tracked paths\<close>

text \<open>What a segment of an accepted path looks like.\<close>

definition safe_segment :: "str \<Rightarrow> bool" where
  "safe_segment g \<longleftrightarrow>
     g \<noteq> [] \<and> g \<noteq> lit ''.'' \<and> g \<noteq> lit ''..'' \<and> last g \<noteq> 0x20 \<and> last g \<noteq> 0x2E
     \<and> (\<forall>b \<in> set g. \<not> is_windows_forbidden_character b \<and> b \<noteq> 0x2F \<and> b \<noteq> 0x5C \<and> b \<noteq> 0x3A)
     \<and> \<not> is_windows_reserved_name g"

definition safe_segments :: "str list \<Rightarrow> bool" where
  "safe_segments gs \<longleftrightarrow> 2 \<le> length gs \<and> hd gs \<in> set tracked_roots \<and> (\<forall>g \<in> set gs. safe_segment g)"

lemma validate_segment_iff:
  "validate_segment input g = Inr u \<longleftrightarrow>
     g \<noteq> [] \<and> g \<noteq> lit ''.'' \<and> g \<noteq> lit ''..'' \<and> last g \<noteq> 0x20 \<and> last g \<noteq> 0x2E
     \<and> (\<forall>b \<in> set g. \<not> is_windows_forbidden_character b) \<and> \<not> is_windows_reserved_name g"
  by (auto simp: validate_segment_def)

lemma set_join_with: "set (join_with c gs) \<subseteq> insert c (\<Union> (set ` set gs))"
  by (induction c gs rule: join_with.induct) auto

lemma set_segment: "g \<in> set (split_on c s) \<Longrightarrow> set g \<subseteq> set s"
proof (induction s arbitrary: g)
  case (Cons b s)
  obtain u us where "split_on c s = u # us" by (cases "split_on c s") auto
  with Cons show ?case by (auto split: if_splits) (metis insertE subsetD)+
qed simp

lemma split_on_hd_ne: "s \<noteq> [] \<Longrightarrow> hd s = c \<longleftrightarrow> hd (split_on c s) = []"
  by (cases s) (auto split: list.splits)

lemma tracked_roots_ne: "[] \<notin> set tracked_roots"
  by (simp add: tracked_roots_def)

lemma tracked_path_parse_iff_segments:
  "tracked_path_parse s = Inr t \<longleftrightarrow> t = TrackedPath s \<and> safe_segments (split_on 0x2F s)"
proof
  assume a: "tracked_path_parse s = Inr t"
  then have b: "s \<noteq> []" "0x5C \<notin> set s" "0x3A \<notin> set s" "t = TrackedPath s"
    "2 \<le> length (split_on 0x2F s)" "hd (split_on 0x2F s) \<in> set tracked_roots"
    "\<forall>g \<in> set (split_on 0x2F s). validate_segment s g = Inr ()"
    by (auto simp: tracked_path_parse_def Let_def res_simps split: if_splits)
  have "safe_segment g" if g: "g \<in> set (split_on 0x2F s)" for g
  proof -
    have "validate_segment s g = Inr ()" using b(7) g by blast
    moreover have "\<forall>x \<in> set g. x \<noteq> 0x2F \<and> x \<noteq> 0x5C \<and> x \<noteq> 0x3A"
      using b(2,3) set_segment [OF g] split_on_no_sep [OF g] by blast
    ultimately show ?thesis
      unfolding safe_segment_def validate_segment_iff by blast
  qed
  with b show "t = TrackedPath s \<and> safe_segments (split_on 0x2F s)"
    unfolding safe_segments_def by blast
next
  assume a: "t = TrackedPath s \<and> safe_segments (split_on 0x2F s)"
  then have len: "2 \<le> length (split_on 0x2F s)" and hd: "hd (split_on 0x2F s) \<in> set tracked_roots"
    and seg: "\<forall>g \<in> set (split_on 0x2F s). safe_segment g" by (auto simp: safe_segments_def)
  have ne: "s \<noteq> []" using len by auto
  have "set s \<subseteq> insert 0x2F (\<Union> (set ` set (split_on 0x2F s)))"
    using set_join_with [where c = "0x2F" and gs = "split_on 0x2F s"] by simp
  with seg have ch: "0x5C \<notin> set s" "0x3A \<notin> set s"
    unfolding safe_segment_def by (fastforce)+
  have "hd s \<noteq> 0x2F" using split_on_hd_ne [OF ne] hd tracked_roots_ne by metis
  moreover have "\<forall>g \<in> set (split_on 0x2F s). validate_segment s g = Inr ()"
    using seg by (auto simp: validate_segment_iff safe_segment_def)
  then have "try_all (validate_segment s) (split_on 0x2F s) = Inr ()"
    by (simp add: try_all_Inr_iff)
  ultimately show "tracked_path_parse s = Inr t"
    using a ne ch len hd by (simp add: tracked_path_parse_def Let_def)
qed

lemma tracked_path_valid_iff: "tracked_path_valid t \<longleftrightarrow> safe_segments (split_on 0x2F (tracked_as_str t))"
  by (auto simp: tracked_path_valid_def tracked_path_parse_iff_segments)

lemma tracked_path_parse_valid: "tracked_path_parse s = Inr t \<Longrightarrow> tracked_as_str t = s \<and> tracked_path_valid t"
  by (auto simp: tracked_path_valid_iff tracked_path_parse_iff_segments)

lemma body_component_safe: "safe_segment g \<Longrightarrow> body_component g = [NormalComp g]"
  by (simp add: body_component_def safe_segment_def)

lemma concat_body_safe:
  "\<forall>g \<in> set gs. safe_segment g \<Longrightarrow> concat (map body_component gs) = map NormalComp gs"
  by (induction gs) (auto simp: body_component_safe)

lemma split_on_append: 
  "split_on c (s @ c # t) = split_on c s @ split_on c t"
  by (induction s) (auto split: list.splits)

text \<open>The components of a joined path are those of the base followed by the segments.\<close>

lemma path_components_join:
  assumes "safe_segments (split_on 0x2F s)"
  shows "path_components (path_join root s) = path_components root @ map NormalComp (split_on 0x2F s)"
proof -
  let ?gs = "split_on 0x2F s"
  have safe: "\<forall>g \<in> set ?gs. safe_segment g" and hd: "hd ?gs \<in> set tracked_roots"
    and ne: "s \<noteq> []" using assms by (auto simp: safe_segments_def)
  have hs: "hd s \<noteq> 0x2F" using split_on_hd_ne [OF ne] hd tracked_roots_ne by metis
  then have rel: "\<not> starts_with [0x2F] s" by (auto simp: starts_with_iff)
  obtain g gs where gg: "?gs = g # gs" by (cases ?gs) auto
  have sg: "safe_segment g" "\<forall>g \<in> set gs. safe_segment g" using safe gg by auto
  show ?thesis
  proof (cases "root = []")
    case True
    with rel ne gg sg show ?thesis
      by (simp add: path_join_def path_components_def concat_body_safe)
        (simp add: safe_segment_def body_component_def)
  next
    case False
    define r where "r = (if last root = 0x2F then butlast root else root)"
    have j: "path_join root s = r @ 0x2F # s"
      using False rel append_butlast_last_id [OF False]
      by (auto simp: path_join_def r_def simp del: append_butlast_last_id)
    obtain h hs where hh: "split_on 0x2F r = h # hs" by (cases "split_on 0x2F r") auto
    have "split_on 0x2F root = (if last root = 0x2F then h # hs @ [[]] else h # hs)"
    proof (cases "last root = 0x2F")
      case True
      then have "root = r @ [0x2F]" using append_butlast_last_id [OF False] by (simp add: r_def)
      then show ?thesis using True hh split_on_append [of "0x2F" r "[]"] by simp
    qed (use hh in \<open>simp add: r_def\<close>)
    then have pr: "path_components root =
        (if h = [] then [RootDir] else if h = lit ''.'' then [CurDir] else body_component h)
        @ concat (map body_component hs)"
      using False by (simp add: path_components_def body_component_def)
    show ?thesis
      unfolding j pr
      by (simp add: path_components_def [of "r @ 0x2F # s"] split_on_append hh concat_body_safe
          safe Let_def)
  qed
qed

lemma try_map_relative:
  "\<forall>g \<in> set gs. utf8_valid g \<Longrightarrow> try_map relative_component (map NormalComp gs) = Inr gs"
  by (induction gs) (simp_all add: relative_component_def)


text \<open>C15: An accepted tracked path, joined to a project root, has exactly the components of
the root followed by the path's segments as plain names, the first of them one of the three
tracked roots: it cannot leave the project, and \<open>relative_path_from_project\<close> gives the same
path back.\<close>

theorem tracked_path_contained:
  assumes "tracked_path_parse s = Inr t" and "utf8_valid s"
  shows "path_components (to_project_path root t)
           = path_components root @ map NormalComp (split_on 0x2F s)
         \<and> hd (split_on 0x2F s) \<in> set tracked_roots
         \<and> relative_path_from_project root (to_project_path root t) = Inr s"
proof -
  from assms(1) have t: "tracked_as_str t = s" and safe: "safe_segments (split_on 0x2F s)"
    by (auto simp: tracked_path_parse_iff_segments)
  from path_components_join [OF safe, of root]
  have c: "path_components (to_project_path root t)
             = path_components root @ map NormalComp (split_on 0x2F s)"
    by (simp add: to_project_path_def t)
  then have "strip_prefix (path_components root) (path_components (to_project_path root t))
               = Some (map NormalComp (split_on 0x2F s))"
    by simp
  with assms(2) have "relative_path_from_project root (to_project_path root t) = Inr s"
    by (simp add: relative_path_from_project_def try_map_relative utf8_valid_segment)
  with c safe show ?thesis by (simp add: safe_segments_def)
qed

lemma tracked_path_contained_witness:
  "relative_path_from_project (lit ''/home/p'')
     (to_project_path (lit ''/home/p'') (TrackedPath (lit ''Assets/a.txt''))) = Inr (lit ''Assets/a.txt'')"
proof -
  have "tracked_path_parse (lit ''Assets/a.txt'') = Inr (TrackedPath (lit ''Assets/a.txt''))"
    by code_simp
  moreover have "utf8_valid (lit ''Assets/a.txt'')" by code_simp
  ultimately show ?thesis using tracked_path_contained by blast
qed

text \<open>C16: The ids are exactly the lower-case hexadecimal renderings of 32-byte digests (16-byte
UUIDs for projects). A parser accepts a string only as the rendering of the bytes of its id; it
accepts the rendering of every digest of that length, with the id of that digest; and the bytes of
that id are the digest.\<close>

theorem ids_are_hex_digests:
  assumes "length d = 32" and "length u = 16"
  shows "(snapshot_id_parse s = Inr i \<longleftrightarrow>
      s = encode_lower_hex (snapshot_digest_bytes i) \<and> length (snapshot_digest_bytes i) = 32
      \<and> i = snapshot_id_from_digest_bytes (snapshot_digest_bytes i))
   \<and> snapshot_id_parse (encode_lower_hex d) = Inr (snapshot_id_from_digest_bytes d)
   \<and> snapshot_as_str (snapshot_id_from_digest_bytes d) = encode_lower_hex d
   \<and> snapshot_digest_bytes (snapshot_id_from_digest_bytes d) = d
   \<and> (object_id_parse s = Inr ob \<longleftrightarrow>
      s = encode_lower_hex (object_digest_bytes ob) \<and> length (object_digest_bytes ob) = 32
      \<and> ob = object_id_from_digest_bytes (object_digest_bytes ob))
   \<and> object_id_parse (encode_lower_hex d) = Inr (object_id_from_digest_bytes d)
   \<and> object_as_str (object_id_from_digest_bytes d) = encode_lower_hex d
   \<and> object_digest_bytes (object_id_from_digest_bytes d) = d
   \<and> (project_id_parse s = Inr p \<longleftrightarrow>
      s = encode_lower_hex (project_uuid_bytes p) \<and> length (project_uuid_bytes p) = 16
      \<and> p = project_id_from_uuid_bytes (project_uuid_bytes p))
   \<and> project_id_parse (encode_lower_hex u) = Inr (project_id_from_uuid_bytes u)
   \<and> project_as_str (project_id_from_uuid_bytes u) = encode_lower_hex u
   \<and> project_uuid_bytes (project_id_from_uuid_bytes u) = u"
proof (intro conjI)
  show "snapshot_id_parse s = Inr i \<longleftrightarrow>
      s = encode_lower_hex (snapshot_digest_bytes i) \<and> length (snapshot_digest_bytes i) = 32
      \<and> i = snapshot_id_from_digest_bytes (snapshot_digest_bytes i)"
    unfolding snapshot_id_parse_iff by auto
  show "object_id_parse s = Inr ob \<longleftrightarrow>
      s = encode_lower_hex (object_digest_bytes ob) \<and> length (object_digest_bytes ob) = 32
      \<and> ob = object_id_from_digest_bytes (object_digest_bytes ob)"
    unfolding object_id_parse_iff by auto
  show "project_id_parse s = Inr p \<longleftrightarrow>
      s = encode_lower_hex (project_uuid_bytes p) \<and> length (project_uuid_bytes p) = 16
      \<and> p = project_id_from_uuid_bytes (project_uuid_bytes p)"
    unfolding project_id_parse_iff by auto
  show "snapshot_as_str (snapshot_id_from_digest_bytes d) = encode_lower_hex d"
    "object_as_str (object_id_from_digest_bytes d) = encode_lower_hex d"
    "project_as_str (project_id_from_uuid_bytes u) = encode_lower_hex u"
    by (simp_all add: snapshot_id_from_digest_bytes_def object_id_from_digest_bytes_def
        project_id_from_uuid_bytes_def)
qed (use assms in \<open>auto simp: snapshot_id_parse_iff object_id_parse_iff project_id_parse_iff\<close>)

lemma ids_are_hex_digests_witness:
  "snapshot_id_parse (encode_lower_hex (replicate 32 0xF0)) = Inr (snapshot_id_from_digest_bytes (replicate 32 0xF0))
   \<and> project_uuid_bytes (project_id_from_uuid_bytes (replicate 16 0x3F)) = replicate 16 0x3F"
  using ids_are_hex_digests [of "replicate 32 0xF0" "replicate 16 0x3F"] by simp

lemma split_once_Some_iff: "split_once c s = Some (a, b) \<longleftrightarrow> s = a @ c # b \<and> c \<notin> set a"
proof
  assume *: "split_once c s = Some (a, b)"
  then have ne: "takeWhile (\<lambda>b. b \<noteq> c) s \<noteq> s" and a: "a = takeWhile (\<lambda>b. b \<noteq> c) s"
    and b: "b = drop (Suc (length a)) s"
    by (auto simp: split_once_def Let_def split: if_splits)
  have l: "length a < length s" using ne a
    by (metis length_takeWhile_le nat_less_le takeWhile_eq_take take_all_iff order_refl)
  then have "s ! length a = c" using nth_length_takeWhile [of "\<lambda>b. b \<noteq> c" s] a by simp
  moreover have "take (length a) s = a" unfolding a by (metis takeWhile_eq_take)
  ultimately have "s = a @ c # b" using id_take_nth_drop [OF l] b by metis
  moreover have "c \<notin> set a" unfolding a by (auto dest: set_takeWhileD)
  ultimately show "s = a @ c # b \<and> c \<notin> set a" by blast
next
  assume *: "s = a @ c # b \<and> c \<notin> set a"
  have "takeWhile (\<lambda>b. b \<noteq> c) (a @ c # b) = a"
    using * by (subst takeWhile_append2) auto
  with * show "split_once c s = Some (a, b)" by (simp add: split_once_def Let_def)
qed

lemma is_lowercase_hex_no_dash: "is_lowercase_hex d n \<Longrightarrow> 0x2D \<notin> set d"
  by (auto simp: is_lowercase_hex_def is_lower_hex_digit_iff word_le_nat_alt)

lemma strip_tmp_Some_iff: "strip_tmp p name = Some v \<longleftrightarrow> name = lit p @ v @ lit ''.tmp''"
  by (auto simp: strip_tmp_def split: option.splits)

lemma atomic_name_iff:
  "is_checkpo_atomic_materialization_temporary_file_name name \<longleftrightarrow>
     (\<exists>u. is_lowercase_hex_uuid u \<and> name = lit ''.checkpo-'' @ u @ lit ''.tmp'')"
  unfolding is_checkpo_atomic_materialization_temporary_file_name_def
  by (auto simp: strip_tmp_Some_iff simp del: lit_simps append_assoc split: option.splits)
    (metis option.distinct(1) strip_tmp_Some_iff)

text \<open>C17: The names the program may delete as its own temporary files are exactly
\<open>.checkpo-U.tmp\<close> and \<open>.checkpo-r-D-U.tmp\<close> with \<open>U\<close> the 32 lower-case hexadecimal digits of a
UUID and \<open>D\<close> 16 such digits.\<close>

theorem owned_temporary_name_iff:
  "is_checkpo_owned_temporary_file_name name \<longleftrightarrow>
     (\<exists>u. length u = 16 \<and>
        (name = lit ''.checkpo-'' @ encode_lower_hex u @ lit ''.tmp''
         \<or> (\<exists>d. length d = 8 \<and>
              name = lit ''.checkpo-r-'' @ encode_lower_hex d @ lit ''-'' @ encode_lower_hex u
                     @ lit ''.tmp'')))"
proof -
  have u: "is_lowercase_hex_uuid v \<longleftrightarrow> (\<exists>bs. length bs = 16 \<and> v = encode_lower_hex bs)" for v
    using is_lowercase_hex_iff [of v 16] by (simp add: is_lowercase_hex_uuid_def)
  have d: "is_lowercase_hex v 16 \<longleftrightarrow> (\<exists>bs. length bs = 8 \<and> v = encode_lower_hex bs)" for v
    using is_lowercase_hex_iff [of v 8] by simp
  have r: "(case strip_tmp ''.checkpo-r-'' name of None \<Rightarrow> False
        | Some body \<Rightarrow> (case split_once 0x2D body of None \<Rightarrow> False
             | Some (digest, transaction_id) \<Rightarrow>
                 is_lowercase_hex digest 16 \<and> is_lowercase_hex_uuid transaction_id))
     \<longleftrightarrow> (\<exists>g v. is_lowercase_hex g 16 \<and> is_lowercase_hex_uuid v
            \<and> name = lit ''.checkpo-r-'' @ (g @ 0x2D # v) @ lit ''.tmp'')" (is "?l \<longleftrightarrow> ?r")
  proof
    assume ?l
    then obtain body g v where "strip_tmp ''.checkpo-r-'' name = Some body"
      "split_once 0x2D body = Some (g, v)" "is_lowercase_hex g 16" "is_lowercase_hex_uuid v"
      by (auto split: option.splits)
    then show ?r by (metis split_once_Some_iff strip_tmp_Some_iff)
  next
    assume ?r
    then obtain g v where gv: "is_lowercase_hex g 16" "is_lowercase_hex_uuid v"
      and n: "name = lit ''.checkpo-r-'' @ (g @ 0x2D # v) @ lit ''.tmp''" by blast
    from n have "strip_tmp ''.checkpo-r-'' name = Some (g @ 0x2D # v)"
      unfolding strip_tmp_Some_iff .
    moreover have "split_once 0x2D (g @ 0x2D # v) = Some (g, v)"
      using is_lowercase_hex_no_dash [OF gv(1)] by (simp add: split_once_Some_iff)
    ultimately show ?l using gv by simp
  qed
  have dash: "lit ''-'' @ x = 0x2D # x" for x by simp
  show ?thesis
    unfolding is_checkpo_owned_temporary_file_name_def atomic_name_iff r
    unfolding u d dash append_assoc append_Cons by blast
qed

end
