(* ===== verification/MerkleCodec.thy ===== *)
theory MerkleCodec
  imports TrackedPath
begin

text \<open>
  \<open>storage/merkle_codec.rs\<close>: the canonical binary codec of snapshot roots and manifest chunks.
  A \<open>[u8; N]\<close> is a byte list of length \<open>N\<close>; the \<open>_typed\<close> predicates say what the Rust types
  guarantee (array lengths, UTF-8 strings). A writer operation is the bytes it appends; a
  reader operation takes the remaining bytes and returns its value with the bytes that
  remain. Error messages keep their fixed part. \<open>blake3\<close> is a parameter.
\<close>

section \<open>Constants, errors and types\<close>

definition MAGIC :: bytes where "MAGIC = lit ''CPMRKL2'' @ [0]"
definition CODEC_VERSION :: byte where "CODEC_VERSION = 1"
definition ENVELOPE_LEN :: nat where "ENVELOPE_LEN = 16"
definition MAX_ROOT_BYTES :: nat where "MAX_ROOT_BYTES = 64 * 1024"
definition MAX_MANIFEST_CHUNK_BYTES :: nat where "MAX_MANIFEST_CHUNK_BYTES = 1024 * 1024"
definition MAX_EXACT_PATH_BYTES :: nat where "MAX_EXACT_PATH_BYTES = 128 * 1024"
definition MAX_CHECKPOINT_NAME_BYTES :: nat where "MAX_CHECKPOINT_NAME_BYTES = 4 * 1024"
definition MAX_TOOL_VERSION_BYTES :: nat where "MAX_TOOL_VERSION_BYTES = 256"
definition MAX_PREFIX_BYTES :: nat where "MAX_PREFIX_BYTES = MAX_EXACT_PATH_BYTES"
definition MAX_LEAF_ENTRIES :: nat where "MAX_LEAF_ENTRIES = 16384"
definition MAX_NODE_CHILDREN :: nat where "MAX_NODE_CHILDREN = 256"

definition ROOT_HASH_DOMAIN :: bytes where
  "ROOT_HASH_DOMAIN = lit ''checkpo.snapshot-root.v2'' @ [0]"
definition NODE_HASH_DOMAIN :: bytes where
  "NODE_HASH_DOMAIN = lit ''checkpo.manifest-node.v2'' @ [0]"
definition LEAF_HASH_DOMAIN :: bytes where
  "LEAF_HASH_DOMAIN = lit ''checkpo.manifest-leaf.v2'' @ [0]"

definition PAYLOAD_SCHEMA :: u16 where "PAYLOAD_SCHEMA = 1"
definition TRACKED_SCOPE_POLICY :: u16 where "TRACKED_SCOPE_POLICY = 1"
definition PATH_KEY_POLICY :: u16 where "PATH_KEY_POLICY = 1"
definition CONTENT_POLICY :: u16 where "CONTENT_POLICY = 1"

datatype codec_error = Invalid string | Limit string nat nat | Overflow string

type_synonym 'a codec_result = "codec_error + 'a"
type_synonym digest32 = bytes

datatype chunk_kind = RootChunk | NodeChunk | LeafChunk

definition chunk_kind_byte :: "chunk_kind \<Rightarrow> byte" where
  "chunk_kind_byte k = (case k of RootChunk \<Rightarrow> 1 | NodeChunk \<Rightarrow> 2 | LeafChunk \<Rightarrow> 3)"

definition chunk_kind_parse :: "byte \<Rightarrow> chunk_kind codec_result" where
  "chunk_kind_parse v =
     (if v = 1 then Inr RootChunk else if v = 2 then Inr NodeChunk
      else if v = 3 then Inr LeafChunk else Inl (Invalid ''unknown chunk kind''))"

definition maximum_stored_len :: "chunk_kind \<Rightarrow> nat" where
  "maximum_stored_len k =
     (case k of RootChunk \<Rightarrow> MAX_ROOT_BYTES
      | NodeChunk \<Rightarrow> MAX_MANIFEST_CHUNK_BYTES | LeafChunk \<Rightarrow> MAX_MANIFEST_CHUNK_BYTES)"

record manifest_ref =
  ref_kind :: chunk_kind
  ref_id :: digest32

definition manifest_ref_new :: "chunk_kind \<Rightarrow> digest32 \<Rightarrow> manifest_ref codec_result" where
  "manifest_ref_new k i =
     (if k = NodeChunk \<or> k = LeafChunk then Inr \<lparr>ref_kind = k, ref_id = i\<rparr>
      else Inl (Invalid ''manifest reference must point to a node or leaf''))"

record timestamp =
  unix_seconds :: i64
  nanoseconds :: u32

definition timestamp_new :: "i64 \<Rightarrow> u32 \<Rightarrow> timestamp codec_result" where
  "timestamp_new s n =
     (if 1000000000 \<le> n then Inl (Invalid ''timestamp nanoseconds out of range'')
      else Inr \<lparr>unix_seconds = s, nanoseconds = n\<rparr>)"

record manifest_summary =
  entry_count :: u64
  logical_size_bytes :: u64
  total_exact_path_bytes :: u64

definition summary_default :: manifest_summary where
  "summary_default = \<lparr>entry_count = 0, logical_size_bytes = 0, total_exact_path_bytes = 0\<rparr>"

definition summary_checked_add ::
    "manifest_summary \<Rightarrow> manifest_summary \<Rightarrow> manifest_summary codec_result" where
  "summary_checked_add a b =
     res_bind (ok_or (Overflow ''manifest entry count'')
                 (checked_add (entry_count a) (entry_count b))) (\<lambda>c.
     res_bind (ok_or (Overflow ''manifest logical size'')
                 (checked_add (logical_size_bytes a) (logical_size_bytes b))) (\<lambda>l.
     res_bind (ok_or (Overflow ''manifest exact path bytes'')
                 (checked_add (total_exact_path_bytes a) (total_exact_path_bytes b))) (\<lambda>p.
     Inr \<lparr>entry_count = c, logical_size_bytes = l, total_exact_path_bytes = p\<rparr>)))"

record snapshot_root =
  root_project_id :: bytes
  root_parent :: "digest32 option"
  root_created :: timestamp
  root_checkpoint_name :: str
  root_tool_version :: str
  root_manifest :: "manifest_ref option"
  root_summary :: manifest_summary

record leaf_entry =
  exact_path :: str
  size_bytes :: u64
  modified :: timestamp
  entry_object_id :: digest32

record manifest_leaf =
  leaf_prefix :: bytes
  leaf_entries :: "leaf_entry list"

definition entry_summary :: "leaf_entry \<Rightarrow> manifest_summary codec_result" where
  "entry_summary e =
     res_bind (if length (exact_path e) < 2 ^ 64 then Inr (word_of_nat (length (exact_path e)))
               else Inl (Overflow ''exact path byte count'')) (\<lambda>p.
     Inr \<lparr>entry_count = 1, logical_size_bytes = size_bytes e, total_exact_path_bytes = p\<rparr>)"

definition leaf_summary :: "manifest_leaf \<Rightarrow> manifest_summary codec_result" where
  "leaf_summary l =
     try_fold (\<lambda>s e. res_bind (entry_summary e) (summary_checked_add s))
       summary_default (leaf_entries l)"

record manifest_child =
  child_edge :: byte
  child_ref :: manifest_ref
  child_summary :: manifest_summary

record manifest_node =
  node_prefix :: bytes
  node_children :: "manifest_child list"

definition node_summary :: "manifest_node \<Rightarrow> manifest_summary codec_result" where
  "node_summary n =
     try_fold (\<lambda>s c. summary_checked_add s (child_summary c)) summary_default (node_children n)"

section \<open>Hashes\<close>

definition domain_hash :: "(bytes \<Rightarrow> bytes) \<Rightarrow> bytes \<Rightarrow> bytes \<Rightarrow> digest32" where
  "domain_hash blake3 domain bs = blake3 (domain @ bs)"

definition root_id :: "(bytes \<Rightarrow> bytes) \<Rightarrow> bytes \<Rightarrow> digest32" where
  "root_id blake3 stored = domain_hash blake3 ROOT_HASH_DOMAIN stored"

definition verify_root_id :: "(bytes \<Rightarrow> bytes) \<Rightarrow> digest32 \<Rightarrow> bytes \<Rightarrow> unit codec_result" where
  "verify_root_id blake3 expected stored =
     (if root_id blake3 stored \<noteq> expected then Inl (Invalid ''snapshot root digest mismatch'')
      else Inr ())"

definition manifest_id :: "(bytes \<Rightarrow> bytes) \<Rightarrow> chunk_kind \<Rightarrow> bytes \<Rightarrow> digest32 codec_result" where
  "manifest_id blake3 k stored =
     (case k of
        NodeChunk \<Rightarrow> Inr (domain_hash blake3 NODE_HASH_DOMAIN stored)
      | LeafChunk \<Rightarrow> Inr (domain_hash blake3 LEAF_HASH_DOMAIN stored)
      | RootChunk \<Rightarrow> Inl (Invalid ''root cannot be used as a manifest chunk''))"

definition verify_manifest_id ::
    "(bytes \<Rightarrow> bytes) \<Rightarrow> manifest_ref \<Rightarrow> bytes \<Rightarrow> unit codec_result" where
  "verify_manifest_id blake3 r stored =
     res_bind (manifest_id blake3 (ref_kind r) stored) (\<lambda>actual.
       if actual \<noteq> ref_id r then Inl (Invalid ''manifest digest mismatch'') else Inr ())"

section \<open>Limits\<close>

definition validate_bytes :: "string \<Rightarrow> bytes \<Rightarrow> nat \<Rightarrow> unit codec_result" where
  "validate_bytes field value limit =
     (if limit < length value then Inl (Limit field (length value) limit) else Inr ())"

definition validate_text :: "string \<Rightarrow> str \<Rightarrow> nat \<Rightarrow> unit codec_result" where
  "validate_text field value limit = validate_bytes field value limit"

definition validate_count :: "string \<Rightarrow> nat \<Rightarrow> nat \<Rightarrow> unit codec_result" where
  "validate_count field value limit =
     (if limit < value then Inl (Limit field value limit) else Inr ())"

definition usize_to_u32 :: "string \<Rightarrow> nat \<Rightarrow> u32 codec_result" where
  "usize_to_u32 field value =
     (if value < 2 ^ 32 then Inr (word_of_nat value) else Inl (Limit field value (2 ^ 32 - 1)))"

definition require_schema :: "u16 \<Rightarrow> unit codec_result" where
  "require_schema found =
     (if found \<noteq> PAYLOAD_SCHEMA then Inl (Invalid ''unsupported payload schema'') else Inr ())"

definition require_policy :: "string \<Rightarrow> u16 \<Rightarrow> u16 \<Rightarrow> unit codec_result" where
  "require_policy label found expected =
     (if found \<noteq> expected then Inl (Invalid (''unsupported '' @ label @ '' policy''))
      else Inr ())"

section \<open>Envelope\<close>

definition envelope :: "chunk_kind \<Rightarrow> bytes \<Rightarrow> bytes codec_result" where
  "envelope k payload =
     res_bind (ok_or (Overflow ''stored chunk length'')
                 (usize_checked_add ENVELOPE_LEN (length payload))) (\<lambda>stored_len.
     if maximum_stored_len k < stored_len
     then Inl (Limit ''stored chunk bytes'' stored_len (maximum_stored_len k))
     else res_bind (usize_to_u32 ''payload length'' (length payload)) (\<lambda>payload_len.
       Inr (MAGIC @ [chunk_kind_byte k, CODEC_VERSION] @ word_be (0 :: u16)
            @ word_be payload_len @ payload)))"

definition decode_envelope :: "bytes \<Rightarrow> chunk_kind \<Rightarrow> bytes codec_result" where
  "decode_envelope stored expected_kind =
     (if maximum_stored_len expected_kind < length stored
      then Inl (Limit ''stored chunk bytes'' (length stored) (maximum_stored_len expected_kind))
      else if length stored < ENVELOPE_LEN then Inl (Invalid ''truncated envelope'')
      else if take 8 stored \<noteq> MAGIC then Inl (Invalid ''invalid envelope magic'')
      else res_bind (chunk_kind_parse (stored ! 8)) (\<lambda>found_kind.
        if found_kind \<noteq> expected_kind then Inl (Invalid ''wrong chunk kind'')
        else if stored ! 9 \<noteq> CODEC_VERSION then Inl (Invalid ''unsupported codec version'')
        else if be_word [stored ! 10, stored ! 11] \<noteq> (0 :: u16)
        then Inl (Invalid ''unsupported envelope flags'')
        else if unat (be_word (take 4 (drop 12 stored)) :: u32) \<noteq> length stored - ENVELOPE_LEN
        then Inl (Invalid ''payload length mismatch'')
        else Inr (drop ENVELOPE_LEN stored)))"

section \<open>Writer\<close>

definition wr_bytes :: "bytes \<Rightarrow> bytes codec_result" where
  "wr_bytes value =
     res_bind (usize_to_u32 ''byte string length'' (length value))
       (\<lambda>n. Inr (word_be n @ value))"

definition wr_string :: "str \<Rightarrow> bytes codec_result" where
  "wr_string value = wr_bytes value"

definition wr_summary :: "manifest_summary \<Rightarrow> bytes" where
  "wr_summary s =
     word_be (entry_count s) @ word_be (logical_size_bytes s) @ word_be (total_exact_path_bytes s)"

definition manifest_kind_byte :: "manifest_ref \<Rightarrow> byte codec_result" where
  "manifest_kind_byte r =
     (case ref_kind r of
        NodeChunk \<Rightarrow> Inr 2
      | LeafChunk \<Rightarrow> Inr 3
      | RootChunk \<Rightarrow> Inl (Invalid ''manifest child cannot reference a root''))"

definition write_optional_manifest_ref :: "manifest_ref option \<Rightarrow> bytes codec_result" where
  "write_optional_manifest_ref r =
     (case r of
        None \<Rightarrow> Inr [0]
      | Some r \<Rightarrow> res_bind (manifest_kind_byte r) (\<lambda>b. Inr (b # ref_id r)))"

section \<open>Reader\<close>

type_synonym 'a reader = "bytes \<Rightarrow> ('a \<times> bytes) codec_result"

definition rd_take :: "nat \<Rightarrow> bytes reader" where
  "rd_take n r =
     (if length r < n then Inl (Invalid ''truncated payload'') else Inr (take n r, drop n r))"

definition rd_u8 :: "byte reader" where
  "rd_u8 r = res_bind (rd_take 1 r) (\<lambda>(b, r). Inr (b ! 0, r))"

definition rd_u16 :: "u16 reader" where
  "rd_u16 r = res_bind (rd_take 2 r) (\<lambda>(b, r). Inr (be_word b, r))"

definition rd_u32 :: "u32 reader" where
  "rd_u32 r = res_bind (rd_take 4 r) (\<lambda>(b, r). Inr (be_word b, r))"

definition rd_u64 :: "u64 reader" where
  "rd_u64 r = res_bind (rd_take 8 r) (\<lambda>(b, r). Inr (be_word b, r))"

definition rd_i64 :: "i64 reader" where
  "rd_i64 r = res_bind (rd_take 8 r) (\<lambda>(b, r). Inr (be_word b, r))"

definition rd_digest :: "digest32 reader" where
  "rd_digest r = rd_take 32 r"

definition rd_bytes :: "string \<Rightarrow> nat \<Rightarrow> bytes reader" where
  "rd_bytes field limit r =
     res_bind (rd_u32 r) (\<lambda>(n, r).
       if limit < unat n then Inl (Limit field (unat n) limit) else rd_take (unat n) r)"

definition rd_string :: "string \<Rightarrow> nat \<Rightarrow> str reader" where
  "rd_string field limit r =
     res_bind (rd_bytes field limit r) (\<lambda>(v, r).
       if utf8_valid v then Inr (v, r) else Inl (Invalid (field @ '' is not valid UTF-8'')))"

definition rd_count :: "string \<Rightarrow> nat \<Rightarrow> nat reader" where
  "rd_count field limit r =
     res_bind (rd_u32 r) (\<lambda>(n, r).
       res_bind (validate_count field (unat n) limit) (\<lambda>_. Inr (unat n, r)))"

definition rd_summary :: "manifest_summary reader" where
  "rd_summary r =
     res_bind (rd_u64 r) (\<lambda>(c, r).
     res_bind (rd_u64 r) (\<lambda>(l, r).
     res_bind (rd_u64 r) (\<lambda>(p, r).
     Inr (\<lparr>entry_count = c, logical_size_bytes = l, total_exact_path_bytes = p\<rparr>, r))))"

definition rd_finish :: "bytes \<Rightarrow> unit codec_result" where
  "rd_finish r = (if r \<noteq> [] then Inl (Invalid ''trailing payload bytes'') else Inr ())"

text \<open>The loop \<open>for _ in 0..count\<close> that pushes one value per round.\<close>

fun rd_many :: "'a reader \<Rightarrow> nat \<Rightarrow> 'a list reader" where
  "rd_many rd 0 r = Inr ([], r)"
| "rd_many rd (Suc n) r =
     res_bind (rd r) (\<lambda>(v, r).
     res_bind (rd_many rd n r) (\<lambda>(vs, r). Inr (v # vs, r)))"

definition read_manifest_kind :: "byte \<Rightarrow> chunk_kind codec_result" where
  "read_manifest_kind v =
     (if v = 2 then Inr NodeChunk else if v = 3 then Inr LeafChunk
      else Inl (Invalid ''unknown manifest chunk kind''))"

definition read_optional_manifest_ref :: "manifest_ref option reader" where
  "read_optional_manifest_ref r =
     res_bind (rd_u8 r) (\<lambda>(v, r).
       if v = 0 then Inr (None, r)
       else res_bind (read_manifest_kind v) (\<lambda>k.
            res_bind (rd_digest r) (\<lambda>(i, r).
            Inr (Some \<lparr>ref_kind = k, ref_id = i\<rparr>, r))))"

section \<open>Roots\<close>

definition validate_root :: "snapshot_root \<Rightarrow> unit codec_result" where
  "validate_root root =
     res_bind (validate_text ''checkpoint name'' (root_checkpoint_name root)
                 MAX_CHECKPOINT_NAME_BYTES) (\<lambda>_.
     if str_trim (root_checkpoint_name root) = []
        \<or> str_trim (root_checkpoint_name root) \<noteq> root_checkpoint_name root
     then Inl (Invalid ''checkpoint name must be non-empty and trimmed'')
     else
     res_bind (validate_text ''tool version'' (root_tool_version root) MAX_TOOL_VERSION_BYTES)
       (\<lambda>_.
     res_bind (timestamp_new (unix_seconds (root_created root)) (nanoseconds (root_created root)))
       (\<lambda>_.
     if root_manifest root = None \<and> root_summary root \<noteq> summary_default
     then Inl (Invalid ''empty manifest must have an empty summary'')
     else Inr ())))"

definition wr_parent :: "digest32 option \<Rightarrow> bytes" where
  "wr_parent p = (case p of None \<Rightarrow> [0] | Some d \<Rightarrow> 1 # d)"

definition encode_root :: "snapshot_root \<Rightarrow> bytes codec_result" where
  "encode_root root =
     res_bind (validate_root root) (\<lambda>_.
     res_bind (wr_string (root_checkpoint_name root)) (\<lambda>name.
     res_bind (wr_string (root_tool_version root)) (\<lambda>tool.
     res_bind (write_optional_manifest_ref (root_manifest root)) (\<lambda>manifest.
     envelope RootChunk
       (word_be PAYLOAD_SCHEMA @ root_project_id root @ wr_parent (root_parent root)
        @ word_be (unix_seconds (root_created root)) @ word_be (nanoseconds (root_created root))
        @ name @ tool
        @ word_be TRACKED_SCOPE_POLICY @ word_be PATH_KEY_POLICY @ word_be CONTENT_POLICY
        @ manifest @ wr_summary (root_summary root))))))"

definition rd_parent :: "digest32 option reader" where
  "rd_parent r =
     res_bind (rd_u8 r) (\<lambda>(v, r).
       if v = 0 then Inr (None, r)
       else if v = 1 then res_bind (rd_digest r) (\<lambda>(d, r). Inr (Some d, r))
       else Inl (Invalid ''unknown root parent kind''))"

definition rd_timestamp :: "timestamp reader" where
  "rd_timestamp r =
     res_bind (rd_i64 r) (\<lambda>(s, r).
     res_bind (rd_u32 r) (\<lambda>(n, r).
     res_bind (timestamp_new s n) (\<lambda>t. Inr (t, r))))"

definition decode_root :: "bytes \<Rightarrow> snapshot_root codec_result" where
  "decode_root stored =
     res_bind (decode_envelope stored RootChunk) (\<lambda>r.
     res_bind (rd_u16 r) (\<lambda>(schema, r).
     res_bind (require_schema schema) (\<lambda>_.
     res_bind (rd_take 16 r) (\<lambda>(project, r).
     res_bind (rd_parent r) (\<lambda>(parent, r).
     res_bind (rd_timestamp r) (\<lambda>(created, r).
     res_bind (rd_string ''checkpoint name'' MAX_CHECKPOINT_NAME_BYTES r) (\<lambda>(name, r).
     res_bind (rd_string ''tool version'' MAX_TOOL_VERSION_BYTES r) (\<lambda>(tool, r).
     res_bind (rd_u16 r) (\<lambda>(p1, r).
     res_bind (require_policy ''tracked scope'' p1 TRACKED_SCOPE_POLICY) (\<lambda>_.
     res_bind (rd_u16 r) (\<lambda>(p2, r).
     res_bind (require_policy ''path key'' p2 PATH_KEY_POLICY) (\<lambda>_.
     res_bind (rd_u16 r) (\<lambda>(p3, r).
     res_bind (require_policy ''content'' p3 CONTENT_POLICY) (\<lambda>_.
     res_bind (read_optional_manifest_ref r) (\<lambda>(manifest, r).
     res_bind (rd_summary r) (\<lambda>(summary, r).
     res_bind (rd_finish r) (\<lambda>_.
     if manifest = None \<and> summary \<noteq> summary_default
     then Inl (Invalid ''empty manifest has a non-empty summary'')
     else
       let root = \<lparr>root_project_id = project, root_parent = parent, root_created = created,
                   root_checkpoint_name = name, root_tool_version = tool,
                   root_manifest = manifest, root_summary = summary\<rparr> in
       res_bind (validate_root root) (\<lambda>_. Inr root))))))))))))))))))"

section \<open>Leaves\<close>

definition encode_leaf_entry :: "leaf_entry \<Rightarrow> bytes codec_result" where
  "encode_leaf_entry e =
     res_bind (validate_text ''exact path'' (exact_path e) MAX_EXACT_PATH_BYTES) (\<lambda>_.
     res_bind (timestamp_new (unix_seconds (modified e)) (nanoseconds (modified e))) (\<lambda>_.
     res_bind (wr_string (exact_path e)) (\<lambda>path.
     Inr (path @ word_be (size_bytes e) @ word_be (unix_seconds (modified e))
          @ word_be (nanoseconds (modified e)) @ entry_object_id e))))"

definition encode_leaf :: "manifest_leaf \<Rightarrow> bytes codec_result" where
  "encode_leaf l =
     res_bind (validate_bytes ''portable prefix'' (leaf_prefix l) MAX_PREFIX_BYTES) (\<lambda>_.
     res_bind (validate_count ''leaf entry count'' (length (leaf_entries l)) MAX_LEAF_ENTRIES)
       (\<lambda>_.
     res_bind (leaf_summary l) (\<lambda>summary.
     res_bind (wr_bytes (leaf_prefix l)) (\<lambda>prefix.
     res_bind (usize_to_u32 ''leaf entry count'' (length (leaf_entries l))) (\<lambda>n.
     res_bind (try_map encode_leaf_entry (leaf_entries l)) (\<lambda>es.
     envelope LeafChunk
       (word_be PAYLOAD_SCHEMA @ prefix @ word_be n @ wr_summary summary @ concat es)))))))"

definition rd_leaf_entry :: "leaf_entry reader" where
  "rd_leaf_entry r =
     res_bind (rd_string ''exact path'' MAX_EXACT_PATH_BYTES r) (\<lambda>(path, r).
     res_bind (rd_u64 r) (\<lambda>(size, r).
     res_bind (rd_timestamp r) (\<lambda>(t, r).
     res_bind (rd_digest r) (\<lambda>(d, r).
     Inr (\<lparr>exact_path = path, size_bytes = size, modified = t, entry_object_id = d\<rparr>, r)))))"

definition decode_leaf :: "bytes \<Rightarrow> manifest_leaf codec_result" where
  "decode_leaf stored =
     res_bind (decode_envelope stored LeafChunk) (\<lambda>r.
     res_bind (rd_u16 r) (\<lambda>(schema, r).
     res_bind (require_schema schema) (\<lambda>_.
     res_bind (rd_bytes ''portable prefix'' MAX_PREFIX_BYTES r) (\<lambda>(prefix, r).
     res_bind (rd_count ''leaf entry count'' MAX_LEAF_ENTRIES r) (\<lambda>(n, r).
     res_bind (rd_summary r) (\<lambda>(stored_summary, r).
     res_bind (rd_many rd_leaf_entry n r) (\<lambda>(es, r).
     res_bind (rd_finish r) (\<lambda>_.
     let leaf = \<lparr>leaf_prefix = prefix, leaf_entries = es\<rparr> in
     res_bind (leaf_summary leaf) (\<lambda>summary.
     if summary \<noteq> stored_summary
     then Inl (Invalid ''leaf summary does not match entries'')
     else Inr leaf)))))))))"

section \<open>Nodes\<close>

definition encode_node_child :: "manifest_child \<Rightarrow> bytes codec_result" where
  "encode_node_child c =
     res_bind (manifest_kind_byte (child_ref c)) (\<lambda>k.
     Inr (child_edge c # k # ref_id (child_ref c) @ wr_summary (child_summary c)))"

definition encode_node :: "manifest_node \<Rightarrow> bytes codec_result" where
  "encode_node n =
     res_bind (validate_bytes ''portable prefix'' (node_prefix n) MAX_PREFIX_BYTES) (\<lambda>_.
     res_bind (validate_count ''node child count'' (length (node_children n)) MAX_NODE_CHILDREN)
       (\<lambda>_.
     res_bind (node_summary n) (\<lambda>summary.
     res_bind (wr_bytes (node_prefix n)) (\<lambda>prefix.
     res_bind (usize_to_u32 ''node child count'' (length (node_children n))) (\<lambda>k.
     res_bind (try_map encode_node_child (node_children n)) (\<lambda>cs.
     envelope NodeChunk
       (word_be PAYLOAD_SCHEMA @ prefix @ word_be k @ wr_summary summary @ concat cs)))))))"

definition rd_node_child :: "manifest_child reader" where
  "rd_node_child r =
     res_bind (rd_u8 r) (\<lambda>(edge, r).
     res_bind (rd_u8 r) (\<lambda>(kb, r).
     res_bind (read_manifest_kind kb) (\<lambda>k.
     res_bind (rd_digest r) (\<lambda>(i, r).
     res_bind (rd_summary r) (\<lambda>(s, r).
     Inr (\<lparr>child_edge = edge, child_ref = \<lparr>ref_kind = k, ref_id = i\<rparr>, child_summary = s\<rparr>,
          r))))))"

definition decode_node :: "bytes \<Rightarrow> manifest_node codec_result" where
  "decode_node stored =
     res_bind (decode_envelope stored NodeChunk) (\<lambda>r.
     res_bind (rd_u16 r) (\<lambda>(schema, r).
     res_bind (require_schema schema) (\<lambda>_.
     res_bind (rd_bytes ''portable prefix'' MAX_PREFIX_BYTES r) (\<lambda>(prefix, r).
     res_bind (rd_count ''node child count'' MAX_NODE_CHILDREN r) (\<lambda>(n, r).
     res_bind (rd_summary r) (\<lambda>(stored_summary, r).
     res_bind (rd_many rd_node_child n r) (\<lambda>(cs, r).
     res_bind (rd_finish r) (\<lambda>_.
     let node = \<lparr>node_prefix = prefix, node_children = cs\<rparr> in
     res_bind (node_summary node) (\<lambda>summary.
     if summary \<noteq> stored_summary
     then Inl (Invalid ''node summary does not match children'')
     else Inr node)))))))))"

section \<open>What the Rust types guarantee\<close>

definition digest_typed :: "digest32 \<Rightarrow> bool" where
  "digest_typed d \<longleftrightarrow> length d = 32"

definition root_typed :: "snapshot_root \<Rightarrow> bool" where
  "root_typed root \<longleftrightarrow>
     length (root_project_id root) = 16
   \<and> (\<forall>d \<in> set_option (root_parent root). digest_typed d)
   \<and> (\<forall>r \<in> set_option (root_manifest root). digest_typed (ref_id r))
   \<and> utf8_valid (root_checkpoint_name root) \<and> utf8_valid (root_tool_version root)"

definition entry_typed :: "leaf_entry \<Rightarrow> bool" where
  "entry_typed e \<longleftrightarrow> utf8_valid (exact_path e) \<and> digest_typed (entry_object_id e)"

definition leaf_typed :: "manifest_leaf \<Rightarrow> bool" where
  "leaf_typed l \<longleftrightarrow> (\<forall>e \<in> set (leaf_entries l). entry_typed e)"

definition node_typed :: "manifest_node \<Rightarrow> bool" where
  "node_typed n \<longleftrightarrow> (\<forall>c \<in> set (node_children n). digest_typed (ref_id (child_ref c)))"

section \<open>Reading back what was written\<close>

text \<open>
  The contract between a writer and its reader: the reader returns a value exactly on the
  bytes the writer produces for it, and leaves the rest. What follows from it for a loop
  that reads a counted sequence, and that no encoding is a proper prefix of another.
\<close>

locale codec =
  fixes wr :: "'a \<Rightarrow> bytes codec_result"
    and rd :: "'a reader"
    and typed :: "'a \<Rightarrow> bool"
  assumes rd_iff: "rd bs = Inr (v, r) \<longleftrightarrow> typed v \<and> (\<exists>w. wr v = Inr w \<and> bs = w @ r)"
begin

lemma many_iff:
  "rd_many rd n bs = Inr (vs, r) \<longleftrightarrow>
     length vs = n \<and> (\<forall>v \<in> set vs. typed v) \<and> (\<exists>ws. try_map wr vs = Inr ws \<and> bs = concat ws @ r)"
proof (induction n arbitrary: bs vs)
  case 0
  show ?case by (cases vs) (auto simp: res_simps)
next
  case (Suc n)
  show ?case
  proof (cases vs)
    case (Cons u us)
    have "rd_many rd (Suc n) bs = Inr (vs, r) \<longleftrightarrow>
       (\<exists>b. rd bs = Inr (u, b) \<and> rd_many rd n b = Inr (us, r))"
      by (auto simp: res_bind_Inr_iff Cons split: prod.splits)
    also have "\<dots> \<longleftrightarrow> typed u \<and> length us = n \<and> (\<forall>v \<in> set us. typed v)
       \<and> (\<exists>w ws. wr u = Inr w \<and> try_map wr us = Inr ws \<and> bs = w @ concat ws @ r)"
      unfolding rd_iff Suc.IH by auto
    also have "\<dots> \<longleftrightarrow> length vs = Suc n \<and> (\<forall>v \<in> set vs. typed v)
       \<and> (\<exists>ws. try_map wr vs = Inr ws \<and> bs = concat ws @ r)"
      unfolding Cons try_map.simps res_bind_Inr_iff by force
    finally show ?thesis .
  qed (auto simp: res_bind_Inr_iff split: prod.splits)
qed

lemma many_forward:
  "try_map wr vs = Inr ws \<Longrightarrow> \<forall>v \<in> set vs. typed v \<Longrightarrow>
   rd_many rd (length vs) (concat ws) = Inr (vs, [])"
  by (simp add: many_iff)

lemma prefix_free:
  assumes "typed v" "typed u" "wr v = Inr a" "wr u = Inr b" "a @ r = b @ s"
  shows "v = u \<and> r = s"
proof -
  have "rd (a @ r) = Inr (v, r)" using assms rd_iff by blast
  moreover have "rd (a @ r) = Inr (u, s)" using assms rd_iff by metis
  ultimately show ?thesis by simp
qed

end

text \<open>The primitive readers.\<close>

lemma res_bind_pair_iff:
  "res_bind m (\<lambda>(a, b). f a b) = Inr c \<longleftrightarrow> (\<exists>a b. m = Inr (a, b) \<and> f a b = Inr c)"
  by (auto simp: res_bind_Inr_iff)

lemma res_bind_pairE:
  "res_bind m (\<lambda>(a, b). f a b) = Inr c \<Longrightarrow> (\<And>a b. m = Inr (a, b) \<Longrightarrow> f a b = Inr c \<Longrightarrow> P) \<Longrightarrow> P"
  by (auto simp: res_bind_Inr_iff)

lemma res_bind_InrE:
  "res_bind m f = Inr b \<Longrightarrow> (\<And>a. m = Inr a \<Longrightarrow> f a = Inr b \<Longrightarrow> P) \<Longrightarrow> P"
  by (auto simp: res_bind_Inr_iff)

lemma rd_take_iff [codec_read]: "rd_take n bs = Inr (v, r) \<longleftrightarrow> length v = n \<and> bs = v @ r"
  by (auto simp: rd_take_def)

lemma rd_u8_iff [codec_read]: "rd_u8 bs = Inr (v, r) \<longleftrightarrow> bs = v # r"
  by (auto simp: rd_u8_def res_bind_pair_iff rd_take_iff length_Suc_conv)

lemma word_be_eq_iff:
  "length b * 8 = LENGTH('a) \<Longrightarrow> (be_word b = (v :: 'a::len word)) = (b = word_be v)"
  by (metis be_word_word_be mod_mult_self2_is_0 word_be_be_word)

lemma rd_word_iff:
  assumes "n * 8 = LENGTH('a)"
  shows "res_bind (rd_take n bs) (\<lambda>(b, r). Inr (be_word b, r)) = Inr (v :: 'a::len word, r)
           \<longleftrightarrow> bs = word_be v @ r"
proof
  have m: "LENGTH('a) mod 8 = 0" using assms by presburger
  assume "bs = word_be v @ r"
  moreover have "length (word_be v) = n" using assms by simp
  ultimately show "res_bind (rd_take n bs) (\<lambda>(b, r). Inr (be_word b, r)) = Inr (v, r)"
    using assms be_word_word_be [of v] by (simp add: rd_take_def m)
next
  assume "res_bind (rd_take n bs) (\<lambda>(b, r). Inr (be_word b, r)) = Inr (v, r)"
  then obtain b where "length b = n" "bs = b @ r" "be_word b = v"
    by (auto simp: res_bind_pair_iff rd_take_iff)
  with assms show "bs = word_be v @ r" using word_be_eq_iff [of b v] by simp
qed

lemma rd_u16_iff [codec_read]: "rd_u16 bs = Inr (v, r) \<longleftrightarrow> bs = word_be v @ r"
  unfolding rd_u16_def by (rule rd_word_iff) simp

lemma rd_u32_iff [codec_read]: "rd_u32 bs = Inr (v, r) \<longleftrightarrow> bs = word_be v @ r"
  unfolding rd_u32_def by (rule rd_word_iff) simp

lemma rd_u64_iff [codec_read]: "rd_u64 bs = Inr (v, r) \<longleftrightarrow> bs = word_be v @ r"
  unfolding rd_u64_def by (rule rd_word_iff) simp

lemma rd_i64_iff [codec_read]: "rd_i64 bs = Inr (v, r) \<longleftrightarrow> bs = word_be v @ r"
  unfolding rd_i64_def by (rule rd_word_iff) simp

lemma rd_digest_iff [codec_read]: "rd_digest bs = Inr (v, r) \<longleftrightarrow> digest_typed v \<and> bs = v @ r"
  by (auto simp: rd_digest_def rd_take_iff digest_typed_def)

lemma usize_to_u32_iff: "usize_to_u32 f n = Inr w \<longleftrightarrow> unat w = n"
proof
  assume "unat w = n"
  moreover have "unat w < 2 ^ 32" using unsigned_less [of w] by simp
  ultimately show "usize_to_u32 f n = Inr w" by (auto simp: usize_to_u32_def)
qed (auto simp: usize_to_u32_def unat_of_nat take_bit_nat_eq_self split: if_splits)

lemma wr_bytes_iff: "wr_bytes v = Inr w \<longleftrightarrow> (\<exists>n. unat n = length v \<and> w = word_be (n :: u32) @ v)"
  by (auto simp: wr_bytes_def res_bind_Inr_iff usize_to_u32_iff)

lemma rd_bytes_iff [codec_read]:
  "rd_bytes f lim bs = Inr (v, r) \<longleftrightarrow> length v \<le> lim \<and> (\<exists>w. wr_bytes v = Inr w \<and> bs = w @ r)"
proof -
  have "rd_bytes f lim bs = Inr (v, r) \<longleftrightarrow>
      (\<exists>n b. bs = word_be (n :: u32) @ b \<and> unat n \<le> lim \<and> length v = unat n \<and> b = v @ r)"
    by (simp add: rd_bytes_def res_bind_pair_iff rd_u32_iff rd_take_iff if_Inl_eq_Inr not_less)
  also have "\<dots> \<longleftrightarrow> length v \<le> lim \<and> (\<exists>w. wr_bytes v = Inr w \<and> bs = w @ r)"
    unfolding wr_bytes_iff by force
  finally show ?thesis .
qed

lemma rd_string_iff [codec_read]:
  "rd_string f lim bs = Inr (v, r) \<longleftrightarrow>
     utf8_valid v \<and> length v \<le> lim \<and> (\<exists>w. wr_string v = Inr w \<and> bs = w @ r)"
  by (auto simp: rd_string_def res_bind_pair_iff rd_bytes_iff wr_string_def)

lemma validate_count_iff: "validate_count f n lim = Inr u \<longleftrightarrow> n \<le> lim"
  by (auto simp: validate_count_def)

lemma validate_bytes_iff: "validate_bytes f v lim = Inr u \<longleftrightarrow> length v \<le> lim"
  by (auto simp: validate_bytes_def)

lemma validate_text_iff: "validate_text f v lim = Inr u \<longleftrightarrow> length v \<le> lim"
  by (simp add: validate_text_def validate_bytes_iff)

lemma rd_count_iff [codec_read]:
  "rd_count f lim bs = Inr (n, r) \<longleftrightarrow> n \<le> lim \<and> (\<exists>w. usize_to_u32 f n = Inr w \<and> bs = word_be w @ r)"
  by (auto simp: rd_count_def res_bind_pair_iff rd_u32_iff validate_count_iff usize_to_u32_iff
      res_bind_Inr_iff)

lemma rd_summary_iff [codec_read]: "rd_summary bs = Inr (s, r) \<longleftrightarrow> bs = wr_summary s @ r"
  by (cases s) (auto simp: rd_summary_def res_bind_pair_iff rd_u64_iff wr_summary_def)

lemma rd_finish_iff [codec_read]: "rd_finish r = Inr u \<longleftrightarrow> r = []"
  by (auto simp: rd_finish_def)

lemma timestamp_new_iff:
  "timestamp_new s n = Inr t \<longleftrightarrow> n < 1000000000 \<and> t = \<lparr>unix_seconds = s, nanoseconds = n\<rparr>"
  by (auto simp: timestamp_new_def)

lemma rd_timestamp_iff [codec_read]:
  "rd_timestamp bs = Inr (t, r) \<longleftrightarrow>
     nanoseconds t < 1000000000 \<and> bs = word_be (unix_seconds t) @ word_be (nanoseconds t) @ r"
  by (cases t) (auto simp: rd_timestamp_def res_bind_pair_iff rd_i64_iff rd_u32_iff
      timestamp_new_iff res_bind_Inr_iff)

lemma rd_parent_iff [codec_read]:
  "rd_parent bs = Inr (p, r) \<longleftrightarrow> (\<forall>d \<in> set_option p. digest_typed d) \<and> bs = wr_parent p @ r"
proof (cases p)
  case None
  then show ?thesis
    by (cases bs) (auto simp: rd_parent_def rd_u8_def rd_take_def wr_parent_def res_bind_pair_iff
      split: if_splits)
next
  case (Some d)
  then show ?thesis
    by (cases bs) (auto simp: rd_parent_def rd_u8_def rd_take_def wr_parent_def res_bind_pair_iff
      rd_digest_iff split: if_splits)
qed

lemma require_schema_iff: "require_schema v = Inr u \<longleftrightarrow> v = PAYLOAD_SCHEMA"
  by (auto simp: require_schema_def)

lemma require_policy_iff: "require_policy l v e = Inr u \<longleftrightarrow> v = e"
  by (auto simp: require_policy_def)

lemma kind_byte_iff:
  "read_manifest_kind b = Inr k \<longleftrightarrow> manifest_kind_byte \<lparr>ref_kind = k, ref_id = d\<rparr> = Inr b"
  by (cases k) (auto simp: read_manifest_kind_def manifest_kind_byte_def)

lemma kind_byte_nonzero: "manifest_kind_byte m = Inr b \<Longrightarrow> b \<noteq> 0"
  by (auto simp: manifest_kind_byte_def split: chunk_kind.splits)

lemma read_optional_manifest_ref_iff:
  "read_optional_manifest_ref bs = Inr (m, r) \<longleftrightarrow>
     (\<forall>d \<in> set_option m. digest_typed (ref_id d))
   \<and> (\<exists>w. write_optional_manifest_ref m = Inr w \<and> bs = w @ r)"
proof (cases m)
  case None
  then show ?thesis
    by (auto simp: read_optional_manifest_ref_def res_bind_pair_iff rd_u8_iff
        write_optional_manifest_ref_def res_bind_Inr_iff split: if_splits)
next
  case (Some a)
  obtain k d where a: "a = \<lparr>ref_kind = k, ref_id = d\<rparr>" by (cases a) auto
  show ?thesis
    unfolding Some a
    by (auto simp: read_optional_manifest_ref_def res_bind_pair_iff rd_u8_iff rd_digest_iff
        write_optional_manifest_ref_def res_bind_Inr_iff kind_byte_iff [where d = d]
        dest: kind_byte_nonzero split: if_splits)
qed

interpretation optional_ref_codec: codec write_optional_manifest_ref read_optional_manifest_ref
  "\<lambda>m. \<forall>d \<in> set_option m. digest_typed (ref_id d)"
  by unfold_locales (rule read_optional_manifest_ref_iff)

interpretation leaf_entry_codec: codec encode_leaf_entry rd_leaf_entry entry_typed
proof unfold_locales
  fix bs r and e :: leaf_entry
  obtain p s t d where e: "e = \<lparr>exact_path = p, size_bytes = s, modified = t, entry_object_id = d\<rparr>"
    by (cases e) auto
  show "rd_leaf_entry bs = Inr (e, r) \<longleftrightarrow> entry_typed e \<and> (\<exists>w. encode_leaf_entry e = Inr w \<and> bs = w @ r)"
    unfolding e rd_leaf_entry_def encode_leaf_entry_def entry_typed_def
    by (auto simp: res_bind_pair_iff codec_read res_bind_Inr_iff validate_text_iff timestamp_new_iff)
qed

interpretation node_child_codec: codec encode_node_child rd_node_child
  "\<lambda>c. digest_typed (ref_id (child_ref c))"
proof unfold_locales
  fix bs r and c :: manifest_child
  obtain e k d s where c: "c = \<lparr>child_edge = e, child_ref = \<lparr>ref_kind = k, ref_id = d\<rparr>, child_summary = s\<rparr>"
    by (metis manifest_child.surjective manifest_ref.surjective old.unit.exhaust)
  show "rd_node_child bs = Inr (c, r) \<longleftrightarrow> digest_typed (ref_id (child_ref c))
      \<and> (\<exists>w. encode_node_child c = Inr w \<and> bs = w @ r)"
    unfolding c rd_node_child_def encode_node_child_def
    by (auto simp: res_bind_pair_iff codec_read res_bind_Inr_iff kind_byte_iff [where d = d])
qed

text \<open>The envelope.\<close>

lemma length_MAGIC [simp]: "length MAGIC = 8"
  by (simp add: MAGIC_def)

lemma chunk_kind_parse_iff: "chunk_kind_parse b = Inr k \<longleftrightarrow> b = chunk_kind_byte k"
  by (cases k) (auto simp: chunk_kind_parse_def chunk_kind_byte_def)

lemma maximum_stored_len_bound: "maximum_stored_len k \<le> 2 ^ 20"
  by (simp add: maximum_stored_len_def MAX_ROOT_BYTES_def MAX_MANIFEST_CHUNK_BYTES_def
      split: chunk_kind.split)

definition envelope_header :: "chunk_kind \<Rightarrow> u32 \<Rightarrow> bytes" where
  "envelope_header k n = MAGIC @ [chunk_kind_byte k, CODEC_VERSION] @ [0, 0] @ word_be n"

lemma word_be_0_u16: "word_be (0 :: u16) = [0, 0]"
  by (simp add: word_be_def numeral_2_eq_2)

lemma envelope_iff:
  "envelope k p = Inr s \<longleftrightarrow>
     ENVELOPE_LEN + length p \<le> maximum_stored_len k
   \<and> (\<exists>n. unat n = length p \<and> s = envelope_header k n @ p)"
proof -
  have "ENVELOPE_LEN + length p \<le> maximum_stored_len k \<Longrightarrow> ENVELOPE_LEN + length p < 2 ^ 64"
    using maximum_stored_len_bound [of k] by simp
  then show ?thesis
    by (auto simp: envelope_def res_bind_Inr_iff ok_or_Inr_iff usize_checked_add_def
        usize_to_u32_iff if_Inl_eq_Inr envelope_header_def word_be_0_u16 not_less)
qed

lemma header_split:
  assumes "16 \<le> length (s :: 'a list)"
  obtains m a b c d l p where "s = m @ [a, b, c, d] @ l @ p" "length m = 8" "length l = 4"
proof -
  have "s = take 8 s @ drop 8 s" by simp
  moreover have "drop 8 s = take 4 (drop 8 s) @ drop 12 s"
    using append_take_drop_id [of 4 "drop 8 s"] by (simp only: drop_drop) simp
  moreover have "drop 12 s = take 4 (drop 12 s) @ drop 16 s"
    using append_take_drop_id [of 4 "drop 12 s"] by (simp only: drop_drop) simp
  ultimately have "s = take 8 s @ take 4 (drop 8 s) @ take 4 (drop 12 s) @ drop 16 s" by metis
  moreover obtain a b c d where "take 4 (drop 8 s) = [a, b, c, d]"
  proof -
    have "length t = Suc (Suc (Suc (Suc 0))) \<Longrightarrow> \<exists>a b c d. t = [a, b, c, d]" for t :: "'a list"
      by (auto simp: length_Suc_conv)
    from this [of "take 4 (drop 8 s)"] show ?thesis using that assms by auto
  qed
  ultimately show ?thesis using assms that [of "take 8 s" a b c d "take 4 (drop 12 s)" "drop 16 s"]
    by simp
qed

lemma decode_envelope_iff: "decode_envelope s k = Inr p \<longleftrightarrow> envelope k p = Inr s"
proof
  assume d: "decode_envelope s k = Inr p"
  then have "16 \<le> length s"
    by (auto simp: decode_envelope_def ENVELOPE_LEN_def if_Inl_eq_Inr)
  then obtain m a b c e l q where s: "s = m @ [a, b, c, e] @ l @ q" "length m = 8" "length l = 4"
    by (rule header_split)
  have n: "s ! 8 = a" "s ! 9 = b" "s ! 10 = c" "s ! 11 = e" "take 8 s = m"
    "take 4 (drop 12 s) = l" "drop 16 s = q" "length s = 16 + length q"
    unfolding s(1) using s(2,3) by (simp_all add: nth_append)
  from d have "16 + length q \<le> maximum_stored_len k" "m = MAGIC" "a = chunk_kind_byte k"
    "b = CODEC_VERSION" "be_word [c, e] = (0 :: u16)" "unat (be_word l :: u32) = length q" "p = q"
    unfolding decode_envelope_def n
    by (auto simp: if_Inl_eq_Inr res_bind_Inr_iff chunk_kind_parse_iff n ENVELOPE_LEN_def not_less)
  moreover from this have "[c, e] = [0, 0]"
    using word_be_eq_iff [of "[c, e]" "0 :: u16"] by (simp add: word_be_0_u16)
  moreover have "word_be (be_word l :: u32) = l"
    using s(3) word_be_eq_iff [of l "be_word l :: u32"] by simp
  ultimately show "envelope k p = Inr s"
    unfolding envelope_iff s(1) envelope_header_def
    by (auto simp: ENVELOPE_LEN_def intro!: exI [of _ "be_word l"])
next
  assume "envelope k p = Inr s"
  then obtain n where le: "16 + length p \<le> maximum_stored_len k" and n: "unat (n :: u32) = length p"
    and s: "s = MAGIC @ [chunk_kind_byte k, CODEC_VERSION, 0, 0] @ word_be n @ p"
    by (auto simp: envelope_iff envelope_header_def ENVELOPE_LEN_def)
  have w: "be_word [0, 0] = (0 :: u16)" using be_word_word_be [of "0 :: u16"] by (simp add: word_be_0_u16)
  have v: "be_word (word_be n) = n" by (simp add: be_word_word_be)
  have x: "s ! 8 = chunk_kind_byte k" "s ! 9 = CODEC_VERSION" "s ! 10 = 0" "s ! 11 = 0"
    "take 8 s = MAGIC" "take 4 (drop 12 s) = word_be n" "drop 16 s = p" "length s = 16 + length p"
    unfolding s by (simp_all add: nth_append)
  have "chunk_kind_parse (chunk_kind_byte k) = Inr k" by (simp add: chunk_kind_parse_iff)
  then show "decode_envelope s k = Inr p"
    unfolding decode_envelope_def using le n by (simp add: x w v ENVELOPE_LEN_def)
qed

lemma envelope_length: "envelope k p = Inr s \<Longrightarrow> length s = ENVELOPE_LEN + length p \<and> length s \<le> maximum_stored_len k"
  by (auto simp: envelope_iff envelope_header_def ENVELOPE_LEN_def)

section \<open>The codecs are bijective\<close>

text \<open>The reader facts in the direction simplification uses them.\<close>

lemma rd_forward:
  "rd_u8 (b # r) = Inr (b, r)"
  "rd_u16 (word_be v16 @ r) = Inr (v16, r)"
  "rd_u32 (word_be v32 @ r) = Inr (v32, r)"
  "rd_summary (wr_summary s @ r) = Inr (s, r)"
  "rd_summary (wr_summary s) = Inr (s, [])"
  "length d = n \<Longrightarrow> rd_take n (d @ r) = Inr (d, r)"
  "\<forall>d \<in> set_option p. digest_typed d \<Longrightarrow> rd_parent (wr_parent p @ r) = Inr (p, r)"
  "nanoseconds t < 1000000000 \<Longrightarrow>
   rd_timestamp (word_be (unix_seconds t) @ word_be (nanoseconds t) @ r) = Inr (t, r)"
  by (simp_all add: codec_read)

text \<open>A record is the record of its fields.\<close>

lemma record_eta:
  "\<lparr>leaf_prefix = leaf_prefix l, leaf_entries = leaf_entries l\<rparr> = l"
  "\<lparr>node_prefix = node_prefix n, node_children = node_children n\<rparr> = n"
  "\<lparr>root_project_id = root_project_id root, root_parent = root_parent root,
    root_created = root_created root, root_checkpoint_name = root_checkpoint_name root,
    root_tool_version = root_tool_version root, root_manifest = root_manifest root,
    root_summary = root_summary root\<rparr> = root"
  by simp_all

lemma rd_forward_wr:
  "wr_bytes v = Inr w \<Longrightarrow> length v \<le> lim \<Longrightarrow> rd_bytes f lim (w @ r) = Inr (v, r)"
  "wr_string v = Inr w \<Longrightarrow> length v \<le> lim \<Longrightarrow> utf8_valid v \<Longrightarrow> rd_string f lim (w @ r) = Inr (v, r)"
  "usize_to_u32 f n = Inr k \<Longrightarrow> n \<le> lim \<Longrightarrow> rd_count f lim (word_be k @ r) = Inr (n, r)"
  "write_optional_manifest_ref m = Inr w \<Longrightarrow> \<forall>d \<in> set_option m. digest_typed (ref_id d) \<Longrightarrow>
   read_optional_manifest_ref (w @ r) = Inr (m, r)"
  by (auto simp: codec_read optional_ref_codec.rd_iff)

text \<open>C12: A leaf chunk decodes to a leaf exactly when it is the encoding of that leaf: decoding
undoes encoding, and no other bytes decode to the leaf.\<close>

theorem leaf_codec_canonical:
  "decode_leaf stored = Inr l \<longleftrightarrow> leaf_typed l \<and> encode_leaf l = Inr stored"
proof
  assume "decode_leaf stored = Inr l"
  then show "leaf_typed l \<and> encode_leaf l = Inr stored"
    unfolding decode_leaf_def encode_leaf_def leaf_typed_def
    by (auto simp: res_bind_pair_iff res_bind_Inr_iff codec_read require_schema_iff
        decode_envelope_iff leaf_entry_codec.many_iff Let_def if_Inl_eq_Inr
        validate_bytes_iff validate_count_iff)
next
  assume a: "leaf_typed l \<and> encode_leaf l = Inr stored"
  then obtain s pw n ws where e: "length (leaf_prefix l) \<le> MAX_PREFIX_BYTES"
    "length (leaf_entries l) \<le> MAX_LEAF_ENTRIES" "leaf_summary l = Inr s"
    "wr_bytes (leaf_prefix l) = Inr pw"
    "usize_to_u32 ''leaf entry count'' (length (leaf_entries l)) = Inr n"
    "try_map encode_leaf_entry (leaf_entries l) = Inr ws"
    "envelope LeafChunk (word_be PAYLOAD_SCHEMA @ pw @ word_be n @ wr_summary s @ concat ws)
       = Inr stored"
    by (auto simp: encode_leaf_def res_bind_Inr_iff validate_bytes_iff validate_count_iff)
  from e(7) have "decode_envelope stored LeafChunk
      = Inr (word_be PAYLOAD_SCHEMA @ pw @ word_be n @ wr_summary s @ concat ws)"
    by (simp add: decode_envelope_iff)
  with e a show "decode_leaf stored = Inr l"
    by (simp add: decode_leaf_def rd_forward rd_forward_wr require_schema_def
        leaf_entry_codec.many_forward leaf_typed_def rd_finish_def record_eta Let_def)
qed

text \<open>C13: The same for nodes.\<close>

theorem node_codec_canonical:
  "decode_node stored = Inr n \<longleftrightarrow> node_typed n \<and> encode_node n = Inr stored"
proof
  assume "decode_node stored = Inr n"
  then show "node_typed n \<and> encode_node n = Inr stored"
    unfolding decode_node_def encode_node_def node_typed_def
    by (auto simp: res_bind_pair_iff res_bind_Inr_iff codec_read require_schema_iff
        decode_envelope_iff node_child_codec.many_iff Let_def if_Inl_eq_Inr
        validate_bytes_iff validate_count_iff)
next
  assume a: "node_typed n \<and> encode_node n = Inr stored"
  then obtain s pw k ws where e: "length (node_prefix n) \<le> MAX_PREFIX_BYTES"
    "length (node_children n) \<le> MAX_NODE_CHILDREN" "node_summary n = Inr s"
    "wr_bytes (node_prefix n) = Inr pw"
    "usize_to_u32 ''node child count'' (length (node_children n)) = Inr k"
    "try_map encode_node_child (node_children n) = Inr ws"
    "envelope NodeChunk (word_be PAYLOAD_SCHEMA @ pw @ word_be k @ wr_summary s @ concat ws)
       = Inr stored"
    by (auto simp: encode_node_def res_bind_Inr_iff validate_bytes_iff validate_count_iff)
  from e(7) have "decode_envelope stored NodeChunk
      = Inr (word_be PAYLOAD_SCHEMA @ pw @ word_be k @ wr_summary s @ concat ws)"
    by (simp add: decode_envelope_iff)
  with e a show "decode_node stored = Inr n"
    by (simp add: decode_node_def rd_forward rd_forward_wr require_schema_def
        node_child_codec.many_forward node_typed_def rd_finish_def record_eta Let_def)
qed

text \<open>C14: The same for snapshot roots.\<close>

theorem root_codec_canonical:
  "decode_root stored = Inr root \<longleftrightarrow> root_typed root \<and> encode_root root = Inr stored"
proof
  assume "decode_root stored = Inr root"
  then show "root_typed root \<and> encode_root root = Inr stored"
    unfolding decode_root_def
    by (elim res_bind_pairE res_bind_InrE, simp only: if_Inl_eq_Inr Let_def,
        elim conjE res_bind_InrE,
        simp only: codec_read require_schema_iff require_policy_iff decode_envelope_iff
          optional_ref_codec.rd_iff append_Nil2 sum.inject append_assoc,
        elim exE conjE, hypsubst, simp only: root_typed_def encode_root_def snapshot_root.simps,
        simp del: de_Morgan_conj)
next
  assume a: "root_typed root \<and> encode_root root = Inr stored"
  then have v: "validate_root root = Inr ()" by (auto simp: encode_root_def res_bind_Inr_iff)
  then have lim: "length (root_checkpoint_name root) \<le> MAX_CHECKPOINT_NAME_BYTES"
    "length (root_tool_version root) \<le> MAX_TOOL_VERSION_BYTES"
    "nanoseconds (root_created root) < 1000000000"
    "\<not> (root_manifest root = None \<and> root_summary root \<noteq> summary_default)"
    unfolding validate_root_def
    by (auto simp: res_bind_Inr_iff validate_text_iff if_Inl_eq_Inr timestamp_new_iff)
  from a obtain nw tw mw where e: "wr_string (root_checkpoint_name root) = Inr nw"
    "wr_string (root_tool_version root) = Inr tw"
    "write_optional_manifest_ref (root_manifest root) = Inr mw"
    and env: "envelope RootChunk (word_be PAYLOAD_SCHEMA @ root_project_id root
        @ wr_parent (root_parent root) @ word_be (unix_seconds (root_created root))
        @ word_be (nanoseconds (root_created root)) @ nw @ tw @ word_be TRACKED_SCOPE_POLICY
        @ word_be PATH_KEY_POLICY @ word_be CONTENT_POLICY @ mw @ wr_summary (root_summary root))
       = Inr stored"
    by (auto simp: encode_root_def res_bind_Inr_iff)
  have t: "length (root_project_id root) = 16" "\<forall>d \<in> set_option (root_parent root). digest_typed d"
    "\<forall>r \<in> set_option (root_manifest root). digest_typed (ref_id r)"
    "utf8_valid (root_checkpoint_name root)" "utf8_valid (root_tool_version root)"
    using a by (auto simp: root_typed_def)
  from env have "decode_envelope stored RootChunk = Inr (word_be PAYLOAD_SCHEMA @ root_project_id root
        @ wr_parent (root_parent root) @ word_be (unix_seconds (root_created root))
        @ word_be (nanoseconds (root_created root)) @ nw @ tw @ word_be TRACKED_SCOPE_POLICY
        @ word_be PATH_KEY_POLICY @ word_be CONTENT_POLICY @ mw @ wr_summary (root_summary root))"
    by (simp add: decode_envelope_iff)
  then show "decode_root stored = Inr root"
    using e t lim v
    by (simp add: decode_root_def rd_forward rd_forward_wr require_schema_def require_policy_def
        rd_finish_def Let_def record_eta del: de_Morgan_conj)
qed

end
