(* ===== verification/SnapshotV2.thy ===== *)
theory SnapshotV2
  imports MerkleCodec
begin

text \<open>
  \<open>storage/snapshot_v2.rs\<close>: the compressed-radix manifest. Entries are keyed by their portable
  path key, sorted, and cut into leaf and node chunks that are stored by content id; the
  module builds a manifest, validates one from an untrusted source, iterates it and looks a
  path up.

  Third-party functions are fields of \<open>external\<close>: the hash, Unicode normalisation (on the
  scalar values of a string) and the lower-case table (two scalars, zero-padded). The byte
  maps and sets of the code are maps, association lists and lists without repetition, the
  last two where their size matters. The capacity of a vector is its length.
\<close>

record external =
  blake3 :: "bytes \<Rightarrow> bytes"
  nfc :: "nat list \<Rightarrow> nat list"
  to_lowercase :: "nat \<Rightarrow> nat list"

text \<open>The one law of BLAKE3 that is used: a digest has 32 bytes.\<close>

definition hash_length :: "external \<Rightarrow> bool" where
  "hash_length x \<longleftrightarrow> (\<forall>bs. length (blake3 x bs) = 32)"

section \<open>Constants, errors and types\<close>

definition MANIFEST_LEAF_TARGET_BYTES :: nat where "MANIFEST_LEAF_TARGET_BYTES = 32 * 1024"
definition MAX_MANIFEST_DEPTH :: nat where "MAX_MANIFEST_DEPTH = 1024"
definition MAX_MANIFEST_VALIDATION_CHUNKS :: nat where
  "MAX_MANIFEST_VALIDATION_CHUNKS = 100000"
definition MAX_MANIFEST_VALIDATION_CACHE_BYTES :: nat where
  "MAX_MANIFEST_VALIDATION_CACHE_BYTES = 64 * 1024 * 1024"

datatype snapshot_error = Codec codec_error | InvalidManifest string | Source string

type_synonym 'a snapshot_result = "snapshot_error + 'a"

definition from_codec :: "'a codec_result \<Rightarrow> 'a snapshot_result" where
  "from_codec m = res_map_err Codec m"

text \<open>\<open>ManifestEntry\<close> has the fields of \<open>LeafEntry\<close>; the conversions copy them.\<close>

type_synonym manifest_entry = leaf_entry

record built_manifest =
  manifest_root :: "manifest_ref option"
  manifest_summary :: manifest_summary
  manifest_chunks :: "manifest_ref \<rightharpoonup> bytes"

definition built_manifest_default :: built_manifest where
  "built_manifest_default =
     \<lparr>manifest_root = None, manifest_summary = summary_default, manifest_chunks = Map.empty\<rparr>"

text \<open>The trait \<open>ManifestChunkSource\<close>, and its implementation for a built manifest.\<close>

type_synonym chunk_source = "manifest_ref \<Rightarrow> bytes snapshot_result"

definition load_manifest_chunk :: "built_manifest \<Rightarrow> chunk_source" where
  "load_manifest_chunk m r = ok_or (Source ''missing chunk'') (manifest_chunks m r)"

record keyed_entry =
  keyed_key :: bytes
  keyed_entry :: manifest_entry

section \<open>Portable path keys\<close>

text \<open>\<open>chars()\<close> of a string.\<close>

definition str_chars :: "str \<Rightarrow> nat list" where
  "str_chars s = (case utf8_decode s of Some cs \<Rightarrow> cs | None \<Rightarrow> [])"

definition lower_scalar :: "nat \<Rightarrow> nat snapshot_result" where
  "lower_scalar scalar =
     ok_or (InvalidManifest ''Unicode 16 lowercase table returned invalid scalar'')
       (char_from_u32 scalar)"

definition lower_char :: "external \<Rightarrow> nat \<Rightarrow> nat list snapshot_result" where
  "lower_char x c =
     (let mapping = to_lowercase x c in
      if mapping = [0, 0] then Inr [c]
      else try_map lower_scalar (takeWhile (\<lambda>s. s \<noteq> 0) mapping))"

definition portable_path_key_v1 :: "external \<Rightarrow> str \<Rightarrow> bytes snapshot_result" where
  "portable_path_key_v1 x p =
     (if MAX_EXACT_PATH_BYTES < length p
      then Inl (Codec (Limit ''exact path'' (length p) MAX_EXACT_PATH_BYTES))
      else
      res_bind (res_map_err (\<lambda>_. InvalidManifest ''invalid tracked path'') (tracked_path_parse p))
        (\<lambda>_.
      res_bind (try_map (lower_char x) (nfc x (str_chars p))) (\<lambda>lowered.
      let key = utf8_encode (nfc x (concat lowered)) in
      if MAX_EXACT_PATH_BYTES < length key
      then Inl (Codec (Limit ''portable path key'' (length key) MAX_EXACT_PATH_BYTES))
      else Inr key)))"

section \<open>Building\<close>

definition common_prefix_len :: "bytes \<Rightarrow> bytes \<Rightarrow> nat" where
  "common_prefix_len l r = length (takeWhile (\<lambda>(a, b). a = b) (zip l r))"

definition edge_at :: "bytes \<Rightarrow> nat \<Rightarrow> byte" where
  "edge_at key n = (if n < length key then key ! n else 0)"

definition is_path_ancestor :: "bytes \<Rightarrow> bytes \<Rightarrow> bool" where
  "is_path_ancestor parent child \<longleftrightarrow>
     length parent < length child \<and> starts_with parent child \<and> child ! length parent = 0x2F"

definition keyed_summary :: "manifest_entry \<Rightarrow> manifest_summary snapshot_result" where
  "keyed_summary e =
     res_bind (if length (exact_path e) < 2 ^ 64 then Inr (word_of_nat (length (exact_path e)))
               else Inl (InvalidManifest ''exact path length overflow'')) (\<lambda>p.
     Inr \<lparr>entry_count = 1, logical_size_bytes = size_bytes e, total_exact_path_bytes = p\<rparr>)"

definition validate_pair :: "bytes \<times> bytes \<Rightarrow> unit snapshot_result" where
  "validate_pair pair =
     (case pair of (previous, current) \<Rightarrow>
        if previous = current then Inl (InvalidManifest ''portable path collision'')
        else if current < previous
        then Inl (InvalidManifest ''portable path keys are not strictly increasing'')
        else if is_path_ancestor previous current
        then Inl (InvalidManifest ''file/directory ancestor conflict'')
        else Inr ())"

definition validate_ordered_keys :: "keyed_entry list \<Rightarrow> unit snapshot_result" where
  "validate_ordered_keys es = try_all validate_pair (windows2 (map keyed_key es))"

definition leaf_encoded_len :: "bytes \<Rightarrow> manifest_summary \<Rightarrow> nat snapshot_result" where
  "leaf_encoded_len prefix s =
     (let overflow = InvalidManifest ''leaf length overflow'' in
      res_bind (ok_or overflow (usize_checked_add 16 (2 + 4 + length prefix + 4 + 24)))
        (\<lambda>fixed.
      res_bind (ok_or overflow (usize_checked_mul (unat (entry_count s)) 56)) (\<lambda>entries.
      ok_or overflow
        (case usize_checked_add fixed entries of
           None \<Rightarrow> None
         | Some v \<Rightarrow> usize_checked_add v (unat (total_exact_path_bytes s))))))"

definition range_summary ::
    "manifest_summary list \<Rightarrow> nat \<Rightarrow> nat \<Rightarrow> manifest_summary snapshot_result" where
  "range_summary prefixes start end =
     res_bind (if start < length prefixes then Inr (prefixes ! start)
               else Inl (InvalidManifest ''manifest summary range start is invalid'')) (\<lambda>before.
     res_bind (if end < length prefixes then Inr (prefixes ! end)
               else Inl (InvalidManifest ''manifest summary range end is invalid'')) (\<lambda>after.
     res_bind (ok_or (InvalidManifest ''manifest entry summary is not monotonic'')
                 (checked_sub (entry_count after) (entry_count before))) (\<lambda>c.
     res_bind (ok_or (InvalidManifest ''manifest size summary is not monotonic'')
                 (checked_sub (logical_size_bytes after) (logical_size_bytes before))) (\<lambda>l.
     res_bind (ok_or (InvalidManifest ''manifest path summary is not monotonic'')
                 (checked_sub (total_exact_path_bytes after) (total_exact_path_bytes before)))
       (\<lambda>p.
     Inr \<lparr>entry_count = c, logical_size_bytes = l, total_exact_path_bytes = p\<rparr>)))))"

definition insert_chunk ::
    "external \<Rightarrow> chunk_kind \<Rightarrow> bytes \<Rightarrow> (manifest_ref \<rightharpoonup> bytes)
     \<Rightarrow> (manifest_ref \<times> (manifest_ref \<rightharpoonup> bytes)) snapshot_result" where
  "insert_chunk x k bs chunks =
     res_bind (from_codec (manifest_id (blake3 x) k bs)) (\<lambda>i.
     res_bind (from_codec (manifest_ref_new k i)) (\<lambda>r.
     case chunks r of
       Some existing \<Rightarrow>
         if existing \<noteq> bs then Inl (InvalidManifest ''domain hash collision'')
         else Inr (r, chunks)
     | None \<Rightarrow> Inr (r, chunks(r \<mapsto> bs))))"

text \<open>
  The inner \<open>while\<close> of \<open>build_range\<close>: from \<open>i\<close> to the first index whose edge differs, and the
  outer one, which cuts the range into runs of the same edge. The code recurses into each
  run as it finds it; the runs depend on the keys only.
\<close>

function run_end :: "keyed_entry list \<Rightarrow> nat \<Rightarrow> byte \<Rightarrow> nat \<Rightarrow> nat \<Rightarrow> nat" where
  "run_end es n edge i end =
     (if i < end \<and> edge_at (keyed_key (es ! i)) n = edge then run_end es n edge (Suc i) end else i)"
  by pat_completeness auto
termination
  by (relation "measure (\<lambda>(_, _, _, i, end). end - i)") auto

declare run_end.simps [simp del]

lemma run_end_ge: "i \<le> run_end es n edge i end"
proof (induction es n edge i "end" rule: run_end.induct)
  case (1 es n edge i "end")
  then show ?case by (subst run_end.simps) auto
qed

function edge_runs :: "keyed_entry list \<Rightarrow> nat \<Rightarrow> nat \<Rightarrow> nat \<Rightarrow> (byte \<times> nat \<times> nat) list" where
  "edge_runs es n start end =
     (if start < end then
        let edge = edge_at (keyed_key (es ! start)) n;
            stop = run_end es n edge (start + 1) end in
        (edge, start, stop) # edge_runs es n stop end
      else [])"
  by pat_completeness auto
termination
  by (relation "measure (\<lambda>(_, _, start, end). end - start)")
    (auto simp: Suc_le_lessD intro!: diff_less_mono2 Suc_le_lessD [OF run_end_ge])

declare edge_runs.simps [simp del]

function build_range ::
    "external \<Rightarrow> nat \<Rightarrow> keyed_entry list \<Rightarrow> manifest_summary list \<Rightarrow> nat \<Rightarrow> nat \<Rightarrow> nat
     \<Rightarrow> (manifest_ref \<rightharpoonup> bytes)
     \<Rightarrow> ((manifest_ref \<times> manifest_summary) \<times> (manifest_ref \<rightharpoonup> bytes)) snapshot_result" where
  "build_range x target es prefixes start end depth chunks =
     (if MAX_MANIFEST_DEPTH < depth then Inl (InvalidManifest ''manifest exceeds maximum depth'')
      else if \<not> (start \<le> end \<and> end \<le> length es)
      then Inl (InvalidManifest ''manifest range is outside its entries'')
      else
      let range = take (end - start) (drop start es) in
      if range = [] then Inl (InvalidManifest ''cannot build an empty chunk'')
      else
      let first = hd range; l = last range;
          prefix_len = common_prefix_len (keyed_key first) (keyed_key l);
          prefix = take prefix_len (keyed_key first) in
      res_bind (range_summary prefixes start end) (\<lambda>summary.
      res_bind (leaf_encoded_len prefix summary) (\<lambda>len.
      if len \<le> target \<or> length range = 1 then
        res_bind (from_codec (encode_leaf
            \<lparr>leaf_prefix = prefix, leaf_entries = map keyed_entry range\<rparr>)) (\<lambda>bs.
        res_bind (insert_chunk x LeafChunk bs chunks) (\<lambda>(r, chunks).
        Inr ((r, summary), chunks)))
      else
        res_bind (try_fold (\<lambda>(children, chunks) (edge, child_start, child_end).
            res_bind (build_range x target es prefixes child_start child_end (depth + 1) chunks)
              (\<lambda>((r, s), chunks).
            Inr (children @ [\<lparr>child_edge = edge, child_ref = r, child_summary = s\<rparr>], chunks)))
            ([], chunks) (edge_runs es prefix_len start end)) (\<lambda>(children, chunks).
        if length children < 2
        then Inl (InvalidManifest ''canonical radix split produced a unary node'')
        else
        res_bind (from_codec (encode_node \<lparr>node_prefix = prefix, node_children = children\<rparr>)) (\<lambda>bs.
        res_bind (insert_chunk x NodeChunk bs chunks) (\<lambda>(r, chunks).
        Inr ((r, summary), chunks)))))))"
  by pat_completeness auto
termination
  by (relation "measure (\<lambda>(_, _, _, _, _, _, depth, _). MAX_MANIFEST_DEPTH + 1 - depth)") auto

declare build_range.simps [simp del]

definition keyed_of :: "external \<Rightarrow> manifest_entry \<Rightarrow> keyed_entry snapshot_result" where
  "keyed_of x e =
     res_bind (portable_path_key_v1 x (exact_path e)) (\<lambda>k.
     Inr \<lparr>keyed_key = k, keyed_entry = e\<rparr>)"

text \<open>The running sums, \<open>summary_prefixes\<close>.\<close>

fun summary_prefixes ::
    "manifest_summary \<Rightarrow> keyed_entry list \<Rightarrow> manifest_summary list snapshot_result" where
  "summary_prefixes s [] = Inr [s]"
| "summary_prefixes s (e # es) =
     res_bind (keyed_summary (keyed_entry e)) (\<lambda>d.
     res_bind (from_codec (summary_checked_add s d)) (\<lambda>s'.
     res_bind (summary_prefixes s' es) (\<lambda>rest. Inr (s # rest))))"

definition build_manifest_with_leaf_target ::
    "external \<Rightarrow> manifest_entry list \<Rightarrow> nat \<Rightarrow> built_manifest snapshot_result" where
  "build_manifest_with_leaf_target x entries target =
     (if entries = [] then Inr built_manifest_default
      else
      res_bind (try_map (keyed_of x) entries) (\<lambda>keyed.
      let keyed = sort_key keyed_key keyed in
      res_bind (validate_ordered_keys keyed) (\<lambda>_.
      res_bind (summary_prefixes summary_default keyed) (\<lambda>prefixes.
      res_bind (build_range x target keyed prefixes 0 (length keyed) 0 Map.empty)
        (\<lambda>((r, s), chunks).
      Inr \<lparr>manifest_root = Some r, manifest_summary = s, manifest_chunks = chunks\<rparr>)))))"

definition build_manifest :: "external \<Rightarrow> manifest_entry list \<Rightarrow> built_manifest snapshot_result" where
  "build_manifest x entries =
     build_manifest_with_leaf_target x entries MANIFEST_LEAF_TARGET_BYTES"

section \<open>Loading chunks\<close>

datatype decoded_chunk = Node manifest_node bytes | Leaf manifest_leaf bytes

definition load_chunk ::
    "external \<Rightarrow> chunk_source \<Rightarrow> manifest_ref \<Rightarrow> decoded_chunk snapshot_result" where
  "load_chunk x src r =
     res_bind (src r) (\<lambda>bs.
     res_bind (from_codec (verify_manifest_id (blake3 x) r bs)) (\<lambda>_.
     case ref_kind r of
       NodeChunk \<Rightarrow> res_bind (from_codec (decode_node bs)) (\<lambda>n. Inr (Node n bs))
     | LeafChunk \<Rightarrow> res_bind (from_codec (decode_leaf bs)) (\<lambda>l. Inr (Leaf l bs))
     | RootChunk \<Rightarrow> Inl (InvalidManifest ''manifest points to a snapshot root'')))"

section \<open>Validation\<close>

record validation_info =
  info_summary :: manifest_summary
  first_key :: bytes
  last_key :: bytes
  maximum_relative_depth :: nat

record validation_cache =
  validated :: "(manifest_ref \<times> validation_info) list"
  estimated_heap_bytes :: nat

definition validation_cache_default :: validation_cache where
  "validation_cache_default = \<lparr>validated = [], estimated_heap_bytes = 0\<rparr>"

definition validated_references :: "validation_cache \<Rightarrow> manifest_ref set" where
  "validated_references cache = set (map fst (validated cache))"

definition usize_saturating_add :: "nat \<Rightarrow> nat \<Rightarrow> nat" where
  "usize_saturating_add a b = min (a + b) (2 ^ 64 - 1)"

definition validate_leaf ::
    "external \<Rightarrow> manifest_leaf \<Rightarrow> bytes \<Rightarrow> validation_info snapshot_result" where
  "validate_leaf x leaf stored =
     res_bind (from_codec (encode_leaf leaf)) (\<lambda>canonical.
     if canonical \<noteq> stored
     then Inl (InvalidManifest ''leaf has a non-canonical binary encoding'')
     else if leaf_entries leaf = []
     then Inl (InvalidManifest ''empty manifests must not contain an empty leaf'')
     else if MANIFEST_LEAF_TARGET_BYTES < length stored \<and> length (leaf_entries leaf) \<noteq> 1
     then Inl (InvalidManifest ''leaf exceeds byte target'')
     else
     res_bind (try_map (keyed_of x) (leaf_entries leaf)) (\<lambda>keyed.
     res_bind (validate_ordered_keys keyed) (\<lambda>_.
     let fk = keyed_key (hd keyed); lk = keyed_key (last keyed) in
     if leaf_prefix leaf \<noteq> take (common_prefix_len fk lk) fk
     then Inl (InvalidManifest ''leaf prefix is not the exact entry LCP'')
     else
     res_bind (from_codec (leaf_summary leaf)) (\<lambda>s.
     Inr \<lparr>info_summary = s, first_key = fk, last_key = lk, maximum_relative_depth = 0\<rparr>))))"

text \<open>The state of the loop over the children of a node.\<close>

record child_scan =
  scan_first :: "bytes option"
  scan_last :: "bytes option"
  scan_summary :: manifest_summary
  scan_depth :: nat

definition child_scan_init :: child_scan where
  "child_scan_init =
     \<lparr>scan_first = None, scan_last = None, scan_summary = summary_default, scan_depth = 0\<rparr>"

text \<open>The body of that loop after the recursive call.\<close>

definition scan_child ::
    "manifest_node \<Rightarrow> manifest_child \<Rightarrow> validation_info \<Rightarrow> child_scan \<Rightarrow> child_scan snapshot_result" where
  "scan_child node child info scan =
     (let n = length (node_prefix node) in
      if info_summary info \<noteq> child_summary child
      then Inl (InvalidManifest ''node child summary mismatch'')
      else if \<not> starts_with (node_prefix node) (first_key info)
              \<or> edge_at (first_key info) n \<noteq> child_edge child
              \<or> edge_at (last_key info) n \<noteq> child_edge child
      then Inl (InvalidManifest ''child key range does not match its radix edge'')
      else
      res_bind (case scan_last scan of
          None \<Rightarrow> Inr ()
        | Some previous \<Rightarrow>
            if first_key info \<le> previous
            then Inl (InvalidManifest ''manifest child ranges overlap or are unordered'')
            else if is_path_ancestor previous (first_key info)
            then Inl (InvalidManifest ''manifest contains a file/directory ancestor conflict'')
            else Inr ()) (\<lambda>_.
      res_bind (from_codec (summary_checked_add (scan_summary scan) (info_summary info))) (\<lambda>s.
      Inr \<lparr>scan_first = (case scan_first scan of None \<Rightarrow> Some (first_key info) | f \<Rightarrow> f),
           scan_last = Some (last_key info),
           scan_summary = s,
           scan_depth = max (scan_depth scan)
             (usize_saturating_add (maximum_relative_depth info) 1)\<rparr>)))"

text \<open>The checks before and after the loop.\<close>

definition check_node :: "manifest_node \<Rightarrow> bytes \<Rightarrow> unit snapshot_result" where
  "check_node node stored =
     res_bind (from_codec (encode_node node)) (\<lambda>canonical.
     if canonical \<noteq> stored
     then Inl (InvalidManifest ''node has a non-canonical binary encoding'')
     else if length (node_children node) < 2
     then Inl (InvalidManifest ''canonical node must contain at least two children'')
     else try_all (\<lambda>(a, b). ensure (a < b)
            (InvalidManifest ''node edges are not strictly increasing''))
            (windows2 (map child_edge (node_children node))))"

definition finish_node :: "manifest_node \<Rightarrow> child_scan \<Rightarrow> validation_info snapshot_result" where
  "finish_node node scan =
     (let fk = the (scan_first scan); lk = the (scan_last scan) in
      if node_prefix node \<noteq> take (common_prefix_len fk lk) fk
      then Inl (InvalidManifest ''node prefix is not the exact descendant LCP'')
      else
      res_bind (leaf_encoded_len (node_prefix node) (scan_summary scan)) (\<lambda>len.
      if len \<le> MANIFEST_LEAF_TARGET_BYTES
      then Inl (InvalidManifest
        ''node is non-canonical because it can be flattened into one leaf'')
      else Inr \<lparr>info_summary = scan_summary scan, first_key = fk, last_key = lk,
                maximum_relative_depth = scan_depth scan\<rparr>))"

text \<open>
  \<open>size_of::<ManifestRef>()\<close> is 33 bytes and \<open>size_of::<ValidationInfo>()\<close> 80 on the 64-bit
  targets.
\<close>

definition estimated_bytes :: "validation_info \<Rightarrow> nat" where
  "estimated_bytes info =
     usize_saturating_add (usize_saturating_add (usize_saturating_add
       (usize_saturating_add 33 80) (length (first_key info))) (length (last_key info))) 64"

definition remember ::
    "manifest_ref \<Rightarrow> validation_info
     \<Rightarrow> (manifest_ref list \<times> validation_cache, snapshot_error, validation_info) st_result" where
  "remember r info = (\<lambda>(visited, cache).
     if map_of (validated cache) r \<noteq> None then (Inr info, visited, cache)
     else if MAX_MANIFEST_VALIDATION_CHUNKS \<le> length (validated cache)
     then (Inl (InvalidManifest ''manifest validation cache exceeds chunks''), visited, cache)
     else if MAX_MANIFEST_VALIDATION_CACHE_BYTES
             < usize_saturating_add (estimated_heap_bytes cache) (estimated_bytes info)
     then (Inl (InvalidManifest ''manifest validation cache exceeds bytes''), visited, cache)
     else (Inr info, visited,
           \<lparr>validated = (r, info) # validated cache,
            estimated_heap_bytes =
              usize_saturating_add (estimated_heap_bytes cache) (estimated_bytes info)\<rparr>))"

function validate_subtree ::
    "external \<Rightarrow> chunk_source \<Rightarrow> manifest_ref \<Rightarrow> nat
     \<Rightarrow> (manifest_ref list \<times> validation_cache, snapshot_error, validation_info) st_result" where
  "validate_subtree x src r depth (visited, cache) =
     (if MAX_MANIFEST_DEPTH < depth
      then (Inl (InvalidManifest ''manifest exceeds maximum depth''), visited, cache)
      else if MAX_MANIFEST_VALIDATION_CHUNKS \<le> length visited
      then (Inl (InvalidManifest ''manifest exceeds maximum validated chunk count''),
            visited, cache)
      else if r \<in> set visited
      then (Inl (InvalidManifest ''cycle or duplicate manifest range''), visited, cache)
      else
      case map_of (validated cache) r of
        Some info \<Rightarrow>
          if MAX_MANIFEST_DEPTH < usize_saturating_add depth (maximum_relative_depth info)
          then (Inl (InvalidManifest ''manifest exceeds maximum depth''), r # visited, cache)
          else (Inr info, r # visited, cache)
      | None \<Rightarrow>
          st_bind (st_lift (load_chunk x src r)) (\<lambda>chunk.
          st_bind
            (case chunk of
               Leaf leaf stored \<Rightarrow> st_lift (validate_leaf x leaf stored)
             | Node node stored \<Rightarrow>
                 st_bind (st_lift (check_node node stored)) (\<lambda>_.
                 st_bind
                   (st_fold (\<lambda>scan child.
                      st_bind (validate_subtree x src (child_ref child) (depth + 1)) (\<lambda>info.
                      st_lift (scan_child node child info scan)))
                    child_scan_init (node_children node))
                 (\<lambda>scan. st_lift (finish_node node scan))))
          (\<lambda>info. remember r info)) (r # visited, cache))"
  by pat_completeness auto
termination
  by (relation "measure (\<lambda>(_, _, _, depth, _). MAX_MANIFEST_DEPTH + 1 - depth)") auto

declare validate_subtree.simps [simp del]

text \<open>The cache is shared between calls, and keeps what a failed call validated.\<close>

definition validate_manifest_cached ::
    "external \<Rightarrow> chunk_source \<Rightarrow> manifest_ref option \<Rightarrow> manifest_summary
     \<Rightarrow> (validation_cache, snapshot_error, unit) st_result" where
  "validate_manifest_cached x src root expected cache =
     (case root of
        None \<Rightarrow>
          (ensure (expected = summary_default)
             (InvalidManifest ''empty root has a non-empty summary''), cache)
      | Some r \<Rightarrow>
          (case validate_subtree x src r 0 ([], cache) of
             (Inl e, _, cache') \<Rightarrow> (Inl e, cache')
           | (Inr info, _, cache') \<Rightarrow>
               (ensure (info_summary info = expected)
                  (InvalidManifest ''root manifest summary mismatch''), cache')))"

section \<open>Iteration\<close>

record manifest_iter =
  iter_pending :: "manifest_ref list"
  iter_visited :: "manifest_ref list"
  iter_leaf_entries :: "leaf_entry list"
  iter_failed :: bool

text \<open>The top of the stack \<open>pending\<close> is the head of the list.\<close>

definition manifest_iter_new :: "manifest_ref option \<Rightarrow> manifest_iter" where
  "manifest_iter_new root =
     \<lparr>iter_pending = (case root of None \<Rightarrow> [] | Some r \<Rightarrow> [r]), iter_visited = [],
      iter_leaf_entries = [], iter_failed = False\<rparr>"

text \<open>
  The loop of \<open>next\<close>. It ends for every source that answers for finitely many references
  only; \<open>None\<close> on the outside stands for a loop that never ends.
\<close>

partial_function (option) iter_loop ::
    "external \<Rightarrow> chunk_source \<Rightarrow> manifest_iter
     \<Rightarrow> (manifest_entry snapshot_result option \<times> manifest_iter) option" where
  "iter_loop x src it =
     (case iter_leaf_entries it of
        e # es \<Rightarrow> Some (Some (Inr e), it\<lparr>iter_leaf_entries := es\<rparr>)
      | [] \<Rightarrow>
        (case iter_pending it of
           [] \<Rightarrow> Some (None, it)
         | r # pending \<Rightarrow>
           if r \<in> set (iter_visited it)
           then Some (Some (Inl (InvalidManifest ''cycle or duplicate manifest range'')),
                      it\<lparr>iter_pending := pending, iter_failed := True\<rparr>)
           else
             let it = it\<lparr>iter_pending := pending, iter_visited := r # iter_visited it\<rparr> in
             (case load_chunk x src r of
                Inr (Leaf leaf _) \<Rightarrow>
                  iter_loop x src (it\<lparr>iter_leaf_entries := leaf_entries leaf\<rparr>)
              | Inr (Node node _) \<Rightarrow>
                  iter_loop x src
                    (it\<lparr>iter_pending := map child_ref (node_children node) @ pending\<rparr>)
              | Inl e \<Rightarrow> Some (Some (Inl e), it\<lparr>iter_failed := True\<rparr>))))"

definition iter_next ::
    "external \<Rightarrow> chunk_source \<Rightarrow> manifest_iter
     \<Rightarrow> (manifest_entry snapshot_result option \<times> manifest_iter) option" where
  "iter_next x src it = (if iter_failed it then Some (None, it) else iter_loop x src it)"

text \<open>Collecting an iterator into a \<open>Result<Vec<_>, _>\<close>, which stops at the first error.\<close>

partial_function (option) iter_collect ::
    "external \<Rightarrow> chunk_source \<Rightarrow> manifest_iter \<Rightarrow> manifest_entry list snapshot_result option" where
  "iter_collect x src it =
     (case iter_next x src it of
        None \<Rightarrow> None
      | Some (None, _) \<Rightarrow> Some (Inr [])
      | Some (Some (Inl e), _) \<Rightarrow> Some (Inl e)
      | Some (Some (Inr e), it') \<Rightarrow>
          Option.bind (iter_collect x src it')
            (\<lambda>rest. Some (case rest of Inl err \<Rightarrow> Inl err | Inr es \<Rightarrow> Inr (e # es))))"

section \<open>Lookup\<close>

text \<open>The binary search of a leaf, from \<open>low\<close> to \<open>high\<close>.\<close>

function leaf_search ::
    "external \<Rightarrow> leaf_entry list \<Rightarrow> bytes \<Rightarrow> nat \<Rightarrow> nat \<Rightarrow> manifest_entry option snapshot_result" where
  "leaf_search x es key low high =
     (if low < high then
        let middle = low + (high - low) div 2 in
        res_bind (portable_path_key_v1 x (exact_path (es ! middle))) (\<lambda>stored_key.
          if stored_key < key then leaf_search x es key (middle + 1) high
          else if key < stored_key then leaf_search x es key low middle
          else Inr (Some (es ! middle)))
      else Inr None)"
  by pat_completeness auto
termination
  by (relation "measure (\<lambda>(_, _, _, low, high). high - low)") auto

declare leaf_search.simps [simp del]

text \<open>\<open>slice::binary_search_by_key\<close>, on edges that are strictly increasing.\<close>

function edge_search :: "manifest_child list \<Rightarrow> byte \<Rightarrow> nat \<Rightarrow> nat \<Rightarrow> nat option" where
  "edge_search cs edge low high =
     (if low < high then
        let middle = low + (high - low) div 2 in
        if child_edge (cs ! middle) < edge then edge_search cs edge (middle + 1) high
        else if edge < child_edge (cs ! middle) then edge_search cs edge low middle
        else Some middle
      else None)"
  by pat_completeness auto
termination
  by (relation "measure (\<lambda>(_, _, low, high). high - low)") auto

declare edge_search.simps [simp del]

text \<open>The loop \<open>for _ in 0..=MAX_MANIFEST_DEPTH\<close>, with the rounds that are left.\<close>

fun lookup_loop ::
    "external \<Rightarrow> chunk_source \<Rightarrow> bytes \<Rightarrow> nat \<Rightarrow> manifest_ref \<Rightarrow> manifest_entry option snapshot_result" where
  "lookup_loop x src key 0 r = Inl (InvalidManifest ''manifest exceeds maximum depth'')"
| "lookup_loop x src key (Suc n) r =
     res_bind (load_chunk x src r) (\<lambda>chunk.
     case chunk of
       Leaf leaf _ \<Rightarrow> leaf_search x (leaf_entries leaf) key 0 (length (leaf_entries leaf))
     | Node node _ \<Rightarrow>
         if \<not> starts_with (node_prefix node) key then Inr None
         else
           (case edge_search (node_children node) (edge_at key (length (node_prefix node)))
                   0 (length (node_children node)) of
              None \<Rightarrow> Inr None
            | Some index \<Rightarrow> lookup_loop x src key n (child_ref (node_children node ! index))))"

definition lookup_manifest_entry ::
    "external \<Rightarrow> chunk_source \<Rightarrow> manifest_ref option \<Rightarrow> str \<Rightarrow> manifest_entry option snapshot_result" where
  "lookup_manifest_entry x src root p =
     res_bind (portable_path_key_v1 x p) (\<lambda>key.
     case root of
       None \<Rightarrow> Inr None
     | Some r \<Rightarrow> lookup_loop x src key (MAX_MANIFEST_DEPTH + 1) r)"

end
