(* ===== verification/ManifestSums.thy ===== *)
theory ManifestSums
  imports SnapshotV2
begin

text \<open>
  Summaries and sizes of manifest chunks: a \<open>ManifestSummary\<close> stands for three natural sums,
  the checked additions of the code compute them exactly or fail on overflow, and the length
  that \<open>leaf_encoded_len\<close> predicts is the length \<open>encode_leaf\<close> produces.
\<close>

section \<open>Summaries and encoded sizes\<close>

text \<open>A summary as the three sums it stands for.\<close>

definition summary_sums :: "manifest_summary \<Rightarrow> nat \<times> nat \<times> nat" where
  "summary_sums s =
     (unat (entry_count s), unat (logical_size_bytes s), unat (total_exact_path_bytes s))"

definition entry_sums :: "manifest_entry list \<Rightarrow> nat \<times> nat \<times> nat" where
  "entry_sums es =
     (length es, sum_list (map (\<lambda>e. unat (size_bytes e)) es),
      sum_list (map (\<lambda>e. length (exact_path e)) es))"

fun add_sums :: "nat \<times> nat \<times> nat \<Rightarrow> nat \<times> nat \<times> nat \<Rightarrow> nat \<times> nat \<times> nat" where
  "add_sums (a, b, c) (d, e, f) = (a + d, b + e, c + f)"

lemma add_sums_assoc: "add_sums (add_sums a b) c = add_sums a (add_sums b c)"
  by (cases a; cases b; cases c) simp

lemma add_sums_zero [simp]: "add_sums (0, 0, 0) a = a" "add_sums a (0, 0, 0) = a"
  by (cases a; simp)+

lemma add_sums_cancel: "add_sums a b = add_sums a c \<longleftrightarrow> b = c"
  by (cases a; cases b; cases c) simp

lemma entry_sums_simps [simp]:
  "entry_sums [] = (0, 0, 0)"
  "entry_sums (e # es) = add_sums (1, unat (size_bytes e), length (exact_path e)) (entry_sums es)"
  "entry_sums (es @ fs) = add_sums (entry_sums es) (entry_sums fs)"
  by (simp_all add: entry_sums_def)

lemma summary_sums_default [simp]: "summary_sums summary_default = (0, 0, 0)"
  by (simp add: summary_sums_def summary_default_def)

lemma summary_sums_inj: "summary_sums s = summary_sums t \<Longrightarrow> s = t"
  by (cases s; cases t) (simp add: summary_sums_def word_unat_eq_iff)

lemma summary_checked_add_iff:
  "summary_checked_add s t = Inr u \<longleftrightarrow> summary_sums u = add_sums (summary_sums s) (summary_sums t)"
proof -
  have "summary_checked_add s t = Inr u \<longleftrightarrow>
     checked_add (entry_count s) (entry_count t) = Some (entry_count u)
   \<and> checked_add (logical_size_bytes s) (logical_size_bytes t) = Some (logical_size_bytes u)
   \<and> checked_add (total_exact_path_bytes s) (total_exact_path_bytes t) = Some (total_exact_path_bytes u)"
    by (cases u) (auto simp: summary_checked_add_def res_bind_Inr_iff ok_or_Inr_iff)
  then show ?thesis by (simp add: checked_add_Some_iff summary_sums_def)
qed

lemma u64_of_len_iff:
  "(if n < 2 ^ 64 then Inr (word_of_nat n) else Inl e) = Inr (p :: u64) \<longleftrightarrow> unat p = n"
proof
  assume "unat p = n"
  moreover have "unat p < 2 ^ 64" using unsigned_less [of p] by simp
  ultimately show "(if n < 2 ^ 64 then Inr (word_of_nat n) else Inl e) = Inr p" by auto
qed (auto simp: unat_of_nat take_bit_nat_eq_self split: if_splits)

lemma entry_summary_iff:
  "entry_summary e = Inr s \<longleftrightarrow> summary_sums s = (1, unat (size_bytes e), length (exact_path e))"
  unfolding entry_summary_def res_bind_Inr_iff u64_of_len_iff
  by (cases s) (auto simp: summary_sums_def word_unat_eq_iff)

lemma keyed_summary_iff:
  "keyed_summary e = Inr s \<longleftrightarrow> summary_sums s = (1, unat (size_bytes e), length (exact_path e))"
  unfolding keyed_summary_def res_bind_Inr_iff u64_of_len_iff
  by (cases s) (auto simp: summary_sums_def word_unat_eq_iff)

definition sums_fit :: "nat \<times> nat \<times> nat \<Rightarrow> bool" where
  "sums_fit t \<longleftrightarrow> (case t of (a, b, c) \<Rightarrow> a < 2 ^ 64 \<and> b < 2 ^ 64 \<and> c < 2 ^ 64)"

lemma sums_fit_iff: "sums_fit t \<longleftrightarrow> (\<exists>s. summary_sums s = t)"
proof -
  obtain a b c where t: "t = (a, b, c)" by (cases t) auto
  have fit: "n < 2 ^ 64 \<longleftrightarrow> (\<exists>w :: u64. unat w = n)" for n
  proof
    assume "n < 2 ^ 64"
    then have "(if n < 2 ^ 64 then Inr (word_of_nat n) else Inl ()) = Inr (word_of_nat n :: u64)" by simp
    then show "\<exists>w :: u64. unat w = n" unfolding u64_of_len_iff by blast
  next
    assume "\<exists>w :: u64. unat w = n"
    then obtain w :: u64 where "unat w = n" by blast
    moreover have "unat w < 2 ^ 64" using unsigned_less [of w] by simp
    ultimately show "n < 2 ^ 64" by simp
  qed
  have "(\<exists>s. summary_sums s = (a, b, c)) \<longleftrightarrow> (\<exists>(u :: u64) (v :: u64) (w :: u64). unat u = a \<and> unat v = b \<and> unat w = c)"
  proof
    assume "\<exists>(u :: u64) (v :: u64) (w :: u64). unat u = a \<and> unat v = b \<and> unat w = c"
    then obtain u v w :: u64 where "unat u = a \<and> unat v = b \<and> unat w = c" by blast
    then have "summary_sums \<lparr>entry_count = u, logical_size_bytes = v, total_exact_path_bytes = w\<rparr> = (a, b, c)"
      by (simp add: summary_sums_def)
    then show "\<exists>s. summary_sums s = (a, b, c)" by blast
  qed (auto simp: summary_sums_def)
  then show ?thesis unfolding t sums_fit_def prod.case fit by blast
qed

lemma sums_fit_mono: "sums_fit (add_sums s t) \<Longrightarrow> sums_fit s \<and> sums_fit t"
  by (cases s; cases t) (simp add: sums_fit_def)

lemma summary_fold_iff:
  assumes "\<And>e s. m e = Inr s \<longleftrightarrow> summary_sums s = f e"
  shows "try_fold (\<lambda>s e. res_bind (m e) (summary_checked_add s)) s es = Inr t
    \<longleftrightarrow> summary_sums t = fold (\<lambda>e a. add_sums a (f e)) es (summary_sums s)"
proof (induction es arbitrary: s)
  case Nil
  show ?case by (auto dest: summary_sums_inj)
next
  case (Cons e es)
  have fit: "sums_fit (fold (\<lambda>e a. add_sums a (f e)) es a) \<Longrightarrow> sums_fit a" for a
  proof (induction es arbitrary: a)
    case (Cons e es)
    have "sums_fit (add_sums a (f e))" using Cons by simp
    then show ?case using sums_fit_mono by blast
  qed simp
  have "try_fold (\<lambda>s e. res_bind (m e) (summary_checked_add s)) s (e # es) = Inr t \<longleftrightarrow>
     (\<exists>d u. summary_sums d = f e \<and> summary_sums u = add_sums (summary_sums s) (f e)
        \<and> summary_sums t = fold (\<lambda>e a. add_sums a (f e)) es (summary_sums u))"
    unfolding try_fold.simps res_bind_Inr_iff assms summary_checked_add_iff Cons.IH by metis
  also have "\<dots> \<longleftrightarrow> summary_sums t = fold (\<lambda>e a. add_sums a (f e)) (e # es) (summary_sums s)"
  proof
    assume *: "summary_sums t = fold (\<lambda>e a. add_sums a (f e)) (e # es) (summary_sums s)"
    then have "sums_fit (fold (\<lambda>e a. add_sums a (f e)) es (add_sums (summary_sums s) (f e)))"
      by (auto simp: sums_fit_iff)
    from fit [OF this] sums_fit_mono have "sums_fit (add_sums (summary_sums s) (f e))" "sums_fit (f e)"
      by blast+
    with * show "\<exists>d u. summary_sums d = f e \<and> summary_sums u = add_sums (summary_sums s) (f e)
        \<and> summary_sums t = fold (\<lambda>e a. add_sums a (f e)) es (summary_sums u)"
      by (auto simp: sums_fit_iff)
  qed auto
  finally show ?case .
qed

lemma fold_add_sums:
  "fold (\<lambda>e a. add_sums a (f e)) es a = add_sums a (fold (\<lambda>e a. add_sums a (f e)) es (0, 0, 0))"
proof (induction es arbitrary: a)
  case (Cons e es)
  show ?case using Cons.IH [of "add_sums a (f e)"] Cons.IH [of "f e"] by (simp add: add_sums_assoc)
qed simp

lemma fold_entry_sums:
  "fold (\<lambda>e a. add_sums a (1, unat (size_bytes e), length (exact_path e))) es a = add_sums a (entry_sums es)"
  by (induction es arbitrary: a) (simp_all add: add_sums_assoc)

text \<open>The summary of a leaf is exact, and exists when no sum overflows.\<close>

lemma leaf_summary_iff: "leaf_summary l = Inr s \<longleftrightarrow> summary_sums s = entry_sums (leaf_entries l)"
  unfolding leaf_summary_def summary_fold_iff [OF entry_summary_iff] fold_entry_sums by simp

definition child_sums :: "manifest_child list \<Rightarrow> nat \<times> nat \<times> nat" where
  "child_sums cs = fold (\<lambda>c a. add_sums a (summary_sums (child_summary c))) cs (0, 0, 0)"

lemma node_summary_iff: "node_summary n = Inr s \<longleftrightarrow> summary_sums s = child_sums (node_children n)"
proof -
  have "node_summary n = try_fold (\<lambda>s c. res_bind (Inr (child_summary c)) (summary_checked_add s))
      summary_default (node_children n)"
    by (simp add: node_summary_def)
  moreover have iff: "(Inr (child_summary e) :: manifest_summary codec_result) = Inr s \<longleftrightarrow>
      summary_sums s = summary_sums (child_summary e)" for e s
    by (auto dest: summary_sums_inj)
  ultimately show ?thesis
    by (simp only: child_sums_def summary_sums_default summary_fold_iff [OF iff])
qed

text \<open>The length the builder and the validator compute for a leaf is the length of its encoding.\<close>

lemma length_encode_leaf_entry:
  "entry_typed e \<Longrightarrow> encode_leaf_entry e = Inr bs \<Longrightarrow> length bs = 56 + length (exact_path e)"
  by (auto simp: encode_leaf_entry_def res_bind_Inr_iff wr_string_def wr_bytes_iff entry_typed_def
      digest_typed_def)

lemma length_encode_leaf:
  assumes "leaf_typed l" "encode_leaf l = Inr bs"
  shows "length bs = 50 + length (leaf_prefix l) + 56 * length (leaf_entries l)
     + sum_list (map (\<lambda>e. length (exact_path e)) (leaf_entries l))
    \<and> length bs \<le> MAX_MANIFEST_CHUNK_BYTES"
proof -
  from assms(2) obtain s pw n ws where e: "wr_bytes (leaf_prefix l) = Inr pw"
    "try_map encode_leaf_entry (leaf_entries l) = Inr ws"
    "envelope LeafChunk (word_be PAYLOAD_SCHEMA @ pw @ word_be (n :: u32) @ wr_summary s @ concat ws) = Inr bs"
    by (auto simp: encode_leaf_def res_bind_Inr_iff)
  have "length (concat ws) = 56 * length (leaf_entries l)
     + sum_list (map (\<lambda>e. length (exact_path e)) (leaf_entries l))"
    using e(2) assms(1) unfolding try_map_Inr_iff leaf_typed_def
    by (induction rule: list_all2_induct) (auto dest: length_encode_leaf_entry)
  with e(1) envelope_length [OF e(3)] show ?thesis
    by (auto simp: wr_bytes_iff wr_summary_def ENVELOPE_LEN_def maximum_stored_len_def)
qed

lemma leaf_encoded_len_iff:
  "leaf_encoded_len p s = Inr n \<longleftrightarrow>
     n = 50 + length p + 56 * fst (summary_sums s) + snd (snd (summary_sums s)) \<and> n < 2 ^ 64"
  by (auto simp: leaf_encoded_len_def Let_def res_bind_Inr_iff ok_or_Inr_iff usize_checked_add_def
      usize_checked_mul_def summary_sums_def split: if_splits)
end
