(* ===== verification/Manifest.thy ===== *)
theory Manifest
  imports ManifestSums
begin

text \<open>
  What a stored manifest denotes, for any chunk source: the relation \<open>radix\<close> between a
  reference, the keyed entries below it and the references of its subtree. From it follow
  that the streaming iterator returns the entries in order, visiting every chunk once, and
  that a lookup finds the entry with the key of the path, or that there is none.
\<close>

section \<open>Lexicographic order and prefixes\<close>

lemma lex_Cons_le: "(a # as \<le> b # bs) = (a < b \<or> a = b \<and> as \<le> (bs :: bytes))"
  by (simp add: list_le_def) (auto simp: list_less_def)

lemma lex_between_prefix:
  fixes a b c :: bytes
  assumes "a \<le> b" "b \<le> c" "starts_with p a" "starts_with p c"
  shows "starts_with p b"
  using assms
proof (induction p arbitrary: a b c)
  case Nil
  show ?case by (simp add: starts_with_def)
next
  case (Cons q p)
  from Cons.prems(3,4) obtain a' c' where a: "a = q # a'" and c: "c = q # c'"
    by (auto simp: starts_with_iff)
  from Cons.prems(1) a obtain b0 b' where b: "b = b0 # b'" by (cases b) auto
  from Cons.prems(1,2) a b c have "q = b0" and le: "a' \<le> b'" "b' \<le> c'"
    by (auto simp: lex_Cons_le)
  have "starts_with p a'" "starts_with p c'"
    using Cons.prems(3,4) a c by (auto simp: starts_with_iff)
  from Cons.IH [OF le this] show ?case using b \<open>q = b0\<close> by (auto simp: starts_with_iff)
qed

lemma edge_at_prefix: "edge_at (p @ r) (length p) = (case r of [] \<Rightarrow> 0 | b # _ \<Rightarrow> b)"
  by (auto simp: edge_at_def nth_append split: list.split)

lemma lex_append_le: "(p @ a \<le> p @ b) = (a \<le> (b :: bytes))"
  by (induction p) (auto simp: lex_Cons_le)

lemma edge_at_mono:
  fixes a b :: bytes
  assumes "a \<le> b" "starts_with p a" "starts_with p b"
  shows "edge_at a (length p) \<le> edge_at b (length p)"
proof -
  from assms obtain a' b' where ab: "a = p @ a'" "b = p @ b'" by (auto simp: starts_with_iff)
  with assms(1) have "a' \<le> b'" by (simp add: lex_append_le)
  then show ?thesis unfolding ab edge_at_prefix
    by (cases a'; cases b') (auto simp: lex_Cons_le)
qed

lemma common_prefix_take:
  "take (common_prefix_len a b) a = take (common_prefix_len a b) b"
  "common_prefix_len a b \<le> length a" "common_prefix_len a b \<le> length b"
proof -
  have "take (common_prefix_len a b) a = take (common_prefix_len a b) b
      \<and> common_prefix_len a b \<le> length a \<and> common_prefix_len a b \<le> length b"
    unfolding common_prefix_len_def
    by (induction a b rule: list_induct2') auto
  then show "take (common_prefix_len a b) a = take (common_prefix_len a b) b"
    "common_prefix_len a b \<le> length a" "common_prefix_len a b \<le> length b" by auto
qed

lemma starts_with_take: "n \<le> length a \<Longrightarrow> starts_with (take n a) a"
  by (auto simp: starts_with_iff) (metis append_take_drop_id)

lemma common_prefix_starts:
  "starts_with (take (common_prefix_len a b) a) a"
  "starts_with (take (common_prefix_len a b) a) b"
  using starts_with_take [OF common_prefix_take(2)] starts_with_take [OF common_prefix_take(3)]
    common_prefix_take(1) by metis+

text \<open>All keys of a sorted range have the common prefix of its first and its last key.\<close>

lemma sorted_range_prefix:
  fixes ks :: "bytes list"
  assumes "sorted_wrt (<) ks" "k \<in> set ks"
  shows "starts_with (take (common_prefix_len (hd ks) (last ks)) (hd ks)) k"
proof -
  from assms have "hd ks \<le> k"
    by (cases ks) auto
  moreover have "k \<le> last ks"
  proof -
    from assms(2) have ne: "ks \<noteq> []" by auto
    then have "ks = butlast ks @ [last ks]" by simp
    then have "sorted_wrt (<) (butlast ks @ [last ks])" "k \<in> set (butlast ks @ [last ks])"
      using assms by metis+
    then show ?thesis by (auto simp: sorted_wrt_append)
  qed
  ultimately show ?thesis
    using lex_between_prefix common_prefix_starts by metis
qed

section \<open>Well-formed manifests\<close>

text \<open>
  What a reference denotes under a source: the keyed entries below it in order, and the
  references of its subtree in preorder. The height \<open>h\<close> bounds the depth. Every key below a
  child starts with the prefix of its node and continues with the edge of the child; the
  prefix of a chunk is the longest common prefix of its keys; the entries of a node do not
  fit into one leaf.
\<close>

definition key_prefix :: "keyed_entry list \<Rightarrow> bytes" where
  "key_prefix kes =
     take (common_prefix_len (keyed_key (hd kes)) (keyed_key (last kes))) (keyed_key (hd kes))"

definition leaf_size :: "bytes \<Rightarrow> keyed_entry list \<Rightarrow> nat" where
  "leaf_size prefix kes =
     50 + length prefix + 56 * length kes
     + sum_list (map (\<lambda>k. length (exact_path (keyed_entry k))) kes)"

definition leaf_shape :: "manifest_leaf \<Rightarrow> keyed_entry list \<Rightarrow> bool" where
  "leaf_shape leaf kes \<longleftrightarrow>
     leaf_prefix leaf = key_prefix kes
   \<and> (leaf_size (key_prefix kes) kes \<le> MANIFEST_LEAF_TARGET_BYTES \<or> length kes = 1)"

definition node_shape :: "manifest_node \<Rightarrow> keyed_entry list \<Rightarrow> bool" where
  "node_shape node kes \<longleftrightarrow>
     node_prefix node = key_prefix kes
   \<and> MANIFEST_LEAF_TARGET_BYTES < leaf_size (key_prefix kes) kes"

definition under_child :: "manifest_node \<Rightarrow> manifest_child \<Rightarrow> keyed_entry list \<Rightarrow> bool" where
  "under_child node c kes \<longleftrightarrow>
     (\<forall>k \<in> set kes. starts_with (node_prefix node) (keyed_key k)
        \<and> edge_at (keyed_key k) (length (node_prefix node)) = child_edge c)
   \<and> summary_sums (child_summary c) = entry_sums (map keyed_entry kes)"

inductive radix ::
    "external \<Rightarrow> chunk_source \<Rightarrow> nat \<Rightarrow> manifest_ref \<Rightarrow> keyed_entry list \<Rightarrow> manifest_ref list \<Rightarrow> bool"
  for x src where
  radix_leaf:
    "load_chunk x src r = Inr (Leaf leaf bs) \<Longrightarrow> try_map (keyed_of x) (leaf_entries leaf) = Inr kes \<Longrightarrow>
     kes \<noteq> [] \<Longrightarrow> leaf_shape leaf kes \<Longrightarrow> radix x src h r kes [r]"
| radix_node:
    "load_chunk x src r = Inr (Node node bs) \<Longrightarrow> 2 \<le> length (node_children node) \<Longrightarrow>
     sorted_wrt (<) (map child_edge (node_children node)) \<Longrightarrow>
     list_all2 (\<lambda>c (kes, refs). radix x src h (child_ref c) kes refs \<and> under_child node c kes)
       (node_children node) ts \<Longrightarrow>
     node_shape node (concat (map fst ts)) \<Longrightarrow>
     radix x src (Suc h) r (concat (map fst ts)) (r # concat (map snd ts))"

lemma list_all2_pair_impl:
  "list_all2 (\<lambda>c (a, b). P c a b) cs ts \<Longrightarrow> (\<And>c a b. c \<in> set cs \<Longrightarrow> (a, b) \<in> set ts \<Longrightarrow> P c a b \<Longrightarrow> Q c a b)
   \<Longrightarrow> list_all2 (\<lambda>c (a, b). Q c a b) cs ts"
  by (erule list.rel_mono_strong) auto

lemma radix_height_mono: "radix x src h r kes refs \<Longrightarrow> h \<le> h' \<Longrightarrow> radix x src h' r kes refs"
proof (induction arbitrary: h' rule: radix.induct)
  case (radix_node r node bs h ts)
  then obtain k where k: "h' = Suc k" "h \<le> k" by (cases h') auto
  show ?case unfolding k(1)
    by (rule radix.radix_node [OF radix_node.hyps(1-3) _ radix_node.hyps(4)],
        rule list_all2_pair_impl [OF radix_node.IH]) (use k(2) in auto)
qed (rule radix_leaf)

lemma load_chunk_mono:
  "load_chunk x src r = Inr c \<Longrightarrow> (\<And>r bs. src r = Inr bs \<Longrightarrow> src' r = Inr bs) \<Longrightarrow> load_chunk x src' r = Inr c"
  by (auto simp: load_chunk_def res_bind_Inr_iff)

lemma radix_source_mono:
  "radix x src h r kes refs \<Longrightarrow> (\<And>r bs. src r = Inr bs \<Longrightarrow> src' r = Inr bs) \<Longrightarrow> radix x src' h r kes refs"
proof (induction rule: radix.induct)
  case (radix_leaf r leaf bs kes h)
  then show ?case using radix.radix_leaf load_chunk_mono by metis
next
  case (radix_node r node bs h ts)
  show ?case
    by (rule radix.radix_node
          [OF load_chunk_mono [OF radix_node.hyps(1) radix_node.prems] radix_node.hyps(2-3) _ radix_node.hyps(4)],
        assumption, rule list_all2_pair_impl [OF radix_node.IH]) (use radix_node.prems in auto)
qed

inductive_cases radixE: "radix x src h r kes refs"

lemma radix_refs_hd: "radix x src h r kes refs \<Longrightarrow> \<exists>rest. refs = r # rest"
  by (erule radix.cases) auto

lemma concat_fst_nonempty:
  "list_all2 (\<lambda>c (a, b). a \<noteq> []) cs ts \<Longrightarrow> length cs \<le> length (concat (map fst ts))"
  by (induction rule: list_all2_induct) (auto simp: Suc_le_eq neq_Nil_conv)

lemma radix_nonempty: "radix x src h r kes refs \<Longrightarrow> kes \<noteq> []"
proof (induction rule: radix.induct)
  case (radix_node r node bs h ts)
  have "list_all2 (\<lambda>c (a, b). a \<noteq> []) (node_children node) ts"
    by (rule list_all2_pair_impl [OF radix_node.IH]) auto
  from concat_fst_nonempty [OF this] radix_node.hyps(2)
  have "0 < length (concat (map fst ts))" by linarith
  then show ?case by simp
qed

text \<open>A reference denotes one thing.\<close>

lemma radix_det:
  "radix x src h r kes refs \<Longrightarrow> radix x src h' r kes' refs' \<Longrightarrow> kes' = kes \<and> refs' = refs"
proof (induction arbitrary: h' kes' refs' rule: radix.induct)
  case (radix_leaf r leaf bs kes h)
  from radix_leaf.prems radix_leaf.hyps show ?case by (cases rule: radix.cases) auto
next
  case (radix_node r node bs h ts)
  from radix_node.prems radix_node.hyps(1) obtain ts' h'' where t:
    "kes' = concat (map fst ts')" "refs' = r # concat (map snd ts')"
    "list_all2 (\<lambda>c (kes, refs). radix x src h'' (child_ref c) kes refs \<and> under_child node c kes)
       (node_children node) ts'"
    by (cases rule: radix.cases) auto
  have "ts' = ts"
  proof (rule nth_equalityI)
    show "length ts' = length ts"
      using list_all2_lengthD [OF t(3)] list_all2_lengthD [OF radix_node.IH] by simp
    fix i assume "i < length ts'"
    then have i: "i < length (node_children node)" using list_all2_lengthD [OF t(3)] by simp
    obtain a b where ab: "ts ! i = (a, b)" by fastforce
    obtain a' b' where ab': "ts' ! i = (a', b')" by fastforce
    from list_all2_nthD [OF radix_node.IH i] list_all2_nthD [OF t(3) i]
    show "ts' ! i = ts ! i" unfolding ab ab' by auto
  qed
  with t show ?case by simp
qed

text \<open>Subtrees denote parts, proper ones below the root.\<close>

lemma length_part_lt:
  assumes "list_all2 (\<lambda>c (a, b). a \<noteq> []) cs ts" "2 \<le> length cs" "(a, b) \<in> set ts"
  shows "length a < length (concat (map fst ts))"
proof -
  obtain us vs where ts: "ts = us @ (a, b) # vs" using assms(3) by (meson split_list)
  have ne: "\<forall>t \<in> set ts. fst t \<noteq> []"
    using assms(1) by (induction rule: list_all2_induct) auto
  have "us \<noteq> [] \<or> vs \<noteq> []" using assms(1,2) ts by (auto dest: list_all2_lengthD)
  with ne ts have "0 < length (concat (map fst us)) + length (concat (map fst vs))"
    by (cases us; cases vs) auto
  then show ?thesis unfolding ts by simp
qed

lemma radix_subtree:
  "radix x src h r kes refs \<Longrightarrow> v \<in> set refs \<Longrightarrow>
   \<exists>k ev rv. radix x src k v ev rv \<and> set ev \<subseteq> set kes \<and> (v = r \<and> ev = kes \<or> length ev < length kes)"
proof (induction rule: radix.induct)
  case (radix_leaf r leaf bs kes h)
  then show ?case using radix.radix_leaf by fastforce
next
  case (radix_node r node bs h ts)
  have whole: "radix x src (Suc h) r (concat (map fst ts)) (r # concat (map snd ts))"
    by (rule radix.radix_node [OF radix_node.hyps(1-3) _ radix_node.hyps(4)],
        rule list_all2_pair_impl [OF radix_node.IH]) auto
  show ?case
  proof (cases "v = r")
    case True
    with whole show ?thesis by blast
  next
    case False
    with radix_node.prems obtain a b where ab: "(a, b) \<in> set ts" "v \<in> set b" by auto
    then obtain i where i: "i < length ts" "ts ! i = (a, b)" by (auto simp: in_set_conv_nth)
    have l: "i < length (node_children node)" using i list_all2_lengthD [OF radix_node.IH] by simp
    from list_all2_nthD [OF radix_node.IH l] i ab obtain k ev rv where
      s: "radix x src k v ev rv" "set ev \<subseteq> set a" "length ev \<le> length a"
      by fastforce
    have "list_all2 (\<lambda>c (a, b). a \<noteq> []) (node_children node) ts"
      by (rule list_all2_pair_impl [OF radix_node.IH]) (auto dest: radix_nonempty)
    from length_part_lt [OF this radix_node.hyps(2) ab(1)] s ab(1) show ?thesis by fastforce
  qed
qed

lemma distinct_concat_disjoint:
  "distinct (concat xss) \<Longrightarrow> i < length xss \<Longrightarrow> j < length xss \<Longrightarrow> i \<noteq> j \<Longrightarrow> set (xss ! i) \<inter> set (xss ! j) = {}"
proof (induction xss arbitrary: i j)
  case (Cons xs xss)
  have sub: "set (xss ! k) \<subseteq> set (concat xss)" if "k < length xss" for k
    using nth_mem [OF that] by auto
  have dis: "set xs \<inter> set (concat xss) = {}" and d: "distinct (concat xss)"
    using Cons.prems(1) by (simp_all only: concat.simps distinct_append)
  consider (a) k where "i = 0" "j = Suc k" "k < length xss" | (b) k where "j = 0" "i = Suc k" "k < length xss"
    | (c) k l where "i = Suc k" "j = Suc l" "k < length xss" "l < length xss" "k \<noteq> l"
    using Cons.prems(2-4) by (cases i; cases j) auto
  then show ?case
  proof cases
    case a
    then show ?thesis using sub [of k] dis by auto
  next
    case b
    then show ?thesis using sub [of k] dis by auto
  next
    case c
    then show ?thesis using Cons.IH [OF d, of k l] by simp
  qed
qed simp

lemma distinct_concatI:
  "(\<And>i. i < length xss \<Longrightarrow> distinct (xss ! i)) \<Longrightarrow>
   (\<And>i j. i < length xss \<Longrightarrow> j < length xss \<Longrightarrow> i \<noteq> j \<Longrightarrow> set (xss ! i) \<inter> set (xss ! j) = {}) \<Longrightarrow>
   distinct (concat xss)"
proof (induction xss)
  case (Cons xs xss)
  have "distinct (concat xss)"
  proof (rule Cons.IH)
    fix i assume "i < length xss"
    then show "distinct (xss ! i)" using Cons.prems(1) [of "Suc i"] by simp
  next
    fix i j assume "i < length xss" "j < length xss" "i \<noteq> j"
    then show "set (xss ! i) \<inter> set (xss ! j) = {}" using Cons.prems(2) [of "Suc i" "Suc j"] by simp
  qed
  moreover have "set xs \<inter> set ys = {}" if "ys \<in> set xss" for ys
  proof -
    from that obtain j where "j < length xss" "xss ! j = ys" by (auto simp: in_set_conv_nth)
    then show ?thesis using Cons.prems(2) [of 0 "Suc j"] by simp
  qed
  ultimately show ?case using Cons.prems(1) [of 0] by auto
qed simp

lemma radix_refs_distinct: "radix x src h r kes refs \<Longrightarrow> distinct kes \<Longrightarrow> distinct refs"
proof (induction rule: radix.induct)
  case (radix_node r node bs h ts)
  have sub: "list_all2 (\<lambda>c (kes, refs). radix x src h (child_ref c) kes refs) (node_children node) ts"
    by (rule list_all2_pair_impl [OF radix_node.IH]) auto
  have whole: "radix x src (Suc h) r (concat (map fst ts)) (r # concat (map snd ts))"
    by (rule radix.radix_node [OF radix_node.hyps(1-3) _ radix_node.hyps(4)],
        rule list_all2_pair_impl [OF radix_node.IH]) auto
  have len: "length (node_children node) = length ts" using list_all2_lengthD [OF sub] .
  have ne: "list_all2 (\<lambda>c (a, b). a \<noteq> []) (node_children node) ts"
    by (rule list_all2_pair_impl [OF radix_node.IH]) (auto dest: radix_nonempty)
  have d: "distinct (concat (map fst ts))" by (rule radix_node.prems)
  have child: "radix x src h (child_ref (node_children node ! i)) (fst (ts ! i)) (snd (ts ! i))"
    if "i < length ts" for i
    using list_all2_nthD [OF sub, of i] that len by (cases "ts ! i") auto
  have "distinct (concat (map snd ts))"
  proof (rule distinct_concatI)
    fix i assume i: "i < length (map snd ts)"
    have "distinct (fst (ts ! i))"
      using d i by (auto simp: distinct_concat_iff)
    with list_all2_nthD [OF radix_node.IH, of i] i len show "distinct (map snd ts ! i)"
      by (cases "ts ! i") auto
  next
    fix i j assume ij: "i < length (map snd ts)" "j < length (map snd ts)" "i \<noteq> j"
    show "set (map snd ts ! i) \<inter> set (map snd ts ! j) = {}"
    proof (rule ccontr)
      assume "set (map snd ts ! i) \<inter> set (map snd ts ! j) \<noteq> {}"
      then obtain v where v: "v \<in> set (snd (ts ! i))" "v \<in> set (snd (ts ! j))" using ij by auto
      from radix_subtree [OF child v(1)] ij obtain k ev rv where
        1: "radix x src k v ev rv" "set ev \<subseteq> set (fst (ts ! i))" by auto
      from radix_subtree [OF child v(2)] ij obtain k' ev' rv' where
        2: "radix x src k' v ev' rv'" "set ev' \<subseteq> set (fst (ts ! j))" by auto
      have "ev' = ev" using radix_det [OF 1(1) 2(1)] by simp
      moreover have "set (fst (ts ! i)) \<inter> set (fst (ts ! j)) = {}"
        using distinct_concat_disjoint [OF d, of i j] ij by simp
      ultimately show False using 1 2 radix_nonempty [OF 1(1)] by (cases ev) auto
    qed
  qed
  moreover have "r \<notin> set (concat (map snd ts))"
  proof
    assume "r \<in> set (concat (map snd ts))"
    then obtain t where "t \<in> set ts" and r: "r \<in> set (snd t)" by auto
    then obtain i where "i < length ts" "ts ! i = t" using in_set_conv_nth [of t ts] by blast
    with r have i: "i < length ts" "r \<in> set (snd (ts ! i))" by simp_all
    from radix_subtree [OF child [OF i(1)] i(2)] obtain k ev rv where
      1: "radix x src k r ev rv" "length ev \<le> length (fst (ts ! i))" by force
    have "ev = concat (map fst ts)" using radix_det [OF whole 1(1)] by simp
    moreover have "(fst (ts ! i), snd (ts ! i)) \<in> set ts" using i by simp
    ultimately show False
      using length_part_lt [OF ne radix_node.hyps(2)] 1(2) by fastforce
  qed
  ultimately show ?case by simp
qed simp

section \<open>Iteration\<close>

lemma try_map_keyed_entry: "try_map (keyed_of x) es = Inr kes \<Longrightarrow> map keyed_entry kes = es"
  unfolding try_map_Inr_iff
  by (erule list_all2_map_cong) (auto simp: keyed_of_def res_bind_Inr_iff)

lemma try_map_keyed_key:
  "try_map (keyed_of x) es = Inr kes \<Longrightarrow> i < length es \<Longrightarrow>
   portable_path_key_v1 x (exact_path (es ! i)) = Inr (keyed_key (kes ! i))"
proof -
  assume "try_map (keyed_of x) es = Inr kes" "i < length es"
  then have "keyed_of x (es ! i) = Inr (kes ! i)"
    by (simp add: try_map_Inr_iff list_all2_conv_all_nth)
  then obtain k where "portable_path_key_v1 x (exact_path (es ! i)) = Inr k"
    "kes ! i = \<lparr>keyed_key = k, keyed_entry = es ! i\<rparr>"
    by (auto simp: keyed_of_def res_bind_Inr_iff)
  then show ?thesis by simp
qed

definition iter_state :: "manifest_ref list \<Rightarrow> manifest_ref list \<Rightarrow> leaf_entry list \<Rightarrow> manifest_iter" where
  "iter_state p v le =
     \<lparr>iter_pending = p, iter_visited = v, iter_leaf_entries = le, iter_failed = False\<rparr>"

lemma iter_collect_entry:
  "iter_collect x src (iter_state p v (e # le)) =
     Option.bind (iter_collect x src (iter_state p v le))
       (\<lambda>rest. Some (case rest of Inl err \<Rightarrow> Inl err | Inr es \<Rightarrow> Inr (e # es)))"
  by (subst iter_collect.simps) (simp add: iter_next_def iter_state_def iter_loop.simps)

lemma iter_collect_entries:
  "iter_collect x src (iter_state p v le) =
     Option.bind (iter_collect x src (iter_state p v []))
       (\<lambda>rest. Some (case rest of Inl err \<Rightarrow> Inl err | Inr es \<Rightarrow> Inr (le @ es)))"
proof (induction le)
  case Nil
  show ?case by (cases "iter_collect x src (iter_state p v [])") (auto split: sum.split)
next
  case (Cons e le)
  then show ?case unfolding iter_collect_entry
    by (cases "iter_collect x src (iter_state p v [])") (auto split: sum.split)
qed

lemma iter_collect_end: "iter_collect x src (iter_state [] v []) = Some (Inr [])"
  by (subst iter_collect.simps) (simp add: iter_next_def iter_state_def iter_loop.simps)

lemma iter_collect_step:
  assumes "iter_loop x src (iter_state p v le) = iter_loop x src (iter_state p' v' le')"
  shows "iter_collect x src (iter_state p v le) = iter_collect x src (iter_state p' v' le')"
proof -
  have "iter_next x src (iter_state p v le) = iter_next x src (iter_state p' v' le')"
    using assms by (simp add: iter_next_def iter_state_def)
  then show ?thesis
    by (subst (1 2) iter_collect.simps) simp
qed

lemma iter_loop_leaf:
  "r \<notin> set v \<Longrightarrow> load_chunk x src r = Inr (Leaf leaf bs) \<Longrightarrow>
   iter_loop x src (iter_state (r # p) v []) = iter_loop x src (iter_state p (r # v) (leaf_entries leaf))"
  by (subst iter_loop.simps) (simp add: iter_state_def)

lemma iter_loop_node:
  "r \<notin> set v \<Longrightarrow> load_chunk x src r = Inr (Node node bs) \<Longrightarrow>
   iter_loop x src (iter_state (r # p) v [])
     = iter_loop x src (iter_state (map child_ref (node_children node) @ p) (r # v) [])"
  by (subst iter_loop.simps) (simp add: iter_state_def)

lemma iter_collect_pending:
  assumes "list_all2 (\<lambda>r (kes, refs). \<exists>h. radix x src h r kes refs) p ts"
    and "distinct (concat (map snd ts))" and "set v \<inter> set (concat (map snd ts)) = {}"
  shows "iter_collect x src (iter_state p v le)
           = Some (Inr (le @ map keyed_entry (concat (map fst ts))))"
  using assms
proof (induction "length (concat (map snd ts))" arbitrary: p ts v le rule: less_induct)
  case less
  have "iter_collect x src (iter_state p v []) = Some (Inr (map keyed_entry (concat (map fst ts))))"
  proof (cases p)
    case Nil
    with less.prems(1) show ?thesis by (simp add: iter_collect_end)
  next
    case p: (Cons r p')
    with less.prems(1) obtain kes refs ts' h where ts: "ts = (kes, refs) # ts'"
      and rad: "radix x src h r kes refs"
      and rest: "list_all2 (\<lambda>r (kes, refs). \<exists>h. radix x src h r kes refs) p' ts'"
      by (auto simp: list_all2_Cons1)
    have rv: "r \<notin> set v" using radix_refs_hd [OF rad] less.prems(3) ts by auto
    from rad show ?thesis
    proof (cases rule: radix.cases)
      case (radix_leaf leaf bs)
      have "iter_collect x src (iter_state p' (r # v) (leaf_entries leaf))
          = Some (Inr (leaf_entries leaf @ map keyed_entry (concat (map fst ts'))))"
        by (rule less.hyps) (use less.prems rest ts radix_leaf in auto)
      with iter_collect_step [OF iter_loop_leaf [OF rv radix_leaf(2)], of p'] show ?thesis
        unfolding p ts using try_map_keyed_entry [OF radix_leaf(3)] by simp
    next
      case (radix_node node bs k us)
      have sub: "list_all2 (\<lambda>r (kes, refs). \<exists>h. radix x src h r kes refs)
          (map child_ref (node_children node)) us"
        unfolding list_all2_map1
        by (rule list_all2_pair_impl [OF radix_node(7)]) auto
      have "iter_collect x src (iter_state (map child_ref (node_children node) @ p') (r # v) [])
          = Some (Inr ([] @ map keyed_entry (concat (map fst (us @ ts')))))"
        by (rule less.hyps) (use less.prems ts radix_node(3) list_all2_appendI [OF sub rest] in auto)
      with iter_collect_step [OF iter_loop_node [OF rv radix_node(4)], of p'] show ?thesis
        unfolding p ts using radix_node by simp
    qed
  qed
  then show ?case by (subst iter_collect_entries) simp
qed

lemma iter_collect_radix:
  assumes "radix x src h r kes refs" "distinct kes"
  shows "iter_collect x src (manifest_iter_new (Some r)) = Some (Inr (map keyed_entry kes))"
proof -
  have "iter_collect x src (iter_state [r] [] []) = Some (Inr ([] @ map keyed_entry (concat (map fst [(kes, refs)]))))"
    by (rule iter_collect_pending) (use assms radix_refs_distinct in auto)
  then show ?thesis by (simp add: manifest_iter_new_def iter_state_def)
qed

section \<open>Lookup\<close>

text \<open>Both binary searches, on strictly increasing keys.\<close>

lemma strict_sorted_nth:
  "sorted_wrt (<) ks \<Longrightarrow> i < length ks \<Longrightarrow> j < length ks \<Longrightarrow> ks ! i < (ks ! j :: 'a::linorder) \<longleftrightarrow> i < j"
  by (metis linorder_neqE_nat order_less_asym order_less_irrefl sorted_wrt_nth_less)

lemma find_key_nth:
  assumes "sorted_wrt (<) (map f xs)" "i < length xs" "f (xs ! i) = (key :: 'a::linorder)"
  shows "find (\<lambda>k. f k = key) xs = Some (xs ! i)"
  using assms
proof (induction xs arbitrary: i)
  case (Cons x xs)
  then show ?case
  proof (cases i)
    case (Suc j)
    then have "f x < key" using Cons.prems by auto
    then show ?thesis using Cons Suc by auto
  qed auto
qed simp

lemma leaf_search_find:
  assumes kes: "try_map (keyed_of x) es = Inr kes" and srt: "sorted_wrt (<) (map keyed_key kes)"
  shows "high \<le> length es \<Longrightarrow> \<forall>i < low. keyed_key (kes ! i) < key \<Longrightarrow>
    \<forall>i < length es. high \<le> i \<longrightarrow> key < keyed_key (kes ! i) \<Longrightarrow>
    leaf_search x es key low high = Inr (map_option keyed_entry (find (\<lambda>k. keyed_key k = key) kes))"
proof (induction "high - low" arbitrary: low high rule: less_induct)
  case less
  have len: "length kes = length es" using try_map_length [OF kes] .
  have nth: "es ! i = keyed_entry (kes ! i)" if "i < length es" for i
    using try_map_keyed_entry [OF kes] that len by (metis nth_map)
  have cmp: "keyed_key (kes ! i) < keyed_key (kes ! j) \<longleftrightarrow> i < j" if "i < length es" "j < length es" for i j
    using strict_sorted_nth [OF srt, of i j] that len by simp
  show ?case
  proof (cases "low < high")
    case False
    have "keyed_key (kes ! i) \<noteq> key" if "i < length kes" for i
      using less.prems False that len by (cases "i < low") (auto simp: not_less)
    then have "find (\<lambda>k. keyed_key k = key) kes = None"
      by (auto simp: find_None_iff in_set_conv_nth)
    then show ?thesis using False by (subst leaf_search.simps) simp
  next
    case True
    define m where "m = low + (high - low) div 2"
    have m: "low \<le> m" "m < high" using True by (auto simp: m_def)
    then have ml: "m < length es" using less.prems by simp
    have pk: "portable_path_key_v1 x (exact_path (es ! m)) = Inr (keyed_key (kes ! m))"
      using try_map_keyed_key [OF kes ml] .
    have unf: "leaf_search x es key low high =
       (if keyed_key (kes ! m) < key then leaf_search x es key (m + 1) high
        else if key < keyed_key (kes ! m) then leaf_search x es key low m
        else Inr (Some (es ! m)))"
      using True pk by (subst leaf_search.simps) (simp add: Let_def m_def)
    consider (lt) "keyed_key (kes ! m) < key" | (gt) "key < keyed_key (kes ! m)" | (eq) "keyed_key (kes ! m) = key"
      by (meson linorder_cases)
    then show ?thesis
    proof cases
      case lt
      have "keyed_key (kes ! i) < key" if "i < m + 1" for i
      proof (cases "i = m")
        case False
        with that ml cmp [of i m] lt show ?thesis by simp
      qed (use lt in simp)
      with less.hyps [of high "m + 1"] m less.prems unf lt show ?thesis by simp
    next
      case gt
      then have ng: "\<not> keyed_key (kes ! m) < key" by auto
      have "key < keyed_key (kes ! i)" if "i < length es" "m \<le> i" for i
      proof (cases "i = m")
        case False
        with that ml cmp [of m i] gt show ?thesis by simp
      qed (use gt in simp)
      with less.hyps [of m low] m less.prems unf gt ng show ?thesis by simp
    next
      case eq
      have "find (\<lambda>k. keyed_key k = key) kes = Some (kes ! m)"
        using find_key_nth [OF srt _ eq] ml len by simp
      with unf eq nth [OF ml] show ?thesis by simp
    qed
  qed
qed

lemma edge_search_spec:
  assumes srt: "sorted_wrt (<) (map child_edge cs)"
  shows "high \<le> length cs \<Longrightarrow> \<forall>i < low. child_edge (cs ! i) < edge \<Longrightarrow>
    \<forall>i < length cs. high \<le> i \<longrightarrow> edge < child_edge (cs ! i) \<Longrightarrow>
    (case edge_search cs edge low high of
       None \<Rightarrow> \<forall>i < length cs. child_edge (cs ! i) \<noteq> edge
     | Some i \<Rightarrow> i < length cs \<and> child_edge (cs ! i) = edge)"
proof (induction "high - low" arbitrary: low high rule: less_induct)
  case less
  have cmp: "child_edge (cs ! i) < child_edge (cs ! j) \<longleftrightarrow> i < j" if "i < length cs" "j < length cs" for i j
    using strict_sorted_nth [OF srt, of i j] that by simp
  show ?case
  proof (cases "low < high")
    case False
    have "child_edge (cs ! i) \<noteq> edge" if "i < length cs" for i
      using less.prems False that by (cases "i < low") (auto simp: not_less)
    then show ?thesis using False by (subst edge_search.simps) simp
  next
    case True
    define m where "m = low + (high - low) div 2"
    have m: "low \<le> m" "m < high" using True by (auto simp: m_def)
    then have ml: "m < length cs" using less.prems by simp
    have unf: "edge_search cs edge low high =
       (if child_edge (cs ! m) < edge then edge_search cs edge (m + 1) high
        else if edge < child_edge (cs ! m) then edge_search cs edge low m
        else Some m)"
      using True by (subst edge_search.simps) (simp add: Let_def m_def)
    consider (lt) "child_edge (cs ! m) < edge" | (gt) "edge < child_edge (cs ! m)" | (eq) "child_edge (cs ! m) = edge"
      by (meson linorder_cases)
    then show ?thesis
    proof cases
      case lt
      have "child_edge (cs ! i) < edge" if "i < m + 1" for i
      proof (cases "i = m")
        case False
        with that ml cmp [of i m] have "child_edge (cs ! i) < child_edge (cs ! m)" by simp
        from this lt show ?thesis by (rule order.strict_trans)
      qed (use lt in simp)
      with less.hyps [of high "m + 1"] m less.prems unf lt show ?thesis by simp
    next
      case gt
      then have ng: "\<not> child_edge (cs ! m) < edge" by auto
      have "edge < child_edge (cs ! i)" if "i < length cs" "m \<le> i" for i
      proof (cases "i = m")
        case False
        with that ml cmp [of m i] have "child_edge (cs ! m) < child_edge (cs ! i)" by simp
        from gt this show ?thesis by (rule order.strict_trans)
      qed (use gt in simp)
      with less.hyps [of m low] m less.prems unf gt ng show ?thesis by simp
    next
      case eq
      with unf ml show ?thesis by simp
    qed
  qed
qed

lemma sorted_wrt_concat_part: "sorted_wrt R (concat xss) \<Longrightarrow> xs \<in> set xss \<Longrightarrow> sorted_wrt R xs"
  by (induction xss) (auto simp: sorted_wrt_append)

lemma find_concat_part:
  "i < length xss \<Longrightarrow> (\<And>j k. j < length xss \<Longrightarrow> j \<noteq> i \<Longrightarrow> k \<in> set (xss ! j) \<Longrightarrow> \<not> P k) \<Longrightarrow>
   find P (concat xss) = find P (xss ! i)"
proof (induction xss arbitrary: i)
  case (Cons xs xss)
  show ?case
  proof (cases i)
    case 0
    have "\<not> P k" if "k \<in> set (concat xss)" for k
    proof -
      from that obtain j where "j < length xss" "k \<in> set (xss ! j)"
        by (auto simp: in_set_conv_nth) (metis in_set_conv_nth)
      then show ?thesis using Cons.prems(2) [of "Suc j" k] 0 by simp
    qed
    then have "find P (concat xss) = None" unfolding find_None_iff by blast
    then show ?thesis using 0 by (simp add: find_append split: option.split)
  next
    case (Suc j)
    have "find P xs = None" using Cons.prems(2) [of 0] Suc by (auto simp: find_None_iff)
    moreover have "find P (concat xss) = find P (xss ! j)"
    proof (rule Cons.IH)
      show "j < length xss" using Cons.prems(1) Suc by simp
      fix l k assume "l < length xss" "l \<noteq> j" "k \<in> set (xss ! l)"
      then show "\<not> P k" using Cons.prems(2) [of "Suc l" k] Suc by simp
    qed
    ultimately show ?thesis using Suc by (simp add: find_append)
  qed
qed simp

lemma lookup_loop_radix:
  "radix x src h r kes refs \<Longrightarrow> sorted_wrt (<) (map keyed_key kes) \<Longrightarrow> h < n \<Longrightarrow>
   lookup_loop x src key n r = Inr (map_option keyed_entry (find (\<lambda>k. keyed_key k = key) kes))"
proof (induction arbitrary: n rule: radix.induct)
  case (radix_leaf r leaf bs kes h)
  then obtain n' where n: "n = Suc n'" by (cases n) auto
  have "leaf_search x (leaf_entries leaf) key 0 (length (leaf_entries leaf))
     = Inr (map_option keyed_entry (find (\<lambda>k. keyed_key k = key) kes))"
    by (rule leaf_search_find [OF radix_leaf.hyps(2) radix_leaf.prems(1)]) auto
  then show ?case using radix_leaf.hyps(1) n by simp
next
  case (radix_node r node bs h ts)
  then obtain n' where n: "n = Suc n'" "h < n'" by (cases n) auto
  let ?p = "node_prefix node" and ?cs = "node_children node"
  let ?P = "\<lambda>k. keyed_key k = key"
  have len: "length ts = length ?cs" using list_all2_lengthD [OF radix_node.IH] by simp
  have child: "\<forall>k \<in> set (fst (ts ! i)). starts_with ?p (keyed_key k)
      \<and> edge_at (keyed_key k) (length ?p) = child_edge (?cs ! i)" if "i < length ?cs" for i
    using list_all2_nthD [OF radix_node.IH that] by (cases "ts ! i") (auto simp: under_child_def)
  show ?case
  proof (cases "starts_with ?p key")
    case False
    have "find ?P (concat (map fst ts)) = None"
      unfolding find_None_iff
    proof clarify
      fix k assume "k \<in> set (concat (map fst ts))" and "key = keyed_key k"
      then obtain i where "i < length ts" "k \<in> set (fst (ts ! i))"
        by (auto simp: in_set_conv_nth) (metis fst_conv in_set_conv_nth)
      with child [of i] len False \<open>key = keyed_key k\<close> show False by auto
    qed
    with False radix_node.hyps(1) n show ?thesis by simp
  next
    case True
    let ?e = "edge_at key (length ?p)"
    have search: "case edge_search ?cs ?e 0 (length ?cs) of
       None \<Rightarrow> \<forall>i < length ?cs. child_edge (?cs ! i) \<noteq> ?e
     | Some i \<Rightarrow> i < length ?cs \<and> child_edge (?cs ! i) = ?e"
      by (rule edge_search_spec [OF radix_node.hyps(3)]) auto
    show ?thesis
    proof (cases "edge_search ?cs ?e 0 (length ?cs)")
      case None
      have "find ?P (concat (map fst ts)) = None"
        unfolding find_None_iff
      proof clarify
        fix k assume "k \<in> set (concat (map fst ts))" and "key = keyed_key k"
        then obtain i where "i < length ts" "k \<in> set (fst (ts ! i))"
          by (auto simp: in_set_conv_nth) (metis fst_conv in_set_conv_nth)
        with child [of i] len None search \<open>key = keyed_key k\<close> show False by auto
      qed
      with True None radix_node.hyps(1) n show ?thesis by simp
    next
      case (Some i)
      with search have i: "i < length ?cs" "child_edge (?cs ! i) = ?e" by auto
      have "find ?P (concat (map fst ts)) = find ?P (map fst ts ! i)"
      proof (rule find_concat_part)
        show "i < length (map fst ts)" using i len by simp
        fix j k assume j: "j < length (map fst ts)" "j \<noteq> i" "k \<in> set (map fst ts ! j)"
        have "child_edge (?cs ! j) \<noteq> child_edge (?cs ! i)"
          using strict_sorted_nth [OF radix_node.hyps(3), of i j]
            strict_sorted_nth [OF radix_node.hyps(3), of j i] i j len by auto
        then show "\<not> ?P k" using child [of j] j i len by auto
      qed
      moreover have "sorted_wrt (<) (map keyed_key (fst (ts ! i)))"
        by (rule sorted_wrt_concat_part [of _ "map (map keyed_key) (map fst ts)"])
          (use radix_node.prems(1) i len in \<open>auto simp: map_concat\<close>)
      moreover obtain a b where ab: "ts ! i = (a, b)" by fastforce
      ultimately have "lookup_loop x src key n' (child_ref (?cs ! i))
          = Inr (map_option keyed_entry (find ?P (concat (map fst ts))))"
        using list_all2_nthD [OF radix_node.IH i(1)] n i len by auto
      with True Some radix_node.hyps(1) n show ?thesis by simp
    qed
  qed
qed

section \<open>A manifest is determined by its entries\<close>

lemma load_chunk_leaf_ref:
  "load_chunk x src r = Inr (Leaf l bs) \<Longrightarrow>
   encode_leaf l = Inr bs \<and> leaf_typed l
   \<and> r = \<lparr>ref_kind = LeafChunk, ref_id = domain_hash (blake3 x) LEAF_HASH_DOMAIN bs\<rparr>"
  by (cases "ref_kind r") (auto simp: load_chunk_def res_simps from_codec_def verify_manifest_id_def
      manifest_id_def leaf_codec_canonical split: if_splits intro!: manifest_ref.equality)

lemma load_chunk_node_ref:
  "load_chunk x src r = Inr (Node n bs) \<Longrightarrow>
   encode_node n = Inr bs \<and> node_typed n
   \<and> r = \<lparr>ref_kind = NodeChunk, ref_id = domain_hash (blake3 x) NODE_HASH_DOMAIN bs\<rparr>"
  by (cases "ref_kind r") (auto simp: load_chunk_def res_simps from_codec_def verify_manifest_id_def
      manifest_id_def node_codec_canonical split: if_splits intro!: manifest_ref.equality)

lemma grouping_unique:
  fixes gs hs :: "('e::linorder \<times> 'a list) list"
  assumes "sorted_wrt (<) (map fst gs)" "sorted_wrt (<) (map fst hs)"
    and "\<forall>(e, ks) \<in> set gs. ks \<noteq> [] \<and> (\<forall>k \<in> set ks. f k = e)"
    and "\<forall>(e, ks) \<in> set hs. ks \<noteq> [] \<and> (\<forall>k \<in> set ks. f k = e)"
    and "concat (map snd gs) = concat (map snd hs)"
  shows "gs = hs"
  using assms
proof (induction gs arbitrary: hs)
  case Nil
  then show ?case by (cases hs) auto
next
  case (Cons g gs)
  obtain e ks where g: "g = (e, ks)" by (cases g)
  obtain e' ks' hs' where hs: "hs = (e', ks') # hs'"
    using Cons.prems(3,5) g by (cases hs) auto
  have tw: "takeWhile (\<lambda>k. f k = a) (us @ concat (map snd rest)) = us"
    if t1: "\<forall>k \<in> set us. f k = a" and t2: "\<forall>(b, vs) \<in> set rest. a < b \<and> vs \<noteq> [] \<and> (\<forall>k \<in> set vs. f k = b)"
    for a :: 'e and us and rest :: "('e \<times> 'a list) list"
  proof (cases rest)
    case (Cons r rs)
    then obtain b v vs where "r = (b, v # vs)" "a < b" "f v = b"
      using t2 by (cases r) (auto simp: neq_Nil_conv)
    then show ?thesis using t1 Cons by (subst takeWhile_append2) auto
  qed (use t1 in simp)
  have "e = e'"
  proof -
    have "hd (concat (map snd (g # gs))) = hd ks" using Cons.prems(3) g by auto
    moreover have "hd (concat (map snd hs)) = hd ks'" using Cons.prems(4) hs by auto
    ultimately have "hd ks = hd ks'" using Cons.prems(5) by simp
    then show ?thesis using Cons.prems(3,4) g hs by auto (metis hd_in_set)
  qed
  moreover have "ks = takeWhile (\<lambda>k. f k = e) (concat (map snd (g # gs)))"
    using tw [of ks e gs] Cons.prems(1,3) g by fastforce
  moreover have "ks' = takeWhile (\<lambda>k. f k = e') (concat (map snd hs))"
    using tw [of ks' e' hs'] Cons.prems(2,4) hs by fastforce
  ultimately have "ks = ks'" using Cons.prems(5) by simp
  moreover have "gs = hs'"
    by (rule Cons.IH) (use Cons.prems g hs \<open>ks = ks'\<close> in auto)
  ultimately show ?case using g hs \<open>e = e'\<close> by simp
qed

lemma radix_length: "radix x src h r kes refs \<Longrightarrow> 0 < length kes"
  using radix_nonempty by fastforce

lemma under_child_sub:
  "list_all2 (\<lambda>c (kes, refs). radix x src h (child_ref c) kes refs \<and> under_child node c kes) cs ts \<Longrightarrow>
   \<forall>(e, ks) \<in> set (zip (map child_edge cs) (map fst ts)). ks \<noteq> []
     \<and> (\<forall>k \<in> set ks. edge_at (keyed_key k) (length (node_prefix node)) = e)"
  by (induction rule: list_all2_induct) (auto simp: under_child_def dest: radix_nonempty)

lemma radix_unique:
  "radix x src h r kes refs \<Longrightarrow> radix x src' h' r' kes refs' \<Longrightarrow> r' = r"
proof (induction arbitrary: r' h' refs' rule: radix.induct)
  case (radix_leaf r leaf bs kes h)
  from radix_leaf.prems show ?case
  proof (cases rule: radix.cases)
    case (radix_leaf leaf' bs')
    have "leaf_entries leaf' = leaf_entries leaf"
      using try_map_keyed_entry radix_leaf(3) radix_leaf.hyps(2) by metis
    moreover have "leaf_prefix leaf' = leaf_prefix leaf"
      using radix_leaf(5) radix_leaf.hyps(4) by (simp add: leaf_shape_def)
    ultimately have "leaf' = leaf" by simp
    then show ?thesis
      using load_chunk_leaf_ref [OF radix_leaf(2)] load_chunk_leaf_ref [OF radix_leaf.hyps(1)] by simp
  next
    case (radix_node node bs' k us)
    have "2 \<le> length kes"
    proof -
      have "list_all2 (\<lambda>c (a, b). a \<noteq> []) (node_children node) us"
        by (rule list_all2_pair_impl [OF radix_node(7)]) (auto dest: radix_nonempty)
      from concat_fst_nonempty [OF this] radix_node show ?thesis by simp
    qed
    then show ?thesis
      using radix_node radix_leaf.hyps(4) by (auto simp: leaf_shape_def node_shape_def)
  qed
next
  case (radix_node r node bs h ts)
  have ne: "list_all2 (\<lambda>c (a, b). a \<noteq> []) (node_children node) ts"
    by (rule list_all2_pair_impl [OF radix_node.IH]) (auto dest: radix_nonempty)
  from radix_node.prems show ?case
  proof (cases rule: radix.cases)
    case (radix_leaf leaf' bs')
    have "2 \<le> length kes" if "kes = concat (map fst ts)" for kes
      using concat_fst_nonempty [OF ne] radix_node.hyps(2) that by simp
    with radix_leaf radix_node.hyps(4) show ?thesis by (auto simp: leaf_shape_def node_shape_def)
  next
    case other: (radix_node node' bs' k us)
    let ?gs = "zip (map child_edge (node_children node)) (map fst ts)"
    let ?hs = "zip (map child_edge (node_children node')) (map fst us)"
    have l: "length (node_children node) = length ts" "length (node_children node') = length us"
      using list_all2_lengthD [OF radix_node.IH] list_all2_lengthD [OF other(7)] by simp_all
    have kes: "concat (map fst us) = concat (map fst ts)" using other by simp
    have p: "node_prefix node' = node_prefix node"
      using other radix_node.hyps(4) by (simp add: node_shape_def)
    have sub: "list_all2 (\<lambda>c (kes, refs). radix x src h (child_ref c) kes refs \<and> under_child node c kes)
       (node_children node) ts"
      by (rule list_all2_pair_impl [OF radix_node.IH]) auto
    have "?gs = ?hs"
      by (rule grouping_unique [where f = "\<lambda>k. edge_at (keyed_key k) (length (node_prefix node))"])
        (use radix_node.hyps(3) other l kes p under_child_sub [OF sub] under_child_sub [OF other(7)] in simp_all)
    then have e: "map child_edge (node_children node') = map child_edge (node_children node)"
      and f: "map fst us = map fst ts"
      using l by (metis length_map map_fst_zip, metis length_map map_snd_zip)
    have len: "length us = length ts" using f by (metis length_map)
    have "node_children node' = node_children node"
    proof (rule nth_equalityI)
      fix i assume "i < length (node_children node')"
      then have i: "i < length (node_children node)" "i < length (node_children node')" using l len by simp_all
      obtain a b where ab: "ts ! i = (a, b)" by fastforce
      obtain a' b' where ab': "us ! i = (a', b')" by fastforce
      have a: "a' = a" using arg_cong [OF f, of "\<lambda>xs. xs ! i"] i l len ab ab' by simp
      have ce: "child_edge (node_children node' ! i) = child_edge (node_children node ! i)"
        using arg_cong [OF e, of "\<lambda>xs. xs ! i"] i by simp
      have 1: "\<And>r' h' refs'. radix x src' h' r' a refs' \<Longrightarrow> r' = child_ref (node_children node ! i)"
        "under_child node (node_children node ! i) a"
        using list_all2_nthD [OF radix_node.IH i(1)] ab by auto
      have 2: "radix x src' k (child_ref (node_children node' ! i)) a b'"
        "under_child node' (node_children node' ! i) a"
        using list_all2_nthD [OF other(7) i(2)] ab' a by auto
      have "child_ref (node_children node' ! i) = child_ref (node_children node ! i)" using 1(1) 2(1) .
      moreover have "child_summary (node_children node' ! i) = child_summary (node_children node ! i)"
        using 1(2) 2(2) by (auto simp: under_child_def intro: summary_sums_inj)
      ultimately show "node_children node' ! i = node_children node ! i" using ce by simp
    qed (simp add: l len)
    with p have "node' = node" by simp
    then show ?thesis
      using load_chunk_node_ref [OF other(4)] load_chunk_node_ref [OF radix_node.hyps(1)] by simp
  qed
qed

section \<open>Readers of a well-formed manifest\<close>

text \<open>
  The contract between a provider of manifests and its readers: where the provider says that
  a manifest holds the keyed entries \<open>kes\<close>, its root denotes them within the depth limit, their
  keys increase strictly, and the key of each is the portable key of its path.
\<close>

locale manifest_provider =
  fixes x :: external
    and source :: "'m \<Rightarrow> chunk_source"
    and root :: "'m \<Rightarrow> manifest_ref option"
    and holds :: "'m \<Rightarrow> keyed_entry list \<Rightarrow> bool"
  assumes empty: "holds m kes \<Longrightarrow> root m = None \<Longrightarrow> kes = []"
    and tree: "holds m kes \<Longrightarrow> root m = Some r \<Longrightarrow>
      \<exists>h refs. radix x (source m) h r kes refs \<and> h \<le> MAX_MANIFEST_DEPTH"
    and increasing: "holds m kes \<Longrightarrow> sorted_wrt (<) (map keyed_key kes)"
    and keyed: "holds m kes \<Longrightarrow> k \<in> set kes \<Longrightarrow>
      portable_path_key_v1 x (exact_path (keyed_entry k)) = Inr (keyed_key k)"
begin

lemma keys_distinct: "holds m kes \<Longrightarrow> distinct (map keyed_key kes)"
  by (rule sorted_lt_distinct) (rule increasing)

lemma iterates:
  assumes "holds m kes"
  shows "iter_collect x (source m) (manifest_iter_new (root m)) = Some (Inr (map keyed_entry kes))"
proof (cases "root m")
  case None
  with empty [OF assms] show ?thesis
    using iter_collect_end by (simp add: manifest_iter_new_def iter_state_def)
next
  case (Some r)
  have "distinct kes" using keys_distinct [OF assms] by (simp add: distinct_map)
  with Some tree [OF assms Some] iter_collect_radix show ?thesis by auto
qed

lemma looks_up:
  assumes "holds m kes"
  shows "lookup_manifest_entry x (source m) (root m) p =
    res_bind (portable_path_key_v1 x p)
      (\<lambda>key. Inr (map_option keyed_entry (find (\<lambda>k. keyed_key k = key) kes)))"
proof (cases "root m")
  case None
  with empty [OF assms] show ?thesis by (simp add: lookup_manifest_entry_def)
next
  case (Some r)
  with tree [OF assms Some] obtain h refs where
    "radix x (source m) h r kes refs" "h < MAX_MANIFEST_DEPTH + 1" by auto
  from lookup_loop_radix [OF this(1) increasing [OF assms] this(2)] Some show ?thesis
    by (simp add: lookup_manifest_entry_def del: lookup_loop.simps)
qed

lemma lookup_found_iff:
  assumes "holds m kes"
  shows "lookup_manifest_entry x (source m) (root m) p = Inr (Some e) \<longleftrightarrow>
    e \<in> keyed_entry ` set kes
    \<and> (\<exists>key. portable_path_key_v1 x p = Inr key \<and> portable_path_key_v1 x (exact_path e) = Inr key)"
proof
  assume "lookup_manifest_entry x (source m) (root m) p = Inr (Some e)"
  then obtain key k where *: "portable_path_key_v1 x p = Inr key"
    "find (\<lambda>k. keyed_key k = key) kes = Some k" "e = keyed_entry k"
    unfolding looks_up [OF assms] by (auto simp: res_bind_Inr_iff)
  then have "k \<in> set kes" "keyed_key k = key" by (auto simp: find_Some_iff)
  with * keyed [OF assms, of k] show "e \<in> keyed_entry ` set kes
    \<and> (\<exists>key. portable_path_key_v1 x p = Inr key \<and> portable_path_key_v1 x (exact_path e) = Inr key)"
    by auto
next
  assume "e \<in> keyed_entry ` set kes
    \<and> (\<exists>key. portable_path_key_v1 x p = Inr key \<and> portable_path_key_v1 x (exact_path e) = Inr key)"
  then obtain k key where k: "k \<in> set kes" "e = keyed_entry k" "portable_path_key_v1 x p = Inr key"
    "portable_path_key_v1 x (exact_path e) = Inr key" by auto
  from keyed [OF assms k(1)] k have "keyed_key k = key" by simp
  moreover obtain i where "i < length kes" "kes ! i = k" using k(1) by (auto simp: in_set_conv_nth)
  ultimately have "find (\<lambda>k. keyed_key k = key) kes = Some k"
    using find_key_nth [OF increasing [OF assms]] by blast
  with k show "lookup_manifest_entry x (source m) (root m) p = Inr (Some e)"
    unfolding looks_up [OF assms] by simp
qed

lemma lookup_none_iff:
  assumes "holds m kes"
  shows "lookup_manifest_entry x (source m) (root m) p = Inr None \<longleftrightarrow>
    (\<exists>key. portable_path_key_v1 x p = Inr key
      \<and> (\<forall>e \<in> keyed_entry ` set kes. portable_path_key_v1 x (exact_path e) \<noteq> Inr key))"
  unfolding looks_up [OF assms]
  using keyed [OF assms] by (fastforce simp: res_bind_Inr_iff find_None_iff)

end

end
