(* ===== verification/ManifestBuild.thy ===== *)
theory ManifestBuild
  imports Manifest "HOL-Library.Multiset"
begin

text \<open>
  The manifest builder: every range it builds is a well-formed subtree of the chunks it
  stored, so a built manifest provides what the readers of \<open>Manifest\<close> rely on. Its
  properties: streaming returns the entries, lookups are exact, the order of the input does
  not matter, the summary counts the entries.
\<close>

section \<open>Chunks\<close>

definition chunk_map_source :: "(manifest_ref \<rightharpoonup> bytes) \<Rightarrow> chunk_source" where
  "chunk_map_source chunks = (\<lambda>r. ok_or (Source ''missing chunk'') (chunks r))"

lemma load_manifest_chunk_source: "load_manifest_chunk m = chunk_map_source (manifest_chunks m)"
  by (rule ext) (simp add: load_manifest_chunk_def chunk_map_source_def)

lemma chunk_map_source_mono:
  "chunks \<subseteq>\<^sub>m chunks' \<Longrightarrow> chunk_map_source chunks r = Inr bs \<Longrightarrow> chunk_map_source chunks' r = Inr bs"
  by (auto simp: chunk_map_source_def ok_or_Inr_iff map_le_def dom_def)

lemma from_codec_Inr_iff [res_simps]: "from_codec m = Inr a \<longleftrightarrow> m = Inr a"
  by (simp add: from_codec_def res_map_err_Inr_iff)

lemma insert_chunk_props:
  assumes "insert_chunk x k bs chunks = Inr (r, chunks')"
  shows "chunks \<subseteq>\<^sub>m chunks' \<and> chunks' r = Some bs \<and> ref_kind r = k \<and> k \<noteq> RootChunk
    \<and> manifest_id (blake3 x) k bs = Inr (ref_id r)"
  using assms
  by (auto simp: insert_chunk_def res_simps manifest_ref_new_def map_le_def manifest_id_def
      split: option.splits if_splits)

lemma insert_chunk_digest:
  "hash_length x \<Longrightarrow> insert_chunk x k bs chunks = Inr (r, chunks') \<Longrightarrow> digest_typed (ref_id r)"
  using insert_chunk_props [of x k bs chunks r chunks']
  by (auto simp: manifest_id_def domain_hash_def digest_typed_def hash_length_def
      split: chunk_kind.splits) metis+

lemma load_inserted_leaf:
  assumes "insert_chunk x LeafChunk bs chunks = Inr (r, chunks')"
    and "encode_leaf l = Inr bs" and "leaf_typed l"
  shows "load_chunk x (chunk_map_source chunks') r = Inr (Leaf l bs)"
proof -
  have "decode_leaf bs = Inr l" using assms(2,3) by (simp add: leaf_codec_canonical)
  then show ?thesis
    using insert_chunk_props [OF assms(1)]
    by (simp add: load_chunk_def chunk_map_source_def verify_manifest_id_def from_codec_def)
qed

lemma load_inserted_node:
  assumes "insert_chunk x NodeChunk bs chunks = Inr (r, chunks')"
    and "encode_node n = Inr bs" and "node_typed n"
  shows "load_chunk x (chunk_map_source chunks') r = Inr (Node n bs)"
proof -
  have "decode_node bs = Inr n" using assms(2,3) by (simp add: node_codec_canonical)
  then show ?thesis
    using insert_chunk_props [OF assms(1)]
    by (simp add: load_chunk_def chunk_map_source_def verify_manifest_id_def from_codec_def)
qed

section \<open>Runs of one edge\<close>

definition slice :: "'a list \<Rightarrow> nat \<Rightarrow> nat \<Rightarrow> 'a list" where
  "slice xs a b = take (b - a) (drop a xs)"

lemma slice_append: "a \<le> b \<Longrightarrow> b \<le> c \<Longrightarrow> slice xs a b @ slice xs b c = slice xs a c"
proof -
  assume "a \<le> b" "b \<le> c"
  then have "c - a = (b - a) + (c - b)" "drop b xs = drop (b - a) (drop a xs)" by simp_all
  then show ?thesis unfolding slice_def by (simp only: take_add)
qed

lemma length_slice: "b \<le> length xs \<Longrightarrow> length (slice xs a b) = b - a"
  by (simp add: slice_def)

lemma set_slice: "b \<le> length xs \<Longrightarrow> set (slice xs a b) = {xs ! i | i. a \<le> i \<and> i < b}"
proof (rule set_eqI)
  fix x assume b: "b \<le> length xs"
  show "x \<in> set (slice xs a b) \<longleftrightarrow> x \<in> {xs ! i | i. a \<le> i \<and> i < b}"
  proof
    assume "x \<in> set (slice xs a b)"
    then obtain j where "j < b - a" "x = xs ! (a + j)"
      using b by (auto simp: slice_def in_set_conv_nth)
    then show "x \<in> {xs ! i | i. a \<le> i \<and> i < b}" by (auto intro!: exI [of _ "a + j"])
  next
    assume "x \<in> {xs ! i | i. a \<le> i \<and> i < b}"
    then obtain i where i: "a \<le> i" "i < b" "x = xs ! i" by blast
    then have "slice xs a b ! (i - a) = x" using b by (simp add: slice_def)
    then show "x \<in> set (slice xs a b)"
      using i b by (metis diff_less_mono length_slice nth_mem)
  qed
qed

lemma run_end_spec:
  "i \<le> end \<Longrightarrow> run_end es n edge i end \<le> end
   \<and> (\<forall>j. i \<le> j \<and> j < run_end es n edge i end \<longrightarrow> edge_at (keyed_key (es ! j)) n = edge)
   \<and> (run_end es n edge i end < end \<longrightarrow>
        edge_at (keyed_key (es ! run_end es n edge i end)) n \<noteq> edge)"
proof (induction "end - i" arbitrary: i)
  case 0
  then show ?case by (subst (1 2 3 4) run_end.simps) auto
next
  case (Suc m)
  show ?case
  proof (cases "i < end \<and> edge_at (keyed_key (es ! i)) n = edge")
    case True
    then have e: "run_end es n edge i end = run_end es n edge (Suc i) end"
      by (subst run_end.simps) simp
    have "m = end - Suc i" using Suc.hyps(2) by simp
    from Suc.hyps(1) [OF this] True show ?thesis
      unfolding e by (metis Suc_leI le_neq_implies_less)
  next
    case False
    then have e: "run_end es n edge i end = i" by (subst run_end.simps) auto
    show ?thesis unfolding e using False Suc.prems by auto
  qed
qed

lemma edge_runs_spec:
  "start \<le> end \<Longrightarrow> end \<le> length es \<Longrightarrow>
   (\<And>i j. start \<le> i \<Longrightarrow> i \<le> j \<Longrightarrow> j < end \<Longrightarrow>
      edge_at (keyed_key (es ! i)) n \<le> edge_at (keyed_key (es ! j)) n) \<Longrightarrow>
   concat (map (\<lambda>(e, a, b). slice es a b) (edge_runs es n start end)) = slice es start end
   \<and> (\<forall>(e, a, b) \<in> set (edge_runs es n start end). start \<le> a \<and> a < b \<and> b \<le> end
        \<and> (\<forall>k \<in> set (slice es a b). edge_at (keyed_key k) n = e))
   \<and> sorted_wrt (<) (map fst (edge_runs es n start end))"
proof (induction "end - start" arbitrary: start rule: less_induct)
  case less
  show ?case
  proof (cases "start < end")
    case False
    then have "edge_runs es n start end = []" by (subst edge_runs.simps) simp
    then show ?thesis using False by (simp add: slice_def)
  next
    case True
    define edge where "edge = edge_at (keyed_key (es ! start)) n"
    define stop where "stop = run_end es n edge (start + 1) end"
    have r: "edge_runs es n start end = (edge, start, stop) # edge_runs es n stop end"
      using True unfolding edge_def stop_def by (subst edge_runs.simps) (simp add: Let_def)
    have s: "start < stop" "stop \<le> end"
      using run_end_ge [of "start + 1" es n edge "end"] run_end_spec [of "start + 1" "end" es n edge] True
      by (auto simp: stop_def)
    have all: "edge_at (keyed_key (es ! j)) n = edge" if "start \<le> j" "j < stop" for j
    proof (cases "j = start")
      case False
      then show ?thesis
        using run_end_spec [of "start + 1" "end" es n edge] that True by (simp add: stop_def)
    qed (simp add: edge_def)
    have IH: "concat (map (\<lambda>(e, a, b). slice es a b) (edge_runs es n stop end)) = slice es stop end"
      "\<forall>(e, a, b) \<in> set (edge_runs es n stop end). stop \<le> a \<and> a < b \<and> b \<le> end
        \<and> (\<forall>k \<in> set (slice es a b). edge_at (keyed_key k) n = e)"
      "sorted_wrt (<) (map fst (edge_runs es n stop end))"
      using less.hyps [of stop] s less.prems by auto
    have lt: "edge < e" if m: "(e, a, b) \<in> set (edge_runs es n stop end)" for e a b
    proof -
      from IH(2) m have ab: "stop \<le> a" "a < b" "b \<le> end"
        and e: "\<forall>k \<in> set (slice es a b). edge_at (keyed_key k) n = e" by auto
      have "es ! a \<in> set (slice es a b)" using ab less.prems(2) by (subst set_slice) auto
      with e have ea: "edge_at (keyed_key (es ! a)) n = e" by blast
      have "stop < end" using ab by simp
      then have ne: "edge_at (keyed_key (es ! stop)) n \<noteq> edge"
        using run_end_spec [of "start + 1" "end" es n edge] True by (simp add: stop_def)
      have "edge \<le> edge_at (keyed_key (es ! stop)) n"
        unfolding edge_def using less.prems(3) [of start stop] s \<open>stop < end\<close> by simp
      moreover have "edge_at (keyed_key (es ! stop)) n \<le> e"
        using less.prems(3) [of stop a] s ab ea by simp
      ultimately show ?thesis using ne by auto
    qed
    have "\<forall>k \<in> set (slice es start stop). edge_at (keyed_key k) n = edge"
      using all s less.prems(2) by (subst set_slice) auto
    moreover have "sorted_wrt (<) (map fst (edge_runs es n start end))"
      unfolding r using IH(3) lt by fastforce
    moreover have "concat (map (\<lambda>(e, a, b). slice es a b) (edge_runs es n start end)) = slice es start end"
      unfolding r using IH(1) s slice_append [of start stop "end" es] by simp
    ultimately show ?thesis
      unfolding r using IH(2) s by fastforce
  qed
qed

section \<open>The builder produces a well-formed manifest\<close>

definition keyed_ok :: "external \<Rightarrow> keyed_entry \<Rightarrow> bool" where
  "keyed_ok x k \<longleftrightarrow> keyed_of x (keyed_entry k) = Inr k \<and> entry_typed (keyed_entry k)"

lemma try_map_keyed_ok:
  "\<forall>k \<in> set ks. keyed_ok x k \<Longrightarrow> try_map (keyed_of x) (map keyed_entry ks) = Inr ks"
  by (induction ks) (auto simp: keyed_ok_def)

text \<open>The running sums, and the sums of a range.\<close>

lemma summary_prefixes_sums:
  "summary_prefixes s es = Inr ps \<Longrightarrow> length ps = Suc (length es)
   \<and> (\<forall>i \<le> length es. summary_sums (ps ! i) =
        add_sums (summary_sums s) (entry_sums (map keyed_entry (take i es))))"
proof (induction es arbitrary: s ps)
  case (Cons e es)
  from Cons.prems obtain d s' rest where d: "summary_sums d = (1, unat (size_bytes (keyed_entry e)), length (exact_path (keyed_entry e)))"
    and s': "summary_sums s' = add_sums (summary_sums s) (summary_sums d)"
    and rest: "summary_prefixes s' es = Inr rest" "ps = s # rest"
    by (auto simp: res_simps keyed_summary_iff summary_checked_add_iff)
  from Cons.IH [OF rest(1)] have IH: "length rest = Suc (length es)"
    "\<And>i. i \<le> length es \<Longrightarrow> summary_sums (rest ! i) =
        add_sums (summary_sums s') (entry_sums (map keyed_entry (take i es)))" by auto
  show ?case
  proof (intro conjI allI impI)
    fix i assume "i \<le> length (e # es)"
    then show "summary_sums (ps ! i) =
        add_sums (summary_sums s) (entry_sums (map keyed_entry (take i (e # es))))"
      using IH(2) [of "i - 1"] s' d by (cases i) (simp_all add: rest(2) add_sums_assoc)
  qed (simp add: rest(2) IH(1))
qed simp

lemma range_summary_sums:
  assumes "summary_prefixes summary_default es = Inr ps" "range_summary ps a b = Inr s"
    "a \<le> b" "b \<le> length es"
  shows "summary_sums s = entry_sums (map keyed_entry (slice es a b))"
proof -
  have p: "length ps = Suc (length es)"
    "\<And>i. i \<le> length es \<Longrightarrow> summary_sums (ps ! i) = entry_sums (map keyed_entry (take i es))"
    using summary_prefixes_sums [OF assms(1)] by auto
  from assms(2-4) p(1) have "summary_sums (ps ! b) = add_sums (summary_sums (ps ! a)) (summary_sums s)"
    by (auto simp: range_summary_def res_simps checked_sub_Some_iff summary_sums_def)
  moreover have "take b es = take a es @ slice es a b"
    using slice_append [of 0 a b es] assms(3) by (simp add: slice_def)
  then have "entry_sums (map keyed_entry (take b es))
      = add_sums (entry_sums (map keyed_entry (take a es))) (entry_sums (map keyed_entry (slice es a b)))"
    by simp
  ultimately show ?thesis using p(2) assms(3,4) by (simp add: add_sums_cancel)
qed

lemma leaf_encoded_len_size:
  "summary_sums s = entry_sums (map keyed_entry kes) \<Longrightarrow> leaf_encoded_len p s = Inr n \<Longrightarrow>
   n = leaf_size p kes"
  by (simp add: leaf_encoded_len_iff leaf_size_def entry_sums_def comp_def)

lemma build_range_radix:
  assumes hl: "hash_length x" and ok: "\<forall>k \<in> set es. keyed_ok x k"
    and srt: "sorted_wrt (<) (map keyed_key es)"
    and ps: "summary_prefixes summary_default es = Inr prefixes"
  shows "build_range x MANIFEST_LEAF_TARGET_BYTES es prefixes start end depth chunks
      = Inr ((r, s), chunks') \<Longrightarrow>
    chunks \<subseteq>\<^sub>m chunks' \<and> digest_typed (ref_id r)
    \<and> (\<exists>refs. radix x (chunk_map_source chunks') (MAX_MANIFEST_DEPTH - depth) r (slice es start end) refs)
    \<and> depth \<le> MAX_MANIFEST_DEPTH \<and> summary_sums s = entry_sums (map keyed_entry (slice es start end))"
proof (induction "MAX_MANIFEST_DEPTH + 1 - depth" arbitrary: start "end" depth chunks r s chunks'
    rule: less_induct)
  case less
  define range where "range = slice es start end"
  define n where "n = common_prefix_len (keyed_key (hd range)) (keyed_key (last range))"
  define p where "p = take n (keyed_key (hd range))"
  note b = less.prems [unfolded build_range.simps [of _ _ _ _ start "end"] Let_def,
      folded slice_def [of es start "end"], folded range_def, folded n_def, folded p_def]
  from b have d: "depth \<le> MAX_MANIFEST_DEPTH" and se: "start \<le> end" "end \<le> length es"
    and ne: "range \<noteq> []"
    by (auto split: if_splits)
  from b d se ne obtain summary len where rs: "range_summary prefixes start end = Inr summary"
    and len: "leaf_encoded_len p summary = Inr len"
    and rest: "(if len \<le> MANIFEST_LEAF_TARGET_BYTES \<or> length range = 1 then
        res_bind (from_codec (encode_leaf
            \<lparr>leaf_prefix = p, leaf_entries = map keyed_entry range\<rparr>)) (\<lambda>bs.
        res_bind (insert_chunk x LeafChunk bs chunks) (\<lambda>(r, chunks).
        Inr ((r, summary), chunks)))
      else
        res_bind (try_fold (\<lambda>(children, chunks) (edge, child_start, child_end).
            res_bind (build_range x MANIFEST_LEAF_TARGET_BYTES es prefixes child_start child_end (depth + 1) chunks)
              (\<lambda>((r, s), chunks).
            Inr (children @ [\<lparr>child_edge = edge, child_ref = r, child_summary = s\<rparr>], chunks)))
            ([], chunks) (edge_runs es n start end)) (\<lambda>(children, chunks).
        if length children < 2
        then Inl (InvalidManifest ''canonical radix split produced a unary node'')
        else
        res_bind (from_codec (encode_node \<lparr>node_prefix = p, node_children = children\<rparr>)) (\<lambda>bs.
        res_bind (insert_chunk x NodeChunk bs chunks) (\<lambda>(r, chunks).
        Inr ((r, summary), chunks))))) = Inr ((r, s), chunks')"
    by (auto simp: res_bind_Inr_iff not_less split: if_splits)
  have sub: "set range \<subseteq> set es" using se by (auto simp: range_def set_slice)
  have okr: "\<forall>k \<in> set range. keyed_ok x k" using sub ok by blast
  have srt_range: "sorted_wrt (<) (map keyed_key range)"
    using srt unfolding range_def slice_def by (simp add: take_map [symmetric] drop_map [symmetric] sorted_wrt_take sorted_wrt_drop)
  have pre: "starts_with p (keyed_key k)" if "k \<in> set range" for k
    using sorted_range_prefix [OF srt_range, of "keyed_key k"] that ne
    by (simp add: p_def n_def hd_map last_map)
  have sums: "summary_sums summary = entry_sums (map keyed_entry range)"
    unfolding range_def by (rule range_summary_sums [OF ps rs se])
  have size: "len = leaf_size p range" by (rule leaf_encoded_len_size [OF sums len])
  have kp: "key_prefix range = p" by (simp add: key_prefix_def p_def n_def)
  have lp: "length p = n" unfolding p_def n_def using common_prefix_take(2) by simp
  show ?case
  proof (cases "len \<le> MANIFEST_LEAF_TARGET_BYTES \<or> length range = 1")
    case True
    with rest obtain bs where bs: "encode_leaf \<lparr>leaf_prefix = p, leaf_entries = map keyed_entry range\<rparr> = Inr bs"
      and ins: "insert_chunk x LeafChunk bs chunks = Inr (r, chunks')" and s: "s = summary"
      by (auto simp: res_simps)
    have "load_chunk x (chunk_map_source chunks') r
        = Inr (Leaf \<lparr>leaf_prefix = p, leaf_entries = map keyed_entry range\<rparr> bs)"
      by (rule load_inserted_leaf [OF ins bs]) (use okr in \<open>auto simp: leaf_typed_def keyed_ok_def\<close>)
    moreover have "leaf_shape \<lparr>leaf_prefix = p, leaf_entries = map keyed_entry range\<rparr> range"
      using True size kp by (simp add: leaf_shape_def)
    ultimately have "radix x (chunk_map_source chunks') (MAX_MANIFEST_DEPTH - depth) r range [r]"
      using radix_leaf try_map_keyed_ok [OF okr] ne by fastforce
    then show ?thesis using sums s insert_chunk_props [OF ins] insert_chunk_digest [OF hl ins] d
      unfolding range_def by auto
  next
    case False
    let ?body = "\<lambda>(children, chunks) (edge, child_start, child_end).
            res_bind (build_range x MANIFEST_LEAF_TARGET_BYTES es prefixes child_start child_end (depth + 1) chunks)
              (\<lambda>((r, s), chunks).
            Inr (children @ [\<lparr>child_edge = edge, child_ref = r, child_summary = s\<rparr>], chunks))"
    from rest False obtain cs ch bs where
      fold: "try_fold ?body ([], chunks) (edge_runs es n start end) = Inr (cs, ch)"
      and two: "2 \<le> length cs"
      and bs: "encode_node \<lparr>node_prefix = p, node_children = cs\<rparr> = Inr bs"
      and ins: "insert_chunk x NodeChunk bs ch = Inr (r, chunks')" and s: "s = summary"
      by (auto simp: res_simps split: if_splits)
    have loop: "\<exists>ds ts. cs' = cs0 @ ds \<and> ch0 \<subseteq>\<^sub>m ch' \<and> (ds \<noteq> [] \<longrightarrow> depth + 1 \<le> MAX_MANIFEST_DEPTH)
        \<and> map fst ts = map (\<lambda>(e, a, b). slice es a b) runs
        \<and> map child_edge ds = map fst runs \<and> (\<forall>c \<in> set ds. digest_typed (ref_id (child_ref c)))
        \<and> list_all2 (\<lambda>c (kes, refs). radix x (chunk_map_source ch') (MAX_MANIFEST_DEPTH - (depth + 1))
             (child_ref c) kes refs \<and> summary_sums (child_summary c) = entry_sums (map keyed_entry kes)) ds ts"
      if "try_fold ?body (cs0, ch0) runs = Inr (cs', ch')" for runs cs0 ch0 cs' ch'
      using that
    proof (induction runs arbitrary: cs0 ch0)
      case Nil
      then show ?case by (auto intro!: exI [of _ "[]"])
    next
      case (Cons run runs)
      obtain e a b where run: "run = (e, a, b)" by (cases run) auto
      with Cons.prems obtain r1 s1 ch1 where
        br: "build_range x MANIFEST_LEAF_TARGET_BYTES es prefixes a b (depth + 1) ch0 = Inr ((r1, s1), ch1)"
        and tl: "try_fold ?body (cs0 @ [\<lparr>child_edge = e, child_ref = r1, child_summary = s1\<rparr>], ch1) runs
                   = Inr (cs', ch')"
        by (auto simp: res_bind_Inr_iff)
      have "MAX_MANIFEST_DEPTH + 1 - (depth + 1) < MAX_MANIFEST_DEPTH + 1 - depth" using d by simp
      from less.hyps [OF this br] obtain refs where IH: "ch0 \<subseteq>\<^sub>m ch1" "digest_typed (ref_id r1)"
        "radix x (chunk_map_source ch1) (MAX_MANIFEST_DEPTH - (depth + 1)) r1 (slice es a b) refs"
        "depth + 1 \<le> MAX_MANIFEST_DEPTH" "summary_sums s1 = entry_sums (map keyed_entry (slice es a b))"
        by blast
      from Cons.IH [OF tl] obtain ds ts where
        t: "cs' = (cs0 @ [\<lparr>child_edge = e, child_ref = r1, child_summary = s1\<rparr>]) @ ds" "ch1 \<subseteq>\<^sub>m ch'"
        "map fst ts = map (\<lambda>(e, a, b). slice es a b) runs"
        "map child_edge ds = map fst runs" "\<forall>c \<in> set ds. digest_typed (ref_id (child_ref c))"
        "list_all2 (\<lambda>c (kes, refs). radix x (chunk_map_source ch') (MAX_MANIFEST_DEPTH - (depth + 1))
             (child_ref c) kes refs \<and> summary_sums (child_summary c) = entry_sums (map keyed_entry kes)) ds ts"
        by blast
      have "radix x (chunk_map_source ch') (MAX_MANIFEST_DEPTH - (depth + 1)) r1 (slice es a b) refs"
        by (rule radix_source_mono [OF IH(3)]) (rule chunk_map_source_mono [OF t(2)])
      then show ?case
        using t IH map_le_trans [OF IH(1) t(2)]
        by (intro exI [of _ "\<lparr>child_edge = e, child_ref = r1, child_summary = s1\<rparr> # ds"]
            exI [of _ "(slice es a b, refs) # ts"]) (auto simp: run)
    qed
    from loop [OF fold] obtain ts where l: "chunks \<subseteq>\<^sub>m ch" "depth + 1 \<le> MAX_MANIFEST_DEPTH"
      "map fst ts = map (\<lambda>(e, a, b). slice es a b) (edge_runs es n start end)"
      "map child_edge cs = map fst (edge_runs es n start end)"
      "\<forall>c \<in> set cs. digest_typed (ref_id (child_ref c))"
      "list_all2 (\<lambda>c (kes, refs). radix x (chunk_map_source ch) (MAX_MANIFEST_DEPTH - (depth + 1))
             (child_ref c) kes refs \<and> summary_sums (child_summary c) = entry_sums (map keyed_entry kes)) cs ts"
      using two by fastforce
    have mono: "edge_at (keyed_key (es ! i)) n \<le> edge_at (keyed_key (es ! j)) n"
      if "start \<le> i" "i \<le> j" "j < end" for i j
    proof -
      have "es ! i \<in> set range" "es ! j \<in> set range"
        using that se by (auto simp: range_def set_slice)
      moreover have "keyed_key (es ! i) \<le> keyed_key (es ! j)"
        using strict_sorted_nth [OF srt, of i j] that se by (cases "i = j") auto
      ultimately show ?thesis using edge_at_mono pre lp by blast
    qed
    note runs = edge_runs_spec [OF se mono]
    have kes: "concat (map fst ts) = range" unfolding l(3) range_def using runs by blast
    have node: "load_chunk x (chunk_map_source chunks') r = Inr (Node \<lparr>node_prefix = p, node_children = cs\<rparr> bs)"
      by (rule load_inserted_node [OF ins bs]) (use l(5) in \<open>auto simp: node_typed_def\<close>)
    have ch: "ch \<subseteq>\<^sub>m chunks'" using insert_chunk_props [OF ins] by blast
    have len_ts: "length ts = length cs" using list_all2_lengthD [OF l(6)] by simp
    have "list_all2 (\<lambda>c (kes, refs). radix x (chunk_map_source chunks') (MAX_MANIFEST_DEPTH - (depth + 1))
             (child_ref c) kes refs \<and> under_child \<lparr>node_prefix = p, node_children = cs\<rparr> c kes) cs ts"
      unfolding list_all2_conv_all_nth
    proof (intro conjI allI impI)
      fix i assume i: "i < length cs"
      obtain kes refs where t: "ts ! i = (kes, refs)" by fastforce
      have r: "radix x (chunk_map_source ch) (MAX_MANIFEST_DEPTH - (depth + 1)) (child_ref (cs ! i)) kes refs"
        and cs: "summary_sums (child_summary (cs ! i)) = entry_sums (map keyed_entry kes)"
        using list_all2_nthD [OF l(6) i] t by simp_all
      obtain e a b where eab: "edge_runs es n start end ! i = (e, a, b)" by (cases "edge_runs es n start end ! i") auto
      have il: "i < length (edge_runs es n start end)" using i l(4) by (metis length_map)
      have "(e, a, b) \<in> set (edge_runs es n start end)" using eab il nth_mem by metis
      then have *: "\<forall>k \<in> set (slice es a b). edge_at (keyed_key k) n = e" using runs by blast
      have "kes = slice es a b" using arg_cong [OF l(3), of "\<lambda>xs. xs ! i"] i len_ts il eab t by simp
      moreover have "child_edge (cs ! i) = e" using arg_cong [OF l(4), of "\<lambda>xs. xs ! i"] i il eab by simp
      moreover have "set kes \<subseteq> set range" unfolding kes [symmetric] using i len_ts t nth_mem [of i ts] by force
      ultimately show "case ts ! i of (kes, refs) \<Rightarrow> radix x (chunk_map_source chunks') (MAX_MANIFEST_DEPTH - (depth + 1))
             (child_ref (cs ! i)) kes refs \<and> under_child \<lparr>node_prefix = p, node_children = cs\<rparr> (cs ! i) kes"
        using radix_source_mono [OF r chunk_map_source_mono [OF ch]] pre * lp t cs
        by (auto simp: under_child_def)
    qed (simp add: len_ts)
    moreover have "node_shape \<lparr>node_prefix = p, node_children = cs\<rparr> (concat (map fst ts))"
      using False size kp kes by (auto simp: node_shape_def)
    moreover note radix_node [OF node, where ts = ts and h = "MAX_MANIFEST_DEPTH - (depth + 1)"]
    ultimately have "radix x (chunk_map_source chunks') (Suc (MAX_MANIFEST_DEPTH - (depth + 1))) r range (r # concat (map snd ts))"
      using runs l(4) kes two by simp
    moreover have "Suc (MAX_MANIFEST_DEPTH - (depth + 1)) = MAX_MANIFEST_DEPTH - depth" using l(2) by simp
    ultimately show ?thesis
      using map_le_trans [OF l(1) ch] insert_chunk_digest [OF hl ins] d sums s unfolding range_def by auto
  qed
qed

lemma validate_ordered_keys_sorted:
  "validate_ordered_keys kes = Inr u \<Longrightarrow> sorted_wrt (<) (map keyed_key kes)"
proof -
  assume "validate_ordered_keys kes = Inr u"
  then have "\<forall>p \<in> set (windows2 (map keyed_key kes)). validate_pair p = Inr ()"
    by (simp add: validate_ordered_keys_def try_all_Inr_iff)
  then have "\<forall>(a, b) \<in> set (windows2 (map keyed_key kes)). a < b"
    by (auto simp: validate_pair_def split: if_splits)
  then show ?thesis by (subst (asm) windows2_sorted_wrt) (auto simp: transp_def)
qed

lemma keyed_of_entry: "keyed_of x e = Inr k \<Longrightarrow> keyed_entry k = e \<and> keyed_of x (keyed_entry k) = Inr k"
  by (auto simp: keyed_of_def res_bind_Inr_iff)

definition built_holds :: "external \<Rightarrow> built_manifest \<Rightarrow> keyed_entry list \<Rightarrow> bool" where
  "built_holds x m kes \<longleftrightarrow>
     hash_length x \<and> (\<exists>entries keyed. (\<forall>e \<in> set entries. entry_typed e)
       \<and> build_manifest x entries = Inr m \<and> try_map (keyed_of x) entries = Inr keyed
       \<and> kes = sort_key keyed_key keyed)"

lemma build_manifest_radix:
  assumes hl: "hash_length x" and typed: "\<forall>e \<in> set entries. entry_typed e"
    and b: "build_manifest x entries = Inr m"
    and keyed: "try_map (keyed_of x) entries = Inr keyed"
  shows "sorted_wrt (<) (map keyed_key (sort_key keyed_key keyed))
    \<and> (\<forall>k \<in> set keyed. keyed_ok x k)
    \<and> (case manifest_root m of None \<Rightarrow> entries = []
       | Some r \<Rightarrow> \<exists>refs. radix x (load_manifest_chunk m) MAX_MANIFEST_DEPTH r (sort_key keyed_key keyed) refs)
    \<and> summary_sums (manifest_summary m) = entry_sums (map keyed_entry (sort_key keyed_key keyed))"
proof -
  have ok: "\<forall>k \<in> set keyed. keyed_ok x k"
    using keyed typed unfolding try_map_Inr_iff keyed_ok_def
    by (induction rule: list_all2_induct) (auto dest: keyed_of_entry)
  show ?thesis
  proof (cases "entries = []")
    case True
    with b keyed show ?thesis
      by (auto simp: build_manifest_def build_manifest_with_leaf_target_def built_manifest_default_def)
  next
    case False
    let ?kes = "sort_key keyed_key keyed"
    from b False keyed obtain prefixes r s chunks where ps: "summary_prefixes summary_default ?kes = Inr prefixes"
      and v: "validate_ordered_keys ?kes = Inr ()"
      and br: "build_range x MANIFEST_LEAF_TARGET_BYTES ?kes prefixes 0 (length ?kes) 0 Map.empty
                 = Inr ((r, s), chunks)"
      and m: "m = \<lparr>manifest_root = Some r, manifest_summary = s, manifest_chunks = chunks\<rparr>"
      by (auto simp: build_manifest_def build_manifest_with_leaf_target_def res_bind_Inr_iff Let_def)
    have srt: "sorted_wrt (<) (map keyed_key ?kes)" using validate_ordered_keys_sorted [OF v] .
    from build_range_radix [OF hl _ srt ps br] ok obtain refs where
      "radix x (chunk_map_source chunks) (MAX_MANIFEST_DEPTH - 0) r (slice ?kes 0 (length ?kes)) refs"
      "summary_sums s = entry_sums (map keyed_entry (slice ?kes 0 (length ?kes)))"
      by auto
    then show ?thesis using srt ok m by (auto simp: load_manifest_chunk_source slice_def)
  qed
qed

interpretation built: manifest_provider x load_manifest_chunk manifest_root "built_holds x"
  for x
proof unfold_locales
  fix m :: built_manifest and kes :: "keyed_entry list"
  assume "built_holds x m kes"
  then obtain entries keyed where e: "hash_length x" "\<forall>e \<in> set entries. entry_typed e"
    "build_manifest x entries = Inr m" "try_map (keyed_of x) entries = Inr keyed"
    and kes: "kes = sort_key keyed_key keyed"
    by (auto simp: built_holds_def)
  note p = build_manifest_radix [OF e]
  show "manifest_root m = None \<Longrightarrow> kes = []" using p e(4) kes by auto
  show "\<And>r. manifest_root m = Some r \<Longrightarrow>
      \<exists>h refs. radix x (load_manifest_chunk m) h r kes refs \<and> h \<le> MAX_MANIFEST_DEPTH"
    using p kes by auto
  show "sorted_wrt (<) (map keyed_key kes)" using p kes by blast
  fix k assume "k \<in> set kes"
  then have "keyed_ok x k" using p kes by simp
  then show "portable_path_key_v1 x (exact_path (keyed_entry k)) = Inr (keyed_key k)"
    by (cases k) (auto simp: keyed_ok_def keyed_of_def res_bind_Inr_iff)
qed

lemma build_manifest_keyed:
  "build_manifest x entries = Inr m \<Longrightarrow> \<exists>keyed. try_map (keyed_of x) entries = Inr keyed"
  by (cases "entries = []")
    (auto simp: build_manifest_def build_manifest_with_leaf_target_def res_bind_Inr_iff)

lemma built_holdsI:
  assumes "hash_length x" "\<forall>e \<in> set entries. entry_typed e" "build_manifest x entries = Inr m"
  obtains kes where "built_holds x m kes" "mset (map keyed_entry kes) = mset entries"
    "set entries = keyed_entry ` set kes"
proof -
  obtain keyed where k: "try_map (keyed_of x) entries = Inr keyed"
    using build_manifest_keyed [OF assms(3)] by blast
  have "map keyed_entry keyed = entries" using try_map_keyed_entry [OF k] .
  then have "mset (map keyed_entry (sort_key keyed_key keyed)) = mset entries"
    "set entries = keyed_entry ` set (sort_key keyed_key keyed)"
    by (auto simp: mset_map [symmetric] simp del: mset_map) (metis mset_map mset_sort)
  moreover have "built_holds x m (sort_key keyed_key keyed)"
    using assms k by (auto simp: built_holds_def)
  ultimately show ?thesis using that by blast
qed

text \<open>C7: Streaming a built manifest returns exactly the entries it was built from, each once, in
strictly increasing order of their portable keys.\<close>

theorem built_manifest_iterates:
  assumes "hash_length x" and "\<forall>e \<in> set entries. entry_typed e"
    and "build_manifest x entries = Inr m"
  shows "\<exists>es keys. iter_collect x (load_manifest_chunk m) (manifest_iter_new (manifest_root m))
             = Some (Inr es)
           \<and> mset es = mset entries
           \<and> try_map (\<lambda>e. portable_path_key_v1 x (exact_path e)) es = Inr keys
           \<and> sorted_wrt (<) keys"
proof -
  from built_holdsI [OF assms] obtain kes where h: "built_holds x m kes"
    and ms: "mset (map keyed_entry kes) = mset entries" by metis
  have "try_map (\<lambda>e. portable_path_key_v1 x (exact_path e)) (map keyed_entry kes)
      = Inr (map keyed_key kes)"
    using built.keyed [OF h] by (auto simp: try_map_Inr_iff list_all2_conv_all_nth)
  with built.iterates [OF h] ms built.increasing [OF h] show ?thesis by blast
qed

text \<open>C8: A lookup in a built manifest returns an entry exactly when it is one of the entries
the manifest was built from and has the portable key of the path, and returns nothing exactly
when the path has a key and no entry has it.\<close>

theorem built_manifest_lookup:
  assumes "hash_length x" and "\<forall>e \<in> set entries. entry_typed e"
    and "build_manifest x entries = Inr m"
  shows "(lookup_manifest_entry x (load_manifest_chunk m) (manifest_root m) p = Inr (Some e) \<longleftrightarrow>
            e \<in> set entries \<and> (\<exists>key. portable_path_key_v1 x p = Inr key
                                  \<and> portable_path_key_v1 x (exact_path e) = Inr key))
       \<and> (lookup_manifest_entry x (load_manifest_chunk m) (manifest_root m) p = Inr None \<longleftrightarrow>
            (\<exists>key. portable_path_key_v1 x p = Inr key
               \<and> (\<forall>e \<in> set entries. portable_path_key_v1 x (exact_path e) \<noteq> Inr key)))"
proof -
  from built_holdsI [OF assms] obtain kes where h: "built_holds x m kes"
    and s: "set entries = keyed_entry ` set kes" by metis
  show ?thesis
    unfolding s using built.lookup_found_iff [OF h] built.lookup_none_iff [OF h] by blast
qed

lemma try_map_mset:
  "mset xs = mset ys \<Longrightarrow> try_map f xs = Inr us \<Longrightarrow> \<exists>vs. try_map f ys = Inr vs \<and> mset vs = mset us"
proof -
  assume m: "mset xs = mset ys" and t: "try_map f xs = Inr us"
  define g where "g x = (case f x of Inr y \<Rightarrow> y | Inl _ \<Rightarrow> undefined)" for x
  have ok: "\<forall>x \<in> set xs. f x = Inr (g x)" and us: "us = map g xs"
    using t unfolding try_map_Inr_iff by (induction rule: list_all2_induct) (auto simp: g_def)
  have "\<forall>y \<in> set ys. f y = Inr (g y)" using ok mset_eq_setD [OF m] by simp
  then have "try_map f ys = Inr (map g ys)"
    by (auto simp: try_map_Inr_iff list_all2_conv_all_nth)
  moreover have "mset (map g ys) = mset us" using m us by simp
  ultimately show ?thesis by blast
qed

lemma sorted_key_unique:
  fixes f :: "'a \<Rightarrow> 'b::linorder"
  assumes "sorted_wrt (<) (map f xs)" "sorted_wrt (<) (map f ys)" "set xs = set (ys :: 'a list)"
  shows "xs = (ys :: 'a list)"
proof -
  have "map f xs = map f ys"
    by (rule sorted_lt_set_unique) (use assms in auto)
  moreover have "inj_on f (set xs)" using sorted_lt_distinct [OF assms(1)] by (simp add: distinct_map)
  ultimately show ?thesis using assms(3) by (metis map_inj_on sup.idem)
qed

lemma build_order_independent:
  assumes "mset entries = mset entries'" and "build_manifest x entries = Inr m"
  shows "build_manifest x entries' = Inr m"
proof (cases "entries = []")
  case True
  with assms show ?thesis by simp
next
  case False
  with assms(1) have ne': "entries' \<noteq> []" by auto
  obtain keyed where k: "try_map (keyed_of x) entries = Inr keyed"
    using build_manifest_keyed [OF assms(2)] by blast
  from try_map_mset [OF assms(1) k] obtain keyed' where
    k': "try_map (keyed_of x) entries' = Inr keyed'" and ms: "mset keyed' = mset keyed" by blast
  from assms(2) False k have v: "validate_ordered_keys (sort_key keyed_key keyed) = Inr ()"
    by (auto simp: build_manifest_def build_manifest_with_leaf_target_def res_bind_Inr_iff Let_def)
  have "distinct (map keyed_key (sort_key keyed_key keyed))"
    by (rule sorted_lt_distinct) (rule validate_ordered_keys_sorted [OF v])
  then have inj: "inj_on keyed_key (set keyed)" and d: "distinct keyed"
    by (auto simp: distinct_map)
  have st: "set keyed' = set keyed" "length keyed' = length keyed"
    using mset_eq_setD [OF ms] mset_eq_length [OF ms] by simp_all
  have "sort_key keyed_key keyed' = sort_key keyed_key keyed"
  proof (rule sorted_key_unique)
    show "sorted_wrt (<) (map keyed_key (sort_key keyed_key keyed))"
      by (rule validate_ordered_keys_sorted [OF v])
    have "distinct keyed'" using d st by (metis card_distinct distinct_card)
    then have "distinct (map keyed_key (sort_key keyed_key keyed'))"
      using inj st by (simp add: distinct_map)
    then show "sorted_wrt (<) (map keyed_key (sort_key keyed_key keyed'))"
      by (simp add: strict_sorted_iff)
  qed (simp add: st)
  then show ?thesis
    using assms(2) False ne' k k'
    by (simp add: build_manifest_def build_manifest_with_leaf_target_def st)
qed

text \<open>C9: The built manifest does not depend on the order of the entries.\<close>

theorem build_manifest_order_independent:
  assumes "mset entries = mset entries'" and "build_manifest x entries = Inr m"
  shows "build_manifest x entries' = Inr m"
  using assms by (rule build_order_independent)

end
