(* ===== verification/ManifestValidate.thy ===== *)
theory ManifestValidate
  imports ManifestBuild
begin

text \<open>
  The validator of manifests from an untrusted source: what it accepts is well formed, so
  validated manifests provide what the readers of \<open>Manifest\<close> rely on, and their root is
  determined by their entries. The validation cache is part of the state, and stays sound
  across failing calls.
\<close>

lemma radix_keyed: "radix x src h r kes refs \<Longrightarrow> k \<in> set kes \<Longrightarrow> keyed_of x (keyed_entry k) = Inr k"
proof (induction rule: radix.induct)
  case (radix_leaf r leaf bs kes h)
  then obtain e where "keyed_of x e = Inr k"
    by (auto simp: try_map_Inr_iff list_all2_conv_all_nth in_set_conv_nth)
  then show ?case using keyed_of_entry by blast
next
  case (radix_node r node bs h ts)
  then obtain i where "i < length ts" "k \<in> set (fst (ts ! i))"
    by (auto simp: in_set_conv_nth) (metis fst_conv in_set_conv_nth)
  then show ?case
    using list_all2_nthD2 [OF radix_node.IH, of i] by (cases "ts ! i") auto
qed

lemma sorted_range_bounds:
  assumes "sorted_wrt (<) ks" "k \<in> set (ks :: 'a::linorder list)"
  shows "hd ks \<le> k \<and> k \<le> last ks"
proof
  show "hd ks \<le> k" using assms by (cases ks) auto
  have "ks = butlast ks @ [last ks]" using assms(2) by (cases ks) auto
  then have "sorted_wrt (<) (butlast ks @ [last ks])" "k \<in> set (butlast ks @ [last ks])"
    using assms by metis+
  then show "k \<le> last ks" by (auto simp: sorted_wrt_append)
qed

text \<open>What the validator knows about a subtree.\<close>

definition describes :: "external \<Rightarrow> chunk_source \<Rightarrow> manifest_ref \<Rightarrow> validation_info \<Rightarrow> keyed_entry list \<Rightarrow> bool" where
  "describes x src r info kes \<longleftrightarrow>
     (\<exists>refs. radix x src (maximum_relative_depth info) r kes refs)
   \<and> sorted_wrt (<) (map keyed_key kes)
   \<and> first_key info = keyed_key (hd kes) \<and> last_key info = keyed_key (last kes)
   \<and> summary_sums (info_summary info) = entry_sums (map keyed_entry kes)
   \<and> maximum_relative_depth info \<le> MAX_MANIFEST_DEPTH"

definition cache_ok :: "external \<Rightarrow> chunk_source \<Rightarrow> validation_cache \<Rightarrow> bool" where
  "cache_ok x src cache \<longleftrightarrow> (\<forall>(r, info) \<in> set (validated cache). \<exists>kes. describes x src r info kes)"

lemma cache_ok_default [simp]: "cache_ok x src validation_cache_default"
  by (simp add: cache_ok_def validation_cache_default_def)

section \<open>Leaves\<close>

lemma try_map_keyed_nonempty: "try_map f es = Inr ks \<Longrightarrow> es \<noteq> [] \<Longrightarrow> ks \<noteq> []"
  using try_map_length by fastforce

lemma validate_leaf_describes:
  assumes load: "load_chunk x src r = Inr (Leaf leaf stored)"
    and v: "validate_leaf x leaf stored = Inr info"
  shows "maximum_relative_depth info = 0 \<and> (\<exists>kes. describes x src r info kes)"
proof -
  from v obtain kes s where ne: "leaf_entries leaf \<noteq> []"
    and sz: "\<not> (MANIFEST_LEAF_TARGET_BYTES < length stored \<and> length (leaf_entries leaf) \<noteq> 1)"
    and kes: "try_map (keyed_of x) (leaf_entries leaf) = Inr kes"
    and ord: "validate_ordered_keys kes = Inr ()"
    and pre: "leaf_prefix leaf = key_prefix kes"
    and s: "leaf_summary leaf = Inr s"
    and info: "info = \<lparr>info_summary = s, first_key = keyed_key (hd kes), last_key = keyed_key (last kes),
                  maximum_relative_depth = 0\<rparr>"
    by (auto simp: validate_leaf_def res_simps Let_def key_prefix_def)
  have e: "map keyed_entry kes = leaf_entries leaf" using try_map_keyed_entry [OF kes] .
  from load_chunk_leaf_ref [OF load] have "encode_leaf leaf = Inr stored" "leaf_typed leaf" by auto
  from length_encode_leaf [OF this(2,1)] have "length stored = leaf_size (key_prefix kes) kes"
    unfolding leaf_size_def pre [symmetric] e [symmetric] by (simp add: comp_def)
  moreover have "length (leaf_entries leaf) = length kes" using e by (metis length_map)
  ultimately have "leaf_shape leaf kes" using sz pre by (auto simp: leaf_shape_def)
  then have "radix x src 0 r kes [r]"
    using radix_leaf load kes try_map_keyed_nonempty [OF kes ne] by blast
  then show ?thesis
    using validate_ordered_keys_sorted [OF ord] s e
    by (auto simp: describes_def info leaf_summary_iff)
qed

section \<open>Nodes\<close>

text \<open>The loop over the children, once the information about each is there.\<close>

definition scan_all :: "manifest_node \<Rightarrow> (manifest_child \<times> validation_info) list \<Rightarrow> child_scan snapshot_result" where
  "scan_all node cis = try_fold (\<lambda>scan (c, i). scan_child node c i scan) child_scan_init cis"

lemma scan_all_snoc:
  "scan_all node (cis @ [(c, i)]) = res_bind (scan_all node cis) (scan_child node c i)"
  by (simp add: scan_all_def try_fold_append) (cases "try_fold (\<lambda>scan (c, i). scan_child node c i scan) child_scan_init cis"; simp add: res_bind_def split: sum.splits)

definition child_ok :: "manifest_node \<Rightarrow> manifest_child \<Rightarrow> validation_info \<Rightarrow> bool" where
  "child_ok node c i \<longleftrightarrow>
     info_summary i = child_summary c \<and> starts_with (node_prefix node) (first_key i)
   \<and> edge_at (first_key i) (length (node_prefix node)) = child_edge c
   \<and> edge_at (last_key i) (length (node_prefix node)) = child_edge c"

lemma sorted_wrt_join:
  assumes "sorted_wrt (<) as" "sorted_wrt (<) bs" "as \<noteq> []" "bs \<noteq> []" "last as < (hd bs :: 'a::linorder)"
  shows "sorted_wrt (<) (as @ bs)"
proof -
  have "a < b" if "a \<in> set as" "b \<in> set bs" for a b
    using sorted_range_bounds [OF assms(1) that(1)] sorted_range_bounds [OF assms(2) that(2)] assms(5)
    by (meson le_less_trans less_le_trans)
  then show ?thesis using assms(1,2) by (simp add: sorted_wrt_append)
qed

lemma scan_all_spec:
  assumes "scan_all node cis = Inr scan" "cis \<noteq> []"
    and "list_all2 (\<lambda>(c, i) kes. describes x src (child_ref c) i kes) cis kess"
  shows "(\<forall>(c, i) \<in> set cis. child_ok node c i)
    \<and> sorted_wrt (<) (map keyed_key (concat kess))
    \<and> scan_first scan = Some (keyed_key (hd (concat kess)))
    \<and> scan_last scan = Some (keyed_key (last (concat kess)))
    \<and> summary_sums (scan_summary scan) = entry_sums (map keyed_entry (concat kess))
    \<and> (\<forall>(c, i) \<in> set cis. maximum_relative_depth i + 1 \<le> scan_depth scan)
    \<and> (\<forall>n. (\<forall>(c, i) \<in> set cis. maximum_relative_depth i + 1 \<le> n) \<longrightarrow> scan_depth scan \<le> n)
    \<and> concat kess \<noteq> []"
  using assms
proof (induction cis arbitrary: scan kess rule: rev_induct)
  case (snoc ci cis)
  obtain c i where ci: "ci = (c, i)" by (cases ci)
  from snoc.prems(3) obtain kess' kes where k: "kess = kess' @ [kes]"
    and rest: "list_all2 (\<lambda>(c, i) kes. describes x src (child_ref c) i kes) cis kess'"
    and d: "describes x src (child_ref c) i kes"
    by (auto simp: list_all2_append1 list_all2_Cons1 ci)
  from snoc.prems(1) obtain scan0 where s0: "scan_all node cis = Inr scan0"
    and sc: "scan_child node c i scan0 = Inr scan"
    by (auto simp: ci scan_all_snoc res_bind_Inr_iff)
  from sc have ok: "child_ok node c i"
    by (auto simp: scan_child_def child_ok_def Let_def if_Inl_eq_Inr)
  have m: "maximum_relative_depth i \<le> MAX_MANIFEST_DEPTH" using d by (simp add: describes_def)
  then have sat: "usize_saturating_add (maximum_relative_depth i) (Suc 0) = Suc (maximum_relative_depth i)"
    by (simp add: usize_saturating_add_def MAX_MANIFEST_DEPTH_def)
  have ne: "kes \<noteq> []" using d by (auto simp: describes_def dest: radix_nonempty)
  from sc have sums: "summary_sums (scan_summary scan) = add_sums (summary_sums (scan_summary scan0)) (summary_sums (info_summary i))"
    and fl: "scan_first scan = (case scan_first scan0 of None \<Rightarrow> Some (first_key i) | f \<Rightarrow> f)"
      "scan_last scan = Some (last_key i)"
    and dep: "scan_depth scan = max (scan_depth scan0) (maximum_relative_depth i + 1)"
    and lt: "case scan_last scan0 of None \<Rightarrow> True | Some p \<Rightarrow> p < first_key i"
    by (auto simp: scan_child_def Let_def res_simps summary_checked_add_iff sat not_le split: option.splits)
  show ?case
  proof (cases "cis = []")
    case True
    then have "kess' = []" "scan0 = child_scan_init" using rest s0 by (simp_all add: scan_all_def)
    then show ?thesis
      using True ok d sums fl dep ne unfolding k ci describes_def child_scan_init_def by auto
  next
    case False
    from snoc.IH [OF s0 False rest] have IH:
      "\<forall>(c, i) \<in> set cis. child_ok node c i"
      "sorted_wrt (<) (map keyed_key (concat kess'))"
      "scan_first scan0 = Some (keyed_key (hd (concat kess')))"
      "scan_last scan0 = Some (keyed_key (last (concat kess')))"
      "summary_sums (scan_summary scan0) = entry_sums (map keyed_entry (concat kess'))"
      "\<forall>(c, i) \<in> set cis. maximum_relative_depth i + 1 \<le> scan_depth scan0"
      "\<forall>n. (\<forall>(c, i) \<in> set cis. maximum_relative_depth i + 1 \<le> n) \<longrightarrow> scan_depth scan0 \<le> n"
      "concat kess' \<noteq> []" by blast+
    have "sorted_wrt (<) (map keyed_key (concat kess') @ map keyed_key kes)"
      by (rule sorted_wrt_join) (use IH lt d ne in \<open>auto simp: describes_def last_map hd_map\<close>)
    then have "sorted_wrt (<) (map keyed_key (concat kess))" unfolding k by simp
    moreover have "hd (concat kess) = hd (concat kess')" "last (concat kess) = last kes"
      using IH(8) ne unfolding k by auto
    moreover have "entry_sums (map keyed_entry (concat kess))
        = add_sums (entry_sums (map keyed_entry (concat kess'))) (entry_sums (map keyed_entry kes))"
      unfolding k by simp
    moreover have "\<forall>n. (\<forall>(c, i) \<in> set (cis @ [ci]). maximum_relative_depth i + 1 \<le> n) \<longrightarrow> scan_depth scan \<le> n"
      using IH(7) dep by (auto simp: ci)
    moreover have "\<forall>(c, i) \<in> set (cis @ [ci]). maximum_relative_depth i + 1 \<le> scan_depth scan"
      using IH(6) dep by (fastforce simp: ci)
    ultimately show ?thesis
      using IH ok fl sums d ne unfolding ci describes_def by (simp add: k)
  qed
qed simp

lemma check_node_props:
  "check_node node stored = Inr u \<Longrightarrow>
   2 \<le> length (node_children node) \<and> sorted_wrt (<) (map child_edge (node_children node))"
proof -
  assume "check_node node stored = Inr u"
  then have "2 \<le> length (node_children node)"
    and "\<forall>(a, b) \<in> set (windows2 (map child_edge (node_children node))). a < b"
    by (auto simp: check_node_def res_simps)
  then show ?thesis by (subst (asm) windows2_sorted_wrt) (auto simp: transp_def)
qed

lemma finish_node_describes:
  assumes load: "load_chunk x src r = Inr (Node node stored)"
    and chk: "check_node node stored = Inr ()"
    and scan: "scan_all node (zip (node_children node) infos) = Inr scan"
    and len: "length infos = length (node_children node)"
    and d: "\<forall>(c, i) \<in> set (zip (node_children node) infos). \<exists>kes. describes x src (child_ref c) i kes"
    and fin: "finish_node node scan = Inr info"
    and deep: "\<forall>(c, i) \<in> set (zip (node_children node) infos). maximum_relative_depth i + 1 \<le> m"
      "m \<le> MAX_MANIFEST_DEPTH"
  shows "maximum_relative_depth info \<le> m \<and> (\<exists>kes. describes x src r info kes)"
proof -
  let ?cs = "node_children node" and ?p = "node_prefix node"
  let ?cis = "zip ?cs infos"
  have two: "2 \<le> length ?cs" and edges: "sorted_wrt (<) (map child_edge ?cs)"
    using check_node_props [OF chk] by auto
  obtain kess where kess: "list_all2 (\<lambda>(c, i) kes. describes x src (child_ref c) i kes) ?cis kess"
  proof -
    have "\<exists>kess. list_all2 (\<lambda>(c, i) kes. describes x src (child_ref c) i kes) cis kess"
      if "\<forall>(c, i) \<in> set cis. \<exists>kes. describes x src (child_ref c) i kes" for cis
      using that
    proof (induction cis)
      case (Cons ci cis)
      then show ?case by (cases ci) (auto simp: list_all2_Cons1)
    qed auto
    with d that show ?thesis by blast
  qed
  have ne: "?cis \<noteq> []" using two len by auto
  note S = scan_all_spec [OF scan ne kess]
  let ?kes = "concat kess"
  from S have ok: "\<forall>(c, i) \<in> set ?cis. child_ok node c i"
    and srt: "sorted_wrt (<) (map keyed_key ?kes)" and kne: "?kes \<noteq> []" by blast+
  from fin S obtain l where pre: "?p = key_prefix ?kes"
    and el: "leaf_encoded_len ?p (scan_summary scan) = Inr l" and big: "MANIFEST_LEAF_TARGET_BYTES < l"
    and info: "info = \<lparr>info_summary = scan_summary scan, first_key = keyed_key (hd ?kes),
        last_key = keyed_key (last ?kes), maximum_relative_depth = scan_depth scan\<rparr>"
    by (auto simp: finish_node_def Let_def res_simps key_prefix_def not_le)
  have "l = leaf_size ?p ?kes" using leaf_encoded_len_size [OF _ el] S by blast
  then have shape: "node_shape node ?kes" using pre big by (simp add: node_shape_def)
  have all_pre: "starts_with ?p (keyed_key k)" if "k \<in> set ?kes" for k
    using sorted_range_prefix [OF srt, of "keyed_key k"] that kne
    unfolding pre key_prefix_def by (simp add: hd_map last_map)
  have lens: "length kess = length ?cs" using list_all2_lengthD [OF kess] len by simp
  define h where "h = scan_depth scan - 1"
  have "\<exists>t. fst t = kess ! j \<and> radix x src h (child_ref (?cs ! j)) (fst t) (snd t)
      \<and> under_child node (?cs ! j) (fst t)" if j: "j < length ?cs" for j
  proof -
    have ci: "(?cs ! j, infos ! j) \<in> set ?cis" using j len by (auto simp: in_set_zip)
    have dj: "describes x src (child_ref (?cs ! j)) (infos ! j) (kess ! j)"
      using list_all2_nthD [OF kess, of j] j len by simp
    have okj: "child_ok node (?cs ! j) (infos ! j)" using ok ci by blast
    have "maximum_relative_depth (infos ! j) + 1 \<le> scan_depth scan" using S ci by blast
    then have "maximum_relative_depth (infos ! j) \<le> h" by (simp add: h_def)
    with dj obtain refs where rad: "radix x src h (child_ref (?cs ! j)) (kess ! j) refs"
      unfolding describes_def using radix_height_mono by blast
    have "kess ! j \<in> set kess" using j lens by simp
    then have sub: "set (kess ! j) \<subseteq> set ?kes" by auto
    have sj: "sorted_wrt (<) (map keyed_key (kess ! j))" and nej: "kess ! j \<noteq> []"
      using dj radix_nonempty by (auto simp: describes_def dest: radix_nonempty)
    have pj: "starts_with ?p (keyed_key k)" if "k \<in> set (kess ! j)" for k
      by (rule all_pre) (use sub that in blast)
    have "edge_at (keyed_key k) (length ?p) = child_edge (?cs ! j)" if k: "k \<in> set (kess ! j)" for k
    proof -
      have f: "first_key (infos ! j) \<le> keyed_key k" and l: "keyed_key k \<le> last_key (infos ! j)"
        using sj k nej dj sorted_range_bounds [OF sj, of "keyed_key k"]
        by (auto simp: describes_def hd_map last_map)
      have p: "starts_with ?p (first_key (infos ! j))" "starts_with ?p (last_key (infos ! j))"
        "starts_with ?p (keyed_key k)"
        using pj [of "hd (kess ! j)"] pj [of "last (kess ! j)"] pj [OF k] dj nej
        by (simp_all add: describes_def)
      from edge_at_mono [OF f p(1,3)] edge_at_mono [OF l p(3,2)] okj show ?thesis
        by (auto simp: child_ok_def)
    qed
    then have "under_child node (?cs ! j) (kess ! j)"
      using pj okj dj by (auto simp: under_child_def child_ok_def describes_def)
    with rad show ?thesis by (intro exI [of _ "(kess ! j, refs)"]) simp
  qed
  then obtain T where T: "\<And>j. j < length ?cs \<Longrightarrow> fst (T j) = kess ! j
      \<and> radix x src h (child_ref (?cs ! j)) (fst (T j)) (snd (T j)) \<and> under_child node (?cs ! j) (fst (T j))"
    by metis
  let ?ts = "map T [0..<length ?cs]"
  have fst: "map fst ?ts = kess" by (rule nth_equalityI) (use T lens in auto)
  have l2: "list_all2 (\<lambda>c (kes, refs). radix x src h (child_ref c) kes refs \<and> under_child node c kes) ?cs ?ts"
    unfolding list_all2_conv_all_nth
  proof (intro conjI allI impI)
    fix j assume "j < length ?cs"
    with T [of j] show "case ?ts ! j of (kes, refs) \<Rightarrow>
        radix x src h (child_ref (?cs ! j)) kes refs \<and> under_child node (?cs ! j) kes"
      by (cases "T j") simp
  qed simp
  have "radix x src (Suc h) r (concat (map fst ?ts)) (r # concat (map snd ?ts))"
    by (rule radix_node [OF load two edges l2]) (use shape fst in simp)
  moreover have "Suc h = scan_depth scan"
  proof -
    have "(?cs ! 0, infos ! 0) \<in> set ?cis" using two len by (auto simp: in_set_zip)
    then have "1 \<le> scan_depth scan" using S by fastforce
    then show ?thesis by (simp add: h_def)
  qed
  moreover have "scan_depth scan \<le> m" using S deep(1) by blast
  ultimately show ?thesis using srt S deep(2) fst unfolding describes_def info by auto
qed

lemma st_fold_children:
  assumes "\<And>c s. c \<in> set cs \<Longrightarrow> I s \<Longrightarrow> I (snd (rec c s)) \<and> (\<forall>i. fst (rec c s) = Inr i \<longrightarrow> Q c i)"
    and "I s"
  shows "I (snd (st_fold (\<lambda>scan c. st_bind (rec c) (\<lambda>i. st_lift (scan_child node c i scan))) scan cs s))
    \<and> (\<forall>scan'. fst (st_fold (\<lambda>scan c. st_bind (rec c) (\<lambda>i. st_lift (scan_child node c i scan))) scan cs s)
          = Inr scan' \<longrightarrow>
        (\<exists>infos. length infos = length cs \<and> (\<forall>(c, i) \<in> set (zip cs infos). Q c i)
          \<and> try_fold (\<lambda>scan (c, i). scan_child node c i scan) scan (zip cs infos) = Inr scan'))"
  using assms
proof (induction cs arbitrary: scan s)
  case (Cons c cs)
  obtain res s' where r: "rec c s = (res, s')" by fastforce
  from Cons.prems(1) [of c s] Cons.prems(2) r have I': "I s'" and q: "\<And>i. res = Inr i \<Longrightarrow> Q c i" by auto
  show ?case
  proof (cases res)
    case (Inl e)
    then show ?thesis using r I' by (simp add: st_bind_def)
  next
    case (Inr i)
    show ?thesis
    proof (cases "scan_child node c i scan")
      case (Inl e)
      then show ?thesis using r I' Inr by (simp add: st_bind_def st_lift_def)
    next
      case sc: (Inr scan1)
      have IH: "I (snd (st_fold (\<lambda>scan c. st_bind (rec c) (\<lambda>i. st_lift (scan_child node c i scan))) scan1 cs s'))
        \<and> (\<forall>scan'. fst (st_fold (\<lambda>scan c. st_bind (rec c) (\<lambda>i. st_lift (scan_child node c i scan))) scan1 cs s')
              = Inr scan' \<longrightarrow>
            (\<exists>infos. length infos = length cs \<and> (\<forall>(c, i) \<in> set (zip cs infos). Q c i)
              \<and> try_fold (\<lambda>scan (c, i). scan_child node c i scan) scan1 (zip cs infos) = Inr scan'))"
        by (rule Cons.IH) (use Cons.prems(1) I' in auto)
      have step: "st_fold (\<lambda>scan c. st_bind (rec c) (\<lambda>i. st_lift (scan_child node c i scan))) scan (c # cs) s
          = st_fold (\<lambda>scan c. st_bind (rec c) (\<lambda>i. st_lift (scan_child node c i scan))) scan1 cs s'"
        using r Inr sc by (simp add: st_bind_def st_lift_def)
      show ?thesis unfolding step
      proof (intro conjI allI impI)
        fix scan' assume "fst (st_fold (\<lambda>scan c. st_bind (rec c) (\<lambda>i. st_lift (scan_child node c i scan))) scan1 cs s') = Inr scan'"
        with IH obtain infos where "length infos = length cs" "\<forall>(c, i) \<in> set (zip cs infos). Q c i"
          "try_fold (\<lambda>scan (c, i). scan_child node c i scan) scan1 (zip cs infos) = Inr scan'" by blast
        then show "\<exists>infos. length infos = length (c # cs) \<and> (\<forall>(c, i) \<in> set (zip (c # cs) infos). Q c i)
          \<and> try_fold (\<lambda>scan (c, i). scan_child node c i scan) scan (zip (c # cs) infos) = Inr scan'"
          using q [OF Inr] sc by (intro exI [of _ "i # infos"]) auto
      qed (use IH in blast)
    qed
  qed
qed simp

lemma remember_cache_ok:
  assumes "remember r info (visited, cache) = (res, visited', cache')" "cache_ok x src cache"
    "describes x src r info kes"
  shows "cache_ok x src cache' \<and> (\<forall>i. res = Inr i \<longrightarrow> i = info)"
  using assms by (auto simp: remember_def cache_ok_def split: if_splits)

lemma validate_subtree_sound:
  "validate_subtree x src r depth (visited, cache) = (res, visited', cache') \<Longrightarrow> cache_ok x src cache \<Longrightarrow>
   cache_ok x src cache' \<and> (\<forall>info. res = Inr info \<longrightarrow>
     depth + maximum_relative_depth info \<le> MAX_MANIFEST_DEPTH \<and> (\<exists>kes. describes x src r info kes))"
proof (induction "MAX_MANIFEST_DEPTH + 1 - depth" arbitrary: r depth visited cache res visited' cache'
    rule: less_induct)
  case less
  note unf = less.prems(1) [unfolded validate_subtree.simps]
  show ?case
  proof (cases "MAX_MANIFEST_DEPTH < depth \<or> MAX_MANIFEST_VALIDATION_CHUNKS \<le> length visited \<or> r \<in> set visited")
    case True
    then show ?thesis using unf less.prems(2) by (auto split: if_splits)
  next
    case False
    then have dep: "depth \<le> MAX_MANIFEST_DEPTH" by simp
    show ?thesis
    proof (cases "map_of (validated cache) r")
      case (Some info)
      then have "\<exists>kes. describes x src r info kes"
        using less.prems(2) by (auto simp: cache_ok_def dest: map_of_SomeD)
      then show ?thesis
        using unf False Some less.prems(2)
        by (auto simp: usize_saturating_add_def MAX_MANIFEST_DEPTH_def not_less split: if_splits)
    next
      case None
      define body where "body = (\<lambda>chunk. case chunk of
               Leaf leaf stored \<Rightarrow> st_lift (validate_leaf x leaf stored)
             | Node node stored \<Rightarrow>
                 st_bind (st_lift (check_node node stored)) (\<lambda>_.
                 st_bind
                   (st_fold (\<lambda>scan child.
                      st_bind (validate_subtree x src (child_ref child) (depth + 1)) (\<lambda>info.
                      st_lift (scan_child node child info scan)))
                    child_scan_init (node_children node))
                 (\<lambda>scan. st_lift (finish_node node scan))))"
      have run: "st_bind (st_lift (load_chunk x src r)) (\<lambda>chunk. st_bind (body chunk) (\<lambda>info. remember r info))
          (r # visited, cache) = (res, visited', cache')"
        using unf False None unfolding body_def by simp
      have B: "cache_ok x src cache1 \<and> (\<forall>info. res1 = Inr info \<longrightarrow>
          depth + maximum_relative_depth info \<le> MAX_MANIFEST_DEPTH \<and> (\<exists>kes. describes x src r info kes))"
        if l: "load_chunk x src r = Inr chunk" and b: "body chunk (r # visited, cache) = (res1, visited1, cache1)"
        for chunk res1 visited1 cache1
      proof (cases chunk)
        case (Leaf leaf stored)
        then have "res1 = validate_leaf x leaf stored" "cache1 = cache"
          using b by (auto simp: body_def st_lift_def)
        then show ?thesis
          using validate_leaf_describes [of x src r leaf stored] l Leaf less.prems(2) dep by auto
      next
        case (Node node stored)
        show ?thesis
        proof (cases "check_node node stored")
          case (Inl e)
          then show ?thesis using b Node less.prems(2) by (auto simp: body_def st_bind_def st_lift_def)
        next
          case (Inr u)
          define fr where "fr = st_fold (\<lambda>scan child.
                      st_bind (validate_subtree x src (child_ref child) (depth + 1)) (\<lambda>info.
                      st_lift (scan_child node child info scan)))
                    child_scan_init (node_children node) (r # visited, cache)"
          have b2: "st_bind (\<lambda>s. fr) (\<lambda>scan. st_lift (finish_node node scan)) (r # visited, cache)
              = (res1, visited1, cache1)"
            using b Node Inr unfolding body_def fr_def by (simp add: st_bind_def st_lift_def)
          have C: "cache_ok x src (snd (snd fr)) \<and> (\<forall>scan'. fst fr = Inr scan' \<longrightarrow>
            (\<exists>infos. length infos = length (node_children node)
              \<and> (\<forall>(c, i) \<in> set (zip (node_children node) infos).
                    (depth + 1) + maximum_relative_depth i \<le> MAX_MANIFEST_DEPTH
                    \<and> (\<exists>kes. describes x src (child_ref c) i kes))
              \<and> try_fold (\<lambda>scan (c, i). scan_child node c i scan) child_scan_init
                  (zip (node_children node) infos) = Inr scan'))"
            unfolding fr_def
          proof (rule st_fold_children [where I = "\<lambda>s. cache_ok x src (snd s)"])
            fix c :: manifest_child and s :: "manifest_ref list \<times> validation_cache"
            assume "cache_ok x src (snd s)"
            moreover obtain v ca where s: "s = (v, ca)" by (cases s)
            obtain res2 v2 ca2 where e: "validate_subtree x src (child_ref c) (depth + 1) (v, ca) = (res2, v2, ca2)"
              by (metis prod_cases3)
            have "MAX_MANIFEST_DEPTH + 1 - (depth + 1) < MAX_MANIFEST_DEPTH + 1 - depth" using dep by simp
            from less.hyps [OF this e] \<open>cache_ok x src (snd s)\<close>
            show "cache_ok x src (snd (snd (validate_subtree x src (child_ref c) (depth + 1) s)))
              \<and> (\<forall>i. fst (validate_subtree x src (child_ref c) (depth + 1) s) = Inr i \<longrightarrow>
                   (depth + 1) + maximum_relative_depth i \<le> MAX_MANIFEST_DEPTH
                   \<and> (\<exists>kes. describes x src (child_ref c) i kes))"
              unfolding s e by simp
          qed (use less.prems(2) in simp)
          obtain fres fv fc where fr: "fr = (fres, fv, fc)" by (metis prod_cases3)
          show ?thesis
          proof (cases fres)
            case (Inl e)
            then show ?thesis using b2 C fr by (auto simp: st_bind_def)
          next
            case scan: (Inr scan)
            then have r1: "res1 = finish_node node scan" "cache1 = fc"
              using b2 fr by (auto simp: st_bind_def st_lift_def)
            from C fr scan obtain infos where inf: "length infos = length (node_children node)"
              "\<forall>(c, i) \<in> set (zip (node_children node) infos).
                    (depth + 1) + maximum_relative_depth i \<le> MAX_MANIFEST_DEPTH
                    \<and> (\<exists>kes. describes x src (child_ref c) i kes)"
              "scan_all node (zip (node_children node) infos) = Inr scan"
              by (auto simp: scan_all_def)
            have "maximum_relative_depth info \<le> MAX_MANIFEST_DEPTH - depth \<and> (\<exists>kes. describes x src r info kes)"
              if "res1 = Inr info" for info
              by (rule finish_node_describes [of x src r node stored infos scan])
                (use l Node Inr inf that r1 dep in \<open>auto\<close>)
            then show ?thesis using r1 C fr dep by auto
          qed
        qed
      qed
      show ?thesis
      proof (cases "load_chunk x src r")
        case (Inl e)
        then show ?thesis using run less.prems(2) by (auto simp: st_bind_def st_lift_def)
      next
        case (Inr chunk)
        obtain res1 v1 c1 where b: "body chunk (r # visited, cache) = (res1, v1, c1)" by (metis prod_cases3)
        note B1 = B [OF Inr b]
        show ?thesis
        proof (cases res1)
          case (Inl e)
          then show ?thesis using run b B1 Inr by (auto simp: st_bind_def st_lift_def)
        next
          case info: (Inr info)
          then have rem: "remember r info (v1, c1) = (res, visited', cache')"
            using run b Inr by (auto simp: st_bind_def st_lift_def)
          from B1 info obtain kes where "describes x src r info kes" by blast
          from remember_cache_ok [OF rem _ this] B1 info show ?thesis by blast
        qed
      qed
    qed
  qed
qed

section \<open>What validation guarantees\<close>

text \<open>A manifest that passed validation, and the keyed entries below its root.\<close>

definition validated_holds ::
    "external \<Rightarrow> chunk_source \<times> manifest_ref option \<Rightarrow> keyed_entry list \<Rightarrow> bool" where
  "validated_holds x m kes \<longleftrightarrow>
     (\<exists>expected cache cache'. cache_ok x (fst m) cache
        \<and> validate_manifest_cached x (fst m) (snd m) expected cache = (Inr (), cache'))
   \<and> (case snd m of
        None \<Rightarrow> kes = []
      | Some r \<Rightarrow> \<exists>h refs. radix x (fst m) h r kes refs)"

lemma validate_manifest_describes:
  assumes "validate_manifest_cached x src (Some r) expected cache = (Inr (), cache')"
    and "cache_ok x src cache"
  shows "\<exists>info kes. describes x src r info kes \<and> info_summary info = expected"
proof -
  obtain res v c where v: "validate_subtree x src r 0 ([], cache) = (res, v, c)" by (metis prod_cases3)
  with assms(1) obtain info where "res = Inr info" "info_summary info = expected"
    by (auto simp: validate_manifest_cached_def ensure_Inr_iff split: sum.splits)
  with validate_subtree_sound [OF v assms(2)] show ?thesis by blast
qed

interpretation validated: manifest_provider x fst snd "validated_holds x"
  for x
proof unfold_locales
  fix m :: "chunk_source \<times> manifest_ref option" and kes :: "keyed_entry list"
  assume h: "validated_holds x m kes"
  show "snd m = None \<Longrightarrow> kes = []" using h by (auto simp: validated_holds_def)
  have D: "\<exists>info. describes x (fst m) r info kes" if "snd m = Some r" for r
  proof -
    from h that obtain expected cache cache' hh refs where
      v: "validate_manifest_cached x (fst m) (Some r) expected cache = (Inr (), cache')"
        "cache_ok x (fst m) cache" and rad: "radix x (fst m) hh r kes refs"
      by (auto simp: validated_holds_def)
    from validate_manifest_describes [OF v] obtain info kes' where d: "describes x (fst m) r info kes'" by blast
    with rad have "kes' = kes" by (auto simp: describes_def dest: radix_det)
    with d show ?thesis by blast
  qed
  show "\<And>r. snd m = Some r \<Longrightarrow> \<exists>h refs. radix x (fst m) h r kes refs \<and> h \<le> MAX_MANIFEST_DEPTH"
    using D by (force simp: describes_def)
  show "sorted_wrt (<) (map keyed_key kes)"
    using D h by (cases "snd m") (auto simp: describes_def validated_holds_def)
  fix k assume k: "k \<in> set kes"
  then have "keyed_of x (keyed_entry k) = Inr k"
    using h by (cases "snd m") (auto simp: validated_holds_def dest: radix_keyed)
  then show "portable_path_key_v1 x (exact_path (keyed_entry k)) = Inr (keyed_key k)"
    by (cases k) (auto simp: keyed_of_def res_bind_Inr_iff)
qed

lemma validated_holdsI:
  assumes "validate_manifest_cached x src root expected cache = (Inr (), cache')"
    and "cache_ok x src cache"
  obtains kes where "validated_holds x (src, root) kes"
    "summary_sums expected = entry_sums (map keyed_entry kes)"
proof (cases root)
  case None
  with assms that [of "[]"] show ?thesis
    by (auto simp: validated_holds_def validate_manifest_cached_def ensure_Inr_iff)
next
  case (Some r)
  from validate_manifest_describes [OF assms(1) [unfolded Some] assms(2)] obtain info kes where
    "describes x src r info kes" "info_summary info = expected" by blast
  with assms Some that [of kes] show ?thesis by (auto simp: validated_holds_def describes_def)
qed

text \<open>C3: Whatever the source is, a manifest that passes validation streams without an error, in
strictly increasing order of the portable keys, exactly the number of entries and bytes its
summary states; and the validation cache keeps being sound, also when a later call fails.\<close>

theorem validated_manifest_iterates:
  assumes "validate_manifest_cached x src root expected cache = (res, cache')"
    and "cache_ok x src cache"
  shows "cache_ok x src cache'
    \<and> (res = Inr () \<longrightarrow>
        (\<exists>es keys. iter_collect x src (manifest_iter_new root) = Some (Inr es)
           \<and> try_map (\<lambda>e. portable_path_key_v1 x (exact_path e)) es = Inr keys
           \<and> sorted_wrt (<) keys
           \<and> summary_sums expected = entry_sums es))"
proof
  show "cache_ok x src cache'"
  proof (cases root)
    case None
    then show ?thesis using assms by (auto simp: validate_manifest_cached_def)
  next
    case (Some r)
    obtain res1 v c where v: "validate_subtree x src r 0 ([], cache) = (res1, v, c)" by (metis prod_cases3)
    then have "c = cache'" using assms(1) Some
      by (auto simp: validate_manifest_cached_def split: sum.splits)
    with validate_subtree_sound [OF v assms(2)] show ?thesis by blast
  qed
  show "res = Inr () \<longrightarrow> (\<exists>es keys. iter_collect x src (manifest_iter_new root) = Some (Inr es)
           \<and> try_map (\<lambda>e. portable_path_key_v1 x (exact_path e)) es = Inr keys
           \<and> sorted_wrt (<) keys \<and> summary_sums expected = entry_sums es)"
  proof
    assume "res = Inr ()"
    with assms(1) have v: "validate_manifest_cached x src root expected cache = (Inr (), cache')" by simp
    from validated_holdsI [OF v assms(2)] obtain kes where h: "validated_holds x (src, root) kes"
      and s: "summary_sums expected = entry_sums (map keyed_entry kes)" by metis
    have "try_map (\<lambda>e. portable_path_key_v1 x (exact_path e)) (map keyed_entry kes)
        = Inr (map keyed_key kes)"
      using validated.keyed [OF h] by (auto simp: try_map_Inr_iff list_all2_conv_all_nth)
    with validated.iterates [OF h] validated.increasing [OF h] s
    show "\<exists>es keys. iter_collect x src (manifest_iter_new root) = Some (Inr es)
           \<and> try_map (\<lambda>e. portable_path_key_v1 x (exact_path e)) es = Inr keys
           \<and> sorted_wrt (<) keys \<and> summary_sums expected = entry_sums es"
      by fastforce
  qed
qed

text \<open>C4: On a validated manifest a lookup returns an entry exactly when streaming yields it and
it has the portable key of the path.\<close>

theorem validated_manifest_lookup:
  assumes "validate_manifest_cached x src root expected cache = (Inr (), cache')"
    and "cache_ok x src cache"
    and "iter_collect x src (manifest_iter_new root) = Some (Inr es)"
  shows "(lookup_manifest_entry x src root p = Inr (Some e) \<longleftrightarrow>
            e \<in> set es \<and> (\<exists>key. portable_path_key_v1 x p = Inr key
                             \<and> portable_path_key_v1 x (exact_path e) = Inr key))
       \<and> (lookup_manifest_entry x src root p = Inr None \<longleftrightarrow>
            (\<exists>key. portable_path_key_v1 x p = Inr key
               \<and> (\<forall>e \<in> set es. portable_path_key_v1 x (exact_path e) \<noteq> Inr key)))"
proof -
  from validated_holdsI [OF assms(1,2)] obtain kes where h: "validated_holds x (src, root) kes" by metis
  from validated.iterates [OF h] assms(3) have es: "es = map keyed_entry kes" by simp
  then show ?thesis
    using validated.lookup_found_iff [OF h, of p e] validated.lookup_none_iff [OF h, of p]
    by simp
qed

text \<open>C5: The root of a manifest is determined by its entries: two manifests that validate, from
any two sources, and stream the same entries have the same root reference. No assumption on the
hash function is needed.\<close>

theorem validated_root_canonical:
  assumes "validate_manifest_cached x src1 root1 expected1 cache1 = (Inr (), cache1')"
    and "cache_ok x src1 cache1"
    and "validate_manifest_cached x src2 root2 expected2 cache2 = (Inr (), cache2')"
    and "cache_ok x src2 cache2"
    and "iter_collect x src1 (manifest_iter_new root1) = Some (Inr es)"
    and "iter_collect x src2 (manifest_iter_new root2) = Some (Inr es)"
  shows "root1 = root2"
proof -
  from validated_holdsI [OF assms(1,2)] obtain k1 where h1: "validated_holds x (src1, root1) k1" by metis
  from validated_holdsI [OF assms(3,4)] obtain k2 where h2: "validated_holds x (src2, root2) k2" by metis
  have "map keyed_entry k1 = map keyed_entry k2"
    using validated.iterates [OF h1] validated.iterates [OF h2] assms(5,6) by simp
  moreover have "map (\<lambda>k. keyed_of x (keyed_entry k)) k1 = map Inr k1"
    "map (\<lambda>k. keyed_of x (keyed_entry k)) k2 = map Inr k2"
    using validated.keyed [OF h1] validated.keyed [OF h2] by (auto simp: keyed_of_def)
  ultimately have "map Inr k1 = (map Inr k2 :: keyed_entry snapshot_result list)"
    by (metis (mono_tags, lifting) list.map_comp comp_def map_eq_conv)
  then have k: "k1 = k2" by (metis inj_Inr list.inj_map_strong sum.inject(2))
  show ?thesis
  proof (cases root1)
    case None
    then have "k2 = []" using h1 k by (simp add: validated_holds_def)
    then show ?thesis using h2 None
      by (cases root2) (auto simp: validated_holds_def dest: radix_nonempty)
  next
    case (Some r1)
    then obtain h refs where r1: "radix x src1 h r1 k1 refs" using h1 by (auto simp: validated_holds_def)
    then have "k1 \<noteq> []" by (rule radix_nonempty)
    then obtain r2 h' refs' where "root2 = Some r2" "radix x src2 h' r2 k1 refs'"
      using h2 k by (cases root2) (auto simp: validated_holds_def)
    with radix_unique [OF r1] Some show ?thesis by simp
  qed
qed

end
