(* ===== verification/ManifestTotal.thy ===== *)
theory ManifestTotal
  imports ManifestValidate "HOL-Library.Code_Target_Nat"
begin

text \<open>
  When building and validating succeed. The theorems of ManifestBuild and
  ManifestValidate say what a successful build or validation guarantees; here
  the builder is shown to succeed on every checkpoint that fits one leaf, the
  validator to accept a well-formed leaf, and a validated manifest to be
  rebuilt from its own entries with the same root. A small sample project
  carries the closed instances of the manifest theorems.
\<close>

section \<open>Totality of the builder on one leaf\<close>

lemma summary_prefixes_total:
  "sums_fit (add_sums (summary_sums s) (entry_sums (map keyed_entry es))) \<Longrightarrow> \<exists>ps. summary_prefixes s es = Inr ps"
proof (induction es arbitrary: s)
  case (Cons e es)
  let ?t = "(1, unat (size_bytes (keyed_entry e)), length (exact_path (keyed_entry e)))"
  have f: "sums_fit (add_sums (add_sums (summary_sums s) ?t) (entry_sums (map keyed_entry es)))"
    using Cons.prems by (simp add: add_sums_assoc)
  then have "sums_fit (add_sums (summary_sums s) ?t)" "sums_fit ?t" using sums_fit_mono by blast+
  then obtain d s' where "summary_sums d = ?t" "summary_sums s' = add_sums (summary_sums s) ?t"
    by (auto simp: sums_fit_iff)
  then have "keyed_summary (keyed_entry e) = Inr d" "from_codec (summary_checked_add s d) = Inr s'"
    by (simp_all add: keyed_summary_iff from_codec_Inr_iff summary_checked_add_iff)
  moreover obtain ps where "summary_prefixes s' es = Inr ps"
    using Cons.IH [of s'] f \<open>summary_sums s' = _\<close> by auto
  ultimately show ?case by simp
qed simp

lemma range_summary_total:
  assumes ps: "summary_prefixes summary_default es = Inr ps"
  shows "\<exists>s. range_summary ps 0 (length es) = Inr s"
proof -
  have p: "length ps = Suc (length es)"
    "\<And>i. i \<le> length es \<Longrightarrow> summary_sums (ps ! i) = entry_sums (map keyed_entry (take i es))"
    using summary_prefixes_sums [OF ps] by auto
  have "summary_sums (ps ! 0) = (0, 0, 0)" using p(2) [of 0] by simp
  then have "ps ! 0 = summary_default" using summary_sums_inj summary_sums_default by metis
  then show ?thesis using p(1)
    by (simp add: range_summary_def checked_sub_def summary_default_def)
qed

lemma encode_leaf_total:
  assumes "length (leaf_prefix l) \<le> MAX_PREFIX_BYTES" "sums_fit (entry_sums (leaf_entries l))"
    and "\<forall>e \<in> set (leaf_entries l). length (exact_path e) \<le> MAX_EXACT_PATH_BYTES
          \<and> nanoseconds (modified e) < 1000000000 \<and> entry_typed e"
    and "50 + length (leaf_prefix l) + 56 * length (leaf_entries l)
          + sum_list (map (\<lambda>e. length (exact_path e)) (leaf_entries l)) \<le> MANIFEST_LEAF_TARGET_BYTES"
  shows "\<exists>bs. encode_leaf l = Inr bs"
proof -
  have wr: "\<exists>w. wr_bytes v = Inr w" if "length v \<le> MAX_PREFIX_BYTES" for v
    using that by (simp add: wr_bytes_def usize_to_u32_def MAX_PREFIX_BYTES_def MAX_EXACT_PATH_BYTES_def)
  have n: "length (leaf_entries l) \<le> 585" using assms(4) by (simp add: MANIFEST_LEAF_TARGET_BYTES_def)
  have "\<exists>ws. try_map encode_leaf_entry es = Inr ws
      \<and> length (concat ws) = 56 * length es + sum_list (map (\<lambda>e. length (exact_path e)) es)"
    if "\<forall>e \<in> set es. length (exact_path e) \<le> MAX_EXACT_PATH_BYTES
          \<and> nanoseconds (modified e) < 1000000000 \<and> entry_typed e" for es
    using that
  proof (induction es)
    case (Cons e es)
    then obtain w where w: "wr_string (exact_path e) = Inr w"
      using wr by (auto simp: wr_string_def MAX_PREFIX_BYTES_def)
    have "timestamp_new (unix_seconds (modified e)) (nanoseconds (modified e))
        = Inr \<lparr>unix_seconds = unix_seconds (modified e), nanoseconds = nanoseconds (modified e)\<rparr>"
      using Cons.prems by (simp add: timestamp_new_iff)
    with w obtain b where b: "encode_leaf_entry e = Inr b" using Cons.prems
      by (auto simp: encode_leaf_entry_def validate_text_def validate_bytes_def)
    have "length b = 56 + length (exact_path e)"
      by (rule length_encode_leaf_entry) (use Cons.prems b in auto)
    with b Cons show ?case by auto
  qed simp
  from this [OF assms(3)] obtain ws where ws: "try_map encode_leaf_entry (leaf_entries l) = Inr ws"
    "length (concat ws) = 56 * length (leaf_entries l) + sum_list (map (\<lambda>e. length (exact_path e)) (leaf_entries l))"
    by blast
  obtain s where s: "leaf_summary l = Inr s" using assms(2) by (auto simp: leaf_summary_iff sums_fit_iff)
  obtain pw where pw: "wr_bytes (leaf_prefix l) = Inr pw" using wr assms(1) by blast
  then have "length pw = 4 + length (leaf_prefix l)" by (auto simp: wr_bytes_iff)
  obtain k where k: "usize_to_u32 ''leaf entry count'' (length (leaf_entries l)) = Inr k"
    using n by (simp add: usize_to_u32_def)
  define payload where "payload = word_be PAYLOAD_SCHEMA @ pw @ word_be k @ wr_summary s @ concat ws"
  have len: "length payload = 34 + length (leaf_prefix l) + 56 * length (leaf_entries l)
      + sum_list (map (\<lambda>e. length (exact_path e)) (leaf_entries l))"
    using ws(2) \<open>length pw = _\<close> by (simp add: payload_def wr_summary_def)
  then have "length payload < 2 ^ 32" "ENVELOPE_LEN + length payload \<le> maximum_stored_len LeafChunk"
    using assms(4) by (auto simp: MANIFEST_LEAF_TARGET_BYTES_def maximum_stored_len_def
        MAX_MANIFEST_CHUNK_BYTES_def ENVELOPE_LEN_def)
  moreover from this(1) obtain p where "unat (p :: u32) = length payload"
    using usize_to_u32_iff [of "[]" "length payload"] by (auto simp: usize_to_u32_def)
  ultimately have "envelope LeafChunk payload = Inr (envelope_header LeafChunk p @ payload)"
    by (auto simp: envelope_iff)
  with assms(1) n s pw k ws(1) show ?thesis
    by (simp add: encode_leaf_def validate_bytes_def validate_count_def MAX_LEAF_ENTRIES_def payload_def)
qed

lemma portable_key_bounds:
  "portable_path_key_v1 x p = Inr k \<Longrightarrow> length p \<le> MAX_EXACT_PATH_BYTES \<and> length k \<le> MAX_EXACT_PATH_BYTES"
  by (auto simp: portable_path_key_v1_def res_simps Let_def not_less)

lemma keyed_bounds:
  "try_map (keyed_of x) es = Inr kes \<Longrightarrow> k \<in> set kes \<Longrightarrow>
   length (exact_path (keyed_entry k)) \<le> MAX_EXACT_PATH_BYTES \<and> length (keyed_key k) \<le> MAX_EXACT_PATH_BYTES
   \<and> keyed_entry k \<in> set es"
  unfolding try_map_Inr_iff
  by (induction rule: list_all2_induct) (auto simp: keyed_of_def res_bind_Inr_iff dest: portable_key_bounds)

lemma build_one_leaf:
  assumes "hash_length x" and "entries \<noteq> []"
    and "\<forall>e \<in> set entries. entry_typed e \<and> nanoseconds (modified e) < 1000000000"
    and "try_map (keyed_of x) entries = Inr keyed"
    and "validate_ordered_keys (sort_key keyed_key keyed) = Inr ()"
    and "sums_fit (entry_sums entries)"
    and "leaf_size (key_prefix (sort_key keyed_key keyed)) keyed \<le> MANIFEST_LEAF_TARGET_BYTES"
  shows "\<exists>m r bs. build_manifest x entries = Inr m
    \<and> encode_leaf \<lparr>leaf_prefix = key_prefix (sort_key keyed_key keyed),
         leaf_entries = map keyed_entry (sort_key keyed_key keyed)\<rparr> = Inr bs
    \<and> length bs = leaf_size (key_prefix (sort_key keyed_key keyed)) keyed
    \<and> r = \<lparr>ref_kind = LeafChunk, ref_id = domain_hash (blake3 x) LEAF_HASH_DOMAIN bs\<rparr>
    \<and> manifest_root m = Some r \<and> manifest_chunks m = [r \<mapsto> bs]
    \<and> summary_sums (manifest_summary m) = entry_sums entries"
proof -
  let ?kes = "sort_key keyed_key keyed"
  let ?leaf = "\<lparr>leaf_prefix = key_prefix ?kes, leaf_entries = map keyed_entry ?kes\<rparr>"
  have ms: "mset (map keyed_entry ?kes) = mset entries"
    using try_map_keyed_entry [OF assms(4)] by (metis mset_map mset_sort)
  have ne: "keyed \<noteq> []" "?kes \<noteq> []" using try_map_keyed_nonempty [OF assms(4,2)]
    by (auto dest: arg_cong [of _ _ length])
  have sums: "entry_sums (map keyed_entry ?kes) = entry_sums entries"
    using ms by (metis (no_types, lifting) entry_sums_def mset_eq_length mset_map sum_mset_sum_list)
  have len: "length ?kes = length keyed" by simp
  have sz: "leaf_size (key_prefix ?kes) ?kes = leaf_size (key_prefix ?kes) keyed"
  proof -
    have "sum_list (map (\<lambda>k. length (exact_path (keyed_entry k))) ?kes)
        = sum_list (map (\<lambda>k. length (exact_path (keyed_entry k))) keyed)"
      by (metis mset_map mset_sort sum_mset_sum_list)
    then show ?thesis by (simp add: leaf_size_def)
  qed
  obtain ps where ps: "summary_prefixes summary_default ?kes = Inr ps"
    using summary_prefixes_total [of summary_default ?kes] assms(6) sums by auto
  obtain s where s: "range_summary ps 0 (length ?kes) = Inr s" using range_summary_total [OF ps] by blast
  have ss: "summary_sums s = entry_sums (map keyed_entry ?kes)"
    using range_summary_sums [OF ps s] by (simp add: slice_def)
  have el: "leaf_encoded_len (key_prefix ?kes) s = Inr (leaf_size (key_prefix ?kes) ?kes)"
    using assms(7) sz ss
    by (simp add: leaf_encoded_len_iff leaf_size_def entry_sums_def comp_def MANIFEST_LEAF_TARGET_BYTES_def)
  have "\<forall>e \<in> set (map keyed_entry ?kes). e \<in> set entries \<and> length (exact_path e) \<le> MAX_EXACT_PATH_BYTES"
    using keyed_bounds [OF assms(4)] by auto
  moreover have "length (key_prefix ?kes) \<le> MAX_PREFIX_BYTES"
    using keyed_bounds [OF assms(4), of "hd ?kes"] ne hd_in_set [OF ne(2)]
    by (simp add: key_prefix_def MAX_PREFIX_BYTES_def min.coboundedI1)
  ultimately obtain bs where bs: "encode_leaf ?leaf = Inr bs"
    using encode_leaf_total [of ?leaf] assms(3,6,7) sums sz
    by (auto simp: leaf_size_def comp_def)
  have "length bs = leaf_size (key_prefix ?kes) ?kes"
    using length_encode_leaf [of ?leaf bs] bs assms(3) mset_eq_setD [OF ms]
    by (auto simp: leaf_typed_def leaf_size_def comp_def)
  then have lb: "length bs = leaf_size (key_prefix ?kes) keyed" using sz by simp
  define r where "r = \<lparr>ref_kind = LeafChunk, ref_id = domain_hash (blake3 x) LEAF_HASH_DOMAIN bs\<rparr>"
  have ins: "insert_chunk x LeafChunk bs Map.empty = Inr (r, [r \<mapsto> bs])"
    by (simp add: insert_chunk_def manifest_id_def manifest_ref_new_def from_codec_def r_def)
  have "build_range x MANIFEST_LEAF_TARGET_BYTES ?kes ps 0 (length ?kes) 0 Map.empty
      = Inr ((r, s), [r \<mapsto> bs])"
    using s el bs ins assms(7) sz ne
    by (subst build_range.simps) (simp add: Let_def key_prefix_def from_codec_def)
  then have "build_manifest x entries
      = Inr \<lparr>manifest_root = Some r, manifest_summary = s, manifest_chunks = [r \<mapsto> bs]\<rparr>"
    using assms(2,4,5) ps by (simp add: build_manifest_def build_manifest_with_leaf_target_def Let_def)
  moreover have "summary_sums s = entry_sums entries" using ss sums by simp
  ultimately show ?thesis using bs lb by (auto simp: r_def)
qed

text \<open>C11: Building cannot fail on checkpoints that fit one leaf. The hypotheses are: every entry
has a path in UTF-8, a digest of 32 bytes as object id and less than a second of nanoseconds, every path has a portable key,
no key equals another and none, in key order, is a directory above the one after it, the byte counts
fit 64 bits, and the predicted size of the one leaf is within the target. Then the result is the
manifest of exactly one chunk, the encoding of the leaf of all the entries in the order of their
keys, referenced by its hash; that chunk has the predicted size, and the summary counts the entries.\<close>

theorem build_manifest_one_leaf:
  assumes "hash_length x" and "entries \<noteq> []"
    and "\<forall>e \<in> set entries. entry_typed e \<and> nanoseconds (modified e) < 1000000000"
    and "try_map (keyed_of x) entries = Inr keyed"
    and "validate_ordered_keys (sort_key keyed_key keyed) = Inr ()"
    and "sums_fit (entry_sums entries)"
    and "leaf_size (key_prefix (sort_key keyed_key keyed)) keyed \<le> MANIFEST_LEAF_TARGET_BYTES"
  shows "\<exists>m r bs. build_manifest x entries = Inr m
    \<and> encode_leaf \<lparr>leaf_prefix = key_prefix (sort_key keyed_key keyed),
         leaf_entries = map keyed_entry (sort_key keyed_key keyed)\<rparr> = Inr bs
    \<and> length bs = leaf_size (key_prefix (sort_key keyed_key keyed)) keyed
    \<and> r = \<lparr>ref_kind = LeafChunk, ref_id = domain_hash (blake3 x) LEAF_HASH_DOMAIN bs\<rparr>
    \<and> manifest_root m = Some r \<and> manifest_chunks m = [r \<mapsto> bs]
    \<and> summary_sums (manifest_summary m) = entry_sums entries"
  using assms by (rule build_one_leaf)

text \<open>A sample: a hash that pads, no normalisation, no case mapping, and two entries.\<close>

definition sample_external :: external where
  "sample_external =
     \<lparr>blake3 = (\<lambda>bs. take 32 (bs @ replicate 32 0)), nfc = (\<lambda>cs. cs), to_lowercase = (\<lambda>_. [0, 0])\<rparr>"

definition sample_entry :: "str \<Rightarrow> manifest_entry" where
  "sample_entry c =
     \<lparr>exact_path = lit ''Assets/'' @ c, size_bytes = 3,
      modified = \<lparr>unix_seconds = 0, nanoseconds = 0\<rparr>, entry_object_id = replicate 32 7\<rparr>"

definition sample_keyed :: "str \<Rightarrow> keyed_entry" where
  "sample_keyed c = \<lparr>keyed_key = lit ''Assets/'' @ c, keyed_entry = sample_entry c\<rparr>"

lemma sample_keyed_entry [simp]: "keyed_entry (sample_keyed c) = sample_entry c"
  by (simp add: sample_keyed_def)

lemma sample_hash_length: "hash_length sample_external"
  by (auto simp: hash_length_def sample_external_def min_def)

lemma sample_keyed_of:
  "try_map (keyed_of sample_external) [sample_entry [0x62], sample_entry [0x61]]
     = Inr [sample_keyed [0x62], sample_keyed [0x61]]"
  by code_simp

lemma sample_sorted:
  "sort_key keyed_key [sample_keyed [0x62], sample_keyed [0x61]] = [sample_keyed [0x61], sample_keyed [0x62]]"
  by code_simp

lemma sample_ordered: "validate_ordered_keys [sample_keyed [0x61], sample_keyed [0x62]] = Inr ()"
  by code_simp

lemma sample_typed:
  "\<forall>e \<in> set [sample_entry [0x62], sample_entry [0x61]]. entry_typed e \<and> nanoseconds (modified e) < 1000000000"
  by code_simp

lemma sample_sums: "sums_fit (entry_sums [sample_entry [0x62], sample_entry [0x61]])"
  by (simp add: sums_fit_def entry_sums_def sample_entry_def)

lemma sample_size:
  "leaf_size (key_prefix [sample_keyed [0x61], sample_keyed [0x62]]) [sample_keyed [0x62], sample_keyed [0x61]]
     \<le> MANIFEST_LEAF_TARGET_BYTES"
  by code_simp

lemma sample_build:
  "\<exists>m r bs. build_manifest sample_external [sample_entry [0x62], sample_entry [0x61]] = Inr m
    \<and> manifest_root m = Some r \<and> ref_kind r = LeafChunk \<and> manifest_chunks m = [r \<mapsto> bs]"
  using build_one_leaf [OF sample_hash_length _ sample_typed sample_keyed_of _ sample_sums]
    sample_sorted sample_ordered sample_size by auto

lemma build_manifest_one_leaf_witness:
  "\<exists>m r bs. build_manifest sample_external [sample_entry [0x62], sample_entry [0x61]] = Inr m
    \<and> encode_leaf \<lparr>leaf_prefix = key_prefix [sample_keyed [0x61], sample_keyed [0x62]],
         leaf_entries = [sample_entry [0x61], sample_entry [0x62]]\<rparr> = Inr bs
    \<and> manifest_root m = Some r \<and> manifest_chunks m = [r \<mapsto> bs]"
  using build_manifest_one_leaf [OF sample_hash_length _ sample_typed sample_keyed_of _ sample_sums]
    sample_sorted sample_ordered sample_size by auto

text \<open>C10: The summary of a built manifest counts its entries, their bytes and their path bytes.\<close>

theorem built_manifest_summary:
  assumes "hash_length x" and "\<forall>e \<in> set entries. entry_typed e"
    and "build_manifest x entries = Inr m"
  shows "summary_sums (manifest_summary m) = entry_sums entries"
proof -
  obtain keyed where k: "try_map (keyed_of x) entries = Inr keyed"
    using build_manifest_keyed [OF assms(3)] by blast
  have "mset (map keyed_entry (sort_key keyed_key keyed)) = mset entries"
    using try_map_keyed_entry [OF k] by (metis mset_map mset_sort)
  then have "entry_sums (map keyed_entry (sort_key keyed_key keyed)) = entry_sums entries"
    by (metis (no_types, lifting) entry_sums_def mset_eq_length mset_map sum_mset_sum_list)
  with build_manifest_radix [OF assms k] show ?thesis by simp
qed

text \<open>C18: The size the builder and the validator predict for a leaf is the exact length of its
stored encoding, so the leaf target bounds what is stored.\<close>

theorem leaf_encoded_len_exact:
  assumes "leaf_typed l" and "encode_leaf l = Inr bs" and "leaf_summary l = Inr s"
  shows "leaf_encoded_len (leaf_prefix l) s = Inr (length bs) \<and> length bs \<le> MAX_MANIFEST_CHUNK_BYTES"
  using length_encode_leaf [OF assms(1,2)] assms(3)
  by (auto simp: leaf_encoded_len_iff leaf_summary_iff entry_sums_def MAX_MANIFEST_CHUNK_BYTES_def)

lemma sample_entries_typed: "\<forall>e \<in> set [sample_entry [0x62], sample_entry [0x61]]. entry_typed e"
  using sample_typed by blast

lemma built_manifest_summary_witness:
  "\<exists>m. build_manifest sample_external [sample_entry [0x62], sample_entry [0x61]] = Inr m
     \<and> summary_sums (manifest_summary m) = (2, 6, 16)"
proof -
  obtain m where m: "build_manifest sample_external [sample_entry [0x62], sample_entry [0x61]] = Inr m"
    using sample_build by blast
  from built_manifest_summary [OF sample_hash_length sample_entries_typed m] m show ?thesis
    by (simp add: entry_sums_def sample_entry_def)
qed

lemma leaf_encoded_len_exact_witness:
  "\<exists>bs s. encode_leaf \<lparr>leaf_prefix = [], leaf_entries = [sample_entry [0x61]]\<rparr> = Inr bs
     \<and> leaf_encoded_len [] s = Inr (length bs)"
proof -
  let ?l = "\<lparr>leaf_prefix = [], leaf_entries = [sample_entry [0x61]]\<rparr>"
  have t: "leaf_typed ?l" using sample_typed by (simp add: leaf_typed_def)
  obtain bs where bs: "encode_leaf ?l = Inr bs"
    using encode_leaf_total [of ?l] sample_typed
    by (auto simp: sums_fit_def entry_sums_def sample_entry_def MAX_EXACT_PATH_BYTES_def
        MANIFEST_LEAF_TARGET_BYTES_def)
  then obtain s where s: "leaf_summary ?l = Inr s" by (auto simp: encode_leaf_def res_bind_Inr_iff)
  from leaf_encoded_len_exact [OF t bs s] bs show ?thesis by auto
qed

lemma built_manifest_iterates_witness:
  "\<exists>m es. build_manifest sample_external [sample_entry [0x62], sample_entry [0x61]] = Inr m
     \<and> iter_collect sample_external (load_manifest_chunk m) (manifest_iter_new (manifest_root m)) = Some (Inr es)
     \<and> mset es = {#sample_entry [0x62], sample_entry [0x61]#}"
proof -
  obtain m where m: "build_manifest sample_external [sample_entry [0x62], sample_entry [0x61]] = Inr m"
    using sample_build by blast
  from built_manifest_iterates [OF sample_hash_length sample_entries_typed m] m show ?thesis by auto
qed

lemma built_manifest_lookup_witness:
  "\<exists>m. build_manifest sample_external [sample_entry [0x62], sample_entry [0x61]] = Inr m
     \<and> lookup_manifest_entry sample_external (load_manifest_chunk m) (manifest_root m) (lit ''Assets/a'')
         = Inr (Some (sample_entry [0x61]))"
proof -
  obtain m where m: "build_manifest sample_external [sample_entry [0x62], sample_entry [0x61]] = Inr m"
    using sample_build by blast
  have "portable_path_key_v1 sample_external (lit ''Assets/a'') = Inr (lit ''Assets/a'')" by code_simp
  moreover have "exact_path (sample_entry [0x61]) = lit ''Assets/a''" by (simp add: sample_entry_def)
  ultimately show ?thesis
    using built_manifest_lookup [OF sample_hash_length sample_entries_typed m,
        of "lit ''Assets/a''" "sample_entry [0x61]"] m
    by (metis list.set_intros(1,2))
qed

lemma build_manifest_order_independent_witness:
  "\<exists>m. build_manifest sample_external [sample_entry [0x61], sample_entry [0x62]] = Inr m
     \<and> build_manifest sample_external [sample_entry [0x62], sample_entry [0x61]] = Inr m"
proof -
  obtain m where m: "build_manifest sample_external [sample_entry [0x62], sample_entry [0x61]] = Inr m"
    using sample_build by blast
  have "mset [sample_entry [0x62], sample_entry [0x61]] = mset [sample_entry [0x61], sample_entry [0x62]]" by simp
  from build_manifest_order_independent [OF this m] m show ?thesis by blast
qed

section \<open>Validation of a single leaf\<close>

lemma validate_leaf_complete:
  assumes load: "load_chunk x src r = Inr (Leaf leaf stored)"
    and kes: "try_map (keyed_of x) (leaf_entries leaf) = Inr kes" and ne: "kes \<noteq> []"
    and shape: "leaf_shape leaf kes" and ord: "validate_ordered_keys kes = Inr ()"
    and s: "summary_sums s = entry_sums (leaf_entries leaf)"
  shows "validate_leaf x leaf stored = Inr \<lparr>info_summary = s, first_key = keyed_key (hd kes),
      last_key = keyed_key (last kes), maximum_relative_depth = 0\<rparr>"
proof -
  from load_chunk_leaf_ref [OF load] have enc: "encode_leaf leaf = Inr stored" and ty: "leaf_typed leaf" by auto
  have e: "map keyed_entry kes = leaf_entries leaf" using try_map_keyed_entry [OF kes] .
  then have el: "leaf_entries leaf \<noteq> []" "length (leaf_entries leaf) = length kes"
    using ne by (auto dest: arg_cong [of _ _ length])
  have "length stored = leaf_size (leaf_prefix leaf) kes"
    using length_encode_leaf [OF ty enc] e [symmetric] by (simp add: leaf_size_def comp_def)
  moreover have "leaf_summary leaf = Inr s" using s by (simp add: leaf_summary_iff)
  ultimately show ?thesis
    using enc kes ord shape el
    by (auto simp: validate_leaf_def from_codec_def leaf_shape_def key_prefix_def Let_def)
qed

lemma validate_one_leaf:
  assumes load: "load_chunk x src r = Inr (Leaf leaf stored)"
    and kes: "try_map (keyed_of x) (leaf_entries leaf) = Inr kes" and ne: "kes \<noteq> []"
    and shape: "leaf_shape leaf kes" and ord: "validate_ordered_keys kes = Inr ()"
    and s: "summary_sums s = entry_sums (leaf_entries leaf)"
  shows "\<exists>cache. validate_manifest_cached x src (Some r) s validation_cache_default = (Inr (), cache)"
proof -
  note v = validate_leaf_complete [OF assms]
  have "length (keyed_key k) \<le> MAX_EXACT_PATH_BYTES" if "k \<in> set kes" for k
    using keyed_bounds [OF kes that] by blast
  from this [of "hd kes"] this [of "last kes"] ne
  have "length (keyed_key (hd kes)) \<le> 131072" "length (keyed_key (last kes)) \<le> 131072"
    by (simp_all add: MAX_EXACT_PATH_BYTES_def)
  then show ?thesis
    unfolding validate_manifest_cached_def validation_cache_default_def
    by (simp add: validate_subtree.simps st_bind_def st_lift_def load v remember_def
        MAX_MANIFEST_VALIDATION_CHUNKS_def estimated_bytes_def usize_saturating_add_def
        MAX_MANIFEST_VALIDATION_CACHE_BYTES_def min_def)
qed

lemma sample_validates:
  obtains m r cache where
    "build_manifest sample_external [sample_entry [0x62], sample_entry [0x61]] = Inr m"
    "manifest_root m = Some r"
    "validate_manifest_cached sample_external (load_manifest_chunk m) (Some r) (manifest_summary m)
       validation_cache_default = (Inr (), cache)"
proof -
  let ?es = "[sample_entry [0x62], sample_entry [0x61]]"
  let ?kes = "sort_key keyed_key [sample_keyed [0x62], sample_keyed [0x61]]"
  obtain m r bs where m: "build_manifest sample_external ?es = Inr m" "manifest_root m = Some r"
    "ref_kind r = LeafChunk"
    using sample_build by metis
  have ty: "\<forall>e \<in> set ?es. entry_typed e" using sample_typed by blast
  note B = build_manifest_radix [OF sample_hash_length ty m(1) sample_keyed_of]
  then obtain refs where "radix sample_external (load_manifest_chunk m) MAX_MANIFEST_DEPTH r ?kes refs"
    using m(2) by auto
  then show ?thesis
  proof (cases rule: radix.cases)
    case (radix_leaf leaf stored)
    have "entry_sums (map keyed_entry ?kes) = summary_sums (manifest_summary m)" using B by simp
    then have "summary_sums (manifest_summary m) = entry_sums (leaf_entries leaf)"
      using try_map_keyed_entry [OF radix_leaf(3)] by simp
    from validate_one_leaf [OF radix_leaf(2,3,4,5) _ this] sample_ordered sample_sorted m that show ?thesis
      by auto
  next
    case (radix_node node stored h ts)
    from load_chunk_node_ref [OF radix_node(4)] m(3) show ?thesis by (cases r) auto
  qed
qed

lemma radix_typed: "radix x src h r kes refs \<Longrightarrow> k \<in> set kes \<Longrightarrow> entry_typed (keyed_entry k)"
proof (induction rule: radix.induct)
  case (radix_leaf r leaf bs kes h)
  then have "leaf_typed leaf" "map keyed_entry kes = leaf_entries leaf"
    using load_chunk_leaf_ref try_map_keyed_entry by blast+
  then show ?case using radix_leaf.prems unfolding leaf_typed_def by (metis imageI list.set_map)
next
  case (radix_node r node bs h ts)
  then obtain t where t: "t \<in> set ts" "k \<in> set (fst t)" by auto
  then obtain i where "i < length ts" "ts ! i = t" by (auto simp: in_set_conv_nth)
  with t show ?case using list_all2_nthD2 [OF radix_node.IH, of i] by (cases t) auto
qed

text \<open>C6: Rebuilding the entries of a validated manifest, in any order, gives the same root.\<close>

theorem rebuilt_root_same:
  assumes "hash_length x"
    and "validate_manifest_cached x src root expected cache = (Inr (), cache')"
    and "cache_ok x src cache"
    and "iter_collect x src (manifest_iter_new root) = Some (Inr es)"
    and "mset es' = mset es" and "build_manifest x es' = Inr m"
  shows "manifest_root m = root"
proof -
  from validated_holdsI [OF assms(2,3)] obtain kes where h: "validated_holds x (src, root) kes" by metis
  have es: "es = map keyed_entry kes" using validated.iterates [OF h] assms(4) by simp
  have m: "build_manifest x es = Inr m"
    by (rule build_order_independent [OF assms(5,6)])
  have kes: "try_map (keyed_of x) es = Inr kes"
    unfolding es using validated.keyed [OF h]
    by (auto simp: try_map_Inr_iff list_all2_conv_all_nth keyed_of_def)
  have srt: "sort_key keyed_key kes = kes"
    using validated.increasing [OF h] by (intro sort_key_id_if_sorted) (simp add: strict_sorted_iff)
  show ?thesis
  proof (cases root)
    case None
    then have "es = []" using h es by (simp add: validated_holds_def)
    with m None show ?thesis
      by (auto simp: build_manifest_def build_manifest_with_leaf_target_def built_manifest_default_def)
  next
    case (Some r)
    then obtain hh refs where r: "radix x src hh r kes refs" using h by (auto simp: validated_holds_def)
    then have ty: "\<forall>e \<in> set es. entry_typed e" and ne: "es \<noteq> []"
      using radix_typed [OF r] radix_nonempty [OF r] es by auto
    from build_manifest_radix [OF assms(1) ty m kes] srt ne obtain r' refs' where
      "manifest_root m = Some r'" "radix x (load_manifest_chunk m) MAX_MANIFEST_DEPTH r' kes refs'"
      by (cases "manifest_root m") auto
    with radix_unique [OF r] Some show ?thesis by simp
  qed
qed

lemma validated_manifest_iterates_witness:
  "\<exists>src r expected cache es. validate_manifest_cached sample_external src (Some r) expected
       validation_cache_default = (Inr (), cache)
     \<and> iter_collect sample_external src (manifest_iter_new (Some r)) = Some (Inr es)
     \<and> summary_sums expected = entry_sums es"
proof -
  obtain m r cache where v: "validate_manifest_cached sample_external (load_manifest_chunk m) (Some r)
     (manifest_summary m) validation_cache_default = (Inr (), cache)"
    using sample_validates by metis
  from validated_manifest_iterates [OF v cache_ok_default] v show ?thesis by blast
qed

lemma sample_streams:
  obtains m r cache es where
    "build_manifest sample_external [sample_entry [0x62], sample_entry [0x61]] = Inr m"
    "manifest_root m = Some r"
    "validate_manifest_cached sample_external (load_manifest_chunk m) (Some r) (manifest_summary m)
       validation_cache_default = (Inr (), cache)"
    "iter_collect sample_external (load_manifest_chunk m) (manifest_iter_new (Some r)) = Some (Inr es)"
    "mset es = mset [sample_entry [0x62], sample_entry [0x61]]"
proof -
  obtain m r cache where m: "build_manifest sample_external [sample_entry [0x62], sample_entry [0x61]] = Inr m"
    "manifest_root m = Some r"
    "validate_manifest_cached sample_external (load_manifest_chunk m) (Some r) (manifest_summary m)
       validation_cache_default = (Inr (), cache)"
    by (rule sample_validates)
  from built_holdsI [OF sample_hash_length sample_entries_typed m(1)] obtain kes where
    "built_holds sample_external m kes"
    "mset (map keyed_entry kes) = mset [sample_entry [0x62], sample_entry [0x61]]" by metis
  with built.iterates [OF this(1)] m that show ?thesis by simp
qed

lemma validated_manifest_lookup_witness:
  "\<exists>src r. lookup_manifest_entry sample_external src (Some r) (lit ''Assets/a'') = Inr (Some (sample_entry [0x61]))"
proof -
  obtain m r cache es where s: "validate_manifest_cached sample_external (load_manifest_chunk m) (Some r)
      (manifest_summary m) validation_cache_default = (Inr (), cache)"
    "iter_collect sample_external (load_manifest_chunk m) (manifest_iter_new (Some r)) = Some (Inr es)"
    "mset es = mset [sample_entry [0x62], sample_entry [0x61]]"
    by (rule sample_streams)
  have "portable_path_key_v1 sample_external (lit ''Assets/a'') = Inr (lit ''Assets/a'')" by code_simp
  moreover have "exact_path (sample_entry [0x61]) = lit ''Assets/a''" by (simp add: sample_entry_def)
  moreover have "sample_entry [0x61] \<in> set es" using mset_eq_setD [OF s(3)] by simp
  ultimately show ?thesis
    using validated_manifest_lookup [OF s(1) cache_ok_default s(2), of "lit ''Assets/a''" "sample_entry [0x61]"]
    by metis
qed

lemma validated_root_canonical_witness:
  "\<exists>m m' r r'. build_manifest sample_external [sample_entry [0x62], sample_entry [0x61]] = Inr m
     \<and> build_manifest sample_external [sample_entry [0x61], sample_entry [0x62]] = Inr m'
     \<and> manifest_root m = Some r \<and> manifest_root m' = Some r' \<and> Some r = Some r'"
proof -
  obtain m r cache es where m: "build_manifest sample_external [sample_entry [0x62], sample_entry [0x61]] = Inr m"
    "manifest_root m = Some r"
    and s: "validate_manifest_cached sample_external (load_manifest_chunk m) (Some r)
      (manifest_summary m) validation_cache_default = (Inr (), cache)"
    "iter_collect sample_external (load_manifest_chunk m) (manifest_iter_new (Some r)) = Some (Inr es)"
    "mset es = mset [sample_entry [0x62], sample_entry [0x61]]"
    by (rule sample_streams)
  have b: "build_manifest sample_external [sample_entry [0x61], sample_entry [0x62]] = Inr m"
    using build_order_independent [OF _ m(1)] by simp
  from validated_root_canonical [OF s(1) cache_ok_default s(1) cache_ok_default s(2) s(2)] b m
  show ?thesis by blast
qed

lemma rebuilt_root_same_witness:
  "\<exists>m m' r. build_manifest sample_external [sample_entry [0x62], sample_entry [0x61]] = Inr m
     \<and> manifest_root m = Some r
     \<and> build_manifest sample_external [sample_entry [0x61], sample_entry [0x62]] = Inr m'
     \<and> manifest_root m' = Some r"
proof -
  obtain m r cache es where m: "build_manifest sample_external [sample_entry [0x62], sample_entry [0x61]] = Inr m"
    "manifest_root m = Some r"
    and s: "validate_manifest_cached sample_external (load_manifest_chunk m) (Some r)
      (manifest_summary m) validation_cache_default = (Inr (), cache)"
    "iter_collect sample_external (load_manifest_chunk m) (manifest_iter_new (Some r)) = Some (Inr es)"
    "mset es = mset [sample_entry [0x62], sample_entry [0x61]]"
    by (rule sample_streams)
  have p: "mset [sample_entry [0x61], sample_entry [0x62]] = mset es" using s(3) by simp
  then have b: "build_manifest sample_external [sample_entry [0x61], sample_entry [0x62]] = Inr m"
    using build_order_independent [OF _ m(1)] s(3) by metis
  from rebuilt_root_same [OF sample_hash_length s(1) cache_ok_default s(2) p b] b m show ?thesis by blast
qed

end
