(* ===== verification/RepoFs.thy ===== *)
theory RepoFs
  imports CoreError "HOL-Library.AList"
begin

text \<open>
  The repository directory as the storage code sees it: a finite map from paths, relative to the
  repository root, to nodes, with the whole-file operations the code uses of
  \<open>storage/anchored_fs\<close>. This is the contract of that layer, not a model of its system calls: a
  file is published with one rename, so a write either takes effect or does not. Every operation
  consults a fault schedule, so a theorem for every schedule covers every I/O error and every
  crash between two operations.
\<close>

section \<open>The repository on disk\<close>

text \<open>A symbolic link or a reparse point is a \<open>LinkNode\<close>; special files are not represented.\<close>

datatype node = RegularFile bytes | Directory | LinkNode

text \<open>
  Each operation on the disk may go well, fail before it changed anything, or fail after it
  took effect (the rename was done, the flush after it failed).
\<close>

datatype fault = NoFault | FaultBefore | FaultAfter

record disk =
  disk_nodes :: "(path \<times> node) list"
  disk_faults :: "fault list"

type_synonym 'a io = "(disk, checkpo_error, 'a) st_result"

definition next_fault :: "disk \<Rightarrow> fault" where
  "next_fault d = (case disk_faults d of [] \<Rightarrow> NoFault | f # _ \<Rightarrow> f)"

definition tick :: "disk \<Rightarrow> disk" where
  "tick d = d\<lparr>disk_faults := tl (disk_faults d)\<rparr>"

definition node_at :: "disk \<Rightarrow> path \<Rightarrow> node option" where
  "node_at d = map_of (disk_nodes d)"

definition parents :: "path \<Rightarrow> path list" where
  "parents p = map (\<lambda>n. take n p) [1..<length p]"

definition io_failed :: "path \<Rightarrow> checkpo_error" where
  "io_failed p = Io p OtherIo"

definition open_directory_component :: "disk \<Rightarrow> path \<Rightarrow> unit result" where
  "open_directory_component d q =
     (case node_at d q of
        None \<Rightarrow> Inl (Io q NotFound)
      | Some Directory \<Rightarrow> Inr ()
      | Some _ \<Rightarrow> Inl (io_failed q))"

definition open_parents :: "disk \<Rightarrow> path \<Rightarrow> unit result" where
  "open_parents d p = try_all (open_directory_component d) (parents p)"

definition open_file :: "disk \<Rightarrow> path \<Rightarrow> bytes result" where
  "open_file d p =
     res_bind (open_parents d p) (\<lambda>_.
     case node_at d p of
       None \<Rightarrow> Inl (Io p NotFound)
     | Some (RegularFile bs) \<Rightarrow> Inr bs
     | Some Directory \<Rightarrow> Inl (Corruption (lit ''anchored path is not a no-follow regular file''))
     | Some LinkNode \<Rightarrow> Inl (io_failed p))"

definition open_directory :: "disk \<Rightarrow> path \<Rightarrow> unit result" where
  "open_directory d p = res_bind (open_parents d p) (\<lambda>_. open_directory_component d p)"

text \<open>The names in a directory, sorted.\<close>

definition list_entry_names :: "disk \<Rightarrow> path \<Rightarrow> str list" where
  "list_entry_names d p =
     sort (remdups (map last (filter (\<lambda>q. q \<noteq> [] \<and> butlast q = p) (map fst (disk_nodes d)))))"

text \<open>Reading a whole file of at most \<open>max_bytes\<close>.\<close>

definition read_bytes_bounded :: "path \<Rightarrow> nat \<Rightarrow> bytes io" where
  "read_bytes_bounded p max_bytes d =
     (if next_fault d \<noteq> NoFault then (Inl (io_failed p), tick d)
      else (res_bind (open_file d p) (\<lambda>bs.
        if max_bytes < length bs
        then Inl (Corruption (lit ''anchored file exceeds maximum size''))
        else Inr bs), tick d))"

text \<open>Missing directories are created on the way to the file that is written.\<close>

fun make_directories :: "path list \<Rightarrow> (path \<times> node) list \<Rightarrow> (path \<times> node) list result" where
  "make_directories [] nodes = Inr nodes"
| "make_directories (q # qs) nodes =
     (case map_of nodes q of
        None \<Rightarrow> make_directories qs (AList.update q Directory nodes)
      | Some Directory \<Rightarrow> make_directories qs nodes
      | Some _ \<Rightarrow> Inl (io_failed q))"

text \<open>
  \<open>write_bytes_atomic\<close>, and \<open>store_content_addressed_bytes\<close>, which leaves a file with the same
  bytes alone and replaces one with others: both publish the bytes with one rename, so either
  way the file has the new bytes or is what it was.
\<close>

definition write_bytes_atomic :: "path \<Rightarrow> bytes \<Rightarrow> unit io" where
  "write_bytes_atomic p bs d =
     (if next_fault d = FaultBefore then (Inl (io_failed p), tick d)
      else (case make_directories (parents p) (disk_nodes d) of
          Inl e \<Rightarrow> (Inl e, tick d)
        | Inr nodes \<Rightarrow>
            (case map_of nodes p of
               Some Directory \<Rightarrow> (Inl (Corruption (lit ''anchored path is not a no-follow regular file'')), tick d)
             | Some LinkNode \<Rightarrow> (Inl (io_failed p), tick d)
             | _ \<Rightarrow> (if next_fault d = FaultAfter then Inl (io_failed p) else Inr (),
                     (tick d)\<lparr>disk_nodes := AList.update p (RegularFile bs) nodes\<rparr>))))"

definition store_content_addressed_bytes :: "path \<Rightarrow> bytes \<Rightarrow> unit io" where
  "store_content_addressed_bytes p bs d =
     (if next_fault d = FaultBefore then (Inl (io_failed p), tick d)
      else if open_file d p = Inr bs
      then (if next_fault d = FaultAfter then Inl (io_failed p) else Inr (), tick d)
      else write_bytes_atomic p bs d)"

text \<open>\<open>open_directory\<close> with \<open>create\<close>.\<close>

definition create_directory :: "path \<Rightarrow> unit io" where
  "create_directory p d =
     (if next_fault d = FaultBefore then (Inl (io_failed p), tick d)
      else (case make_directories (parents p @ [p]) (disk_nodes d) of
          Inl e \<Rightarrow> (Inl e, tick d)
        | Inr nodes \<Rightarrow>
            (if next_fault d = FaultAfter then Inl (io_failed p) else Inr (), (tick d)\<lparr>disk_nodes := nodes\<rparr>)))"

section \<open>The files of a disk\<close>

definition file_at :: "disk \<Rightarrow> path \<Rightarrow> bytes option" where
  "file_at d p = (case open_file d p of Inr bs \<Rightarrow> Some bs | Inl _ \<Rightarrow> None)"

definition writable :: "disk \<Rightarrow> path \<Rightarrow> bool" where
  "writable d p \<longleftrightarrow> (\<forall>q \<in> set (parents p). node_at d q \<in> {None, Some Directory})
     \<and> (case node_at d p of None \<Rightarrow> True | Some (RegularFile _) \<Rightarrow> True | _ \<Rightarrow> False)"

definition faultless :: "disk \<Rightarrow> bool" where
  "faultless d \<longleftrightarrow> disk_faults d = []"

lemma tick_simps [simp]:
  "disk_nodes (tick d) = disk_nodes d" "node_at (tick d) = node_at d" "open_file (tick d) = open_file d"
  "file_at (tick d) = file_at d" "writable (tick d) = writable d" "faultless d \<Longrightarrow> faultless (tick d)"
  "open_directory (tick d) = open_directory d"
  by (simp_all add: tick_def node_at_def open_file_def fun_eq_iff open_parents_def file_at_def writable_def
      faultless_def open_directory_def open_directory_component_def [abs_def])

lemma faultless_next [simp]: "faultless d \<Longrightarrow> next_fault d = NoFault"
  by (simp add: faultless_def next_fault_def)

lemma open_directory_component_iff: "open_directory_component d q = Inr u \<longleftrightarrow> node_at d q = Some Directory"
  by (auto simp: open_directory_component_def split: option.splits node.splits)

lemma open_parents_iff: "open_parents d p = Inr u \<longleftrightarrow> (\<forall>q \<in> set (parents p). node_at d q = Some Directory)"
  by (simp add: open_parents_def try_all_Inr_iff open_directory_component_iff)

lemma open_file_iff:
  "open_file d p = Inr bs \<longleftrightarrow>
     (\<forall>q \<in> set (parents p). node_at d q = Some Directory) \<and> node_at d p = Some (RegularFile bs)"
  by (auto simp: open_file_def res_bind_Inr_iff open_parents_iff split: option.splits node.splits)

lemma file_at_iff: "file_at d p = Some bs \<longleftrightarrow> open_file d p = Inr bs"
  by (auto simp: file_at_def split: sum.splits)

lemma not_own_parent: "p \<notin> set (parents p)"
  by (auto simp: parents_def) (metis length_take less_irrefl min_less_iff_conj)

lemma make_directories_spec:
  "make_directories qs nodes = Inr nodes' \<longleftrightarrow>
     (\<forall>q \<in> set qs. map_of nodes q \<in> {None, Some Directory})
     \<and> nodes' = fold (\<lambda>q ns. if map_of ns q = None then AList.update q Directory ns else ns) qs nodes"
proof (induction qs arbitrary: nodes)
  case (Cons q qs)
  then show ?case by (auto simp: update_conv split: option.splits node.splits)
qed auto

lemma map_of_make_directories:
  "make_directories qs nodes = Inr nodes' \<Longrightarrow>
   map_of nodes' r = (if map_of nodes r = None \<and> r \<in> set qs then Some Directory else map_of nodes r)"
proof (induction qs arbitrary: nodes)
  case (Cons q qs)
  then show ?case by (auto simp: update_conv split: option.splits node.splits if_splits)
qed auto

text \<open>What reading, writing and storing do to the files.\<close>

lemma read_file:
  assumes "read_bytes_bounded p n d = (Inr bs, d')"
  shows "file_at d p = Some bs \<and> length bs \<le> n"
  using assms by (auto simp: read_bytes_bounded_def file_at_iff res_bind_Inr_iff split: if_splits)

lemma read_disk: "snd (read_bytes_bounded p n d) = tick d"
  by (simp add: read_bytes_bounded_def)

lemma read_faultless:
  assumes "faultless d" "file_at d p = Some bs" "length bs \<le> n"
  shows "read_bytes_bounded p n d = (Inr bs, tick d)"
  using assms by (simp add: read_bytes_bounded_def file_at_iff)

definition files_kept :: "disk \<Rightarrow> disk \<Rightarrow> path \<Rightarrow> bool" where
  "files_kept d d' p \<longleftrightarrow> (\<forall>q bs. file_at d q = Some bs \<longrightarrow> q \<noteq> p \<longrightarrow> file_at d' q = Some bs)"

lemma published:
  assumes "make_directories (parents p) (disk_nodes d) = Inr nodes"
    and "map_of nodes p = None \<or> (\<exists>b. map_of nodes p = Some (RegularFile b))"
    and "disk_nodes d' = AList.update p (RegularFile bs) nodes"
  shows "file_at d' p = Some bs" "files_kept d d' p"
proof -
  have n: "node_at d' r = (if r = p then Some (RegularFile bs)
      else if node_at d r = None \<and> r \<in> set (parents p) then Some Directory else node_at d r)" for r
    using map_of_make_directories [OF assms(1), of r] assms(3) by (simp add: node_at_def update_conv)
  have ok: "node_at d q \<in> {None, Some Directory}" if "q \<in> set (parents p)" for q
    using assms(1) that by (auto simp: make_directories_spec node_at_def)
  show "file_at d' p = Some bs"
    using ok not_own_parent [of p] by (fastforce simp: file_at_iff open_file_iff n)
  have p: "node_at d p \<noteq> Some Directory"
    using assms(2) map_of_make_directories [OF assms(1), of p] not_own_parent [of p] by (auto simp: node_at_def)
  show "files_kept d d' p"
    using p ok by (auto simp: files_kept_def file_at_iff open_file_iff n)
qed

lemma write_cases:
  assumes "write_bytes_atomic p bs d = (r, d')"
  obtains (unchanged) e where "r = Inl e" "d' = tick d"
  | (written) "file_at d' p = Some bs" "files_kept d d' p"
proof (cases "d' = tick d \<and> (\<exists>e. r = Inl e)")
  case False
  then show ?thesis using assms that(2) published [of p d _ d' bs]
    by (auto simp: write_bytes_atomic_def split: if_splits sum.splits option.splits node.splits)
qed (use that in blast)

lemma write_ok: "write_bytes_atomic p bs d = (Inr u, d') \<Longrightarrow> file_at d' p = Some bs \<and> files_kept d d' p"
  by (erule write_cases) auto

lemma write_faultless:
  assumes "faultless d" "writable d p"
  shows "\<exists>d'. write_bytes_atomic p bs d = (Inr (), d') \<and> faultless d'"
proof -
  obtain nodes where m: "make_directories (parents p) (disk_nodes d) = Inr nodes"
    using assms(2) by (auto simp: make_directories_spec writable_def node_at_def)
  from map_of_make_directories [OF m, of p] not_own_parent [of p] assms(2)
  have "map_of nodes p = None \<or> (\<exists>b. map_of nodes p = Some (RegularFile b))"
    by (auto simp: writable_def node_at_def split: option.splits node.splits)
  then show ?thesis using m assms(1)
    by (auto simp: write_bytes_atomic_def faultless_def tick_def)
qed

lemma store_cases:
  assumes "store_content_addressed_bytes p bs d = (r, d')"
  obtains (unchanged) e where "r = Inl e" "d' = tick d"
  | (stored) "file_at d' p = Some bs" "files_kept d d' p"
proof (cases "next_fault d = FaultBefore")
  case True
  then show ?thesis using assms that(1) by (auto simp: store_content_addressed_bytes_def)
next
  case nf: False
  show ?thesis
  proof (cases "open_file d p = Inr bs")
    case True
    then show ?thesis using assms nf that(2)
      by (auto simp: store_content_addressed_bytes_def file_at_iff files_kept_def)
  next
    case False
    then have "write_bytes_atomic p bs d = (r, d')"
      using assms nf by (simp add: store_content_addressed_bytes_def)
    then show ?thesis by (rule write_cases) (use that in blast)+
  qed
qed

lemma store_ok: "store_content_addressed_bytes p bs d = (Inr u, d') \<Longrightarrow> file_at d' p = Some bs \<and> files_kept d d' p"
  by (erule store_cases) auto

lemma store_faultless:
  assumes "faultless d" "writable d p"
  shows "\<exists>d'. store_content_addressed_bytes p bs d = (Inr (), d') \<and> faultless d'"
  using assms write_faultless [OF assms] by (simp add: store_content_addressed_bytes_def)

end
