(* ===== verification/SnapshotStore.thy ===== *)
theory SnapshotStore
  imports SnapshotV2 RepoFs
begin

text \<open>
  Snapshots in the repository (\<open>storage/snapshot_store.rs\<close>, the paths of \<open>storage/layout.rs\<close> and
  the chunk store of \<open>storage/chunk_store.rs\<close>): root headers, publishing, the latest reference,
  the listing of the stored roots. The identifiers an error message interpolates are dropped.
\<close>

section \<open>Paths of the repository\<close>

definition snapshots_dir :: path where
  "snapshots_dir = [lit ''snapshots'', lit ''v2'']"

definition snapshot_path :: "snapshot_id \<Rightarrow> path" where
  "snapshot_path i =
     (let s = snapshot_as_str i in
      snapshots_dir @ [take 2 s, take 2 (drop 2 s), s @ lit ''.root''])"

definition manifest_nodes_dir :: path where
  "manifest_nodes_dir = [lit ''manifests'', lit ''v2'', lit ''nodes'']"

definition manifest_leaves_dir :: path where
  "manifest_leaves_dir = [lit ''manifests'', lit ''v2'', lit ''leaves'']"

definition manifest_node_path :: "str \<Rightarrow> path" where
  "manifest_node_path s = manifest_nodes_dir @ [take 2 s, s]"

definition manifest_leaf_path :: "str \<Rightarrow> path" where
  "manifest_leaf_path s = manifest_leaves_dir @ [take 2 s, s]"

definition refs_latest_path :: path where
  "refs_latest_path = [lit ''refs'', lit ''latest'']"

definition manifest_path :: "manifest_ref \<Rightarrow> path result" where
  "manifest_path r =
     (let s = encode_lower_hex (ref_id r) in
      case ref_kind r of
        NodeChunk \<Rightarrow> Inr (manifest_node_path s)
      | LeafChunk \<Rightarrow> Inr (manifest_leaf_path s)
      | RootChunk \<Rightarrow> Inl (Corruption (lit ''root cannot be loaded from the manifest chunk store'')))"

section \<open>Snapshots in memory\<close>

datatype snapshot_content = Whole (whole_hash: object_id) (whole_size: u64)

record snapshot_entry =
  snap_path :: tracked_path
  snap_size :: u64
  snap_modified :: str
  snap_content :: snapshot_content

definition content_hash :: "snapshot_entry \<Rightarrow> object_id" where
  "content_hash e = (case snap_content e of Whole h _ \<Rightarrow> h)"

definition content_size_bytes :: "snapshot_entry \<Rightarrow> u64" where
  "content_size_bytes e = (case snap_content e of Whole _ n \<Rightarrow> n)"

record snapshot_file =
  snap_schema :: u32
  snap_project :: project_id
  snap_parent :: "snapshot_id option"
  snap_created :: str
  snap_name :: str
  snap_tool :: str
  snap_roots :: "str list"
  snap_files :: "snapshot_entry list"

record snapshot_root_header =
  header_project :: project_id
  header_parent :: "snapshot_id option"
  header_created :: str
  header_name :: str
  header_tool :: str
  header_manifest :: "manifest_ref option"
  header_summary :: manifest_summary

record prepared_snapshot =
  prepared_id :: snapshot_id
  prepared_root_bytes :: bytes
  prepared_manifest :: built_manifest

definition SNAPSHOT_SCHEMA_VERSION_V2 :: u32 where "SNAPSHOT_SCHEMA_VERSION_V2 = 2"
definition MAX_SNAPSHOT_FILE_BYTES :: nat where "MAX_SNAPSHOT_FILE_BYTES = MAX_ROOT_BYTES"

text \<open>
  The calendar of the \<open>chrono\<close> crate: an RFC 3339 text to seconds and nanoseconds, and the
  canonical UTC text of an instant, where it is in chrono's range.
\<close>

record calendar =
  parse_rfc3339 :: "str \<Rightarrow> (i64 \<times> u32) option"
  format_utc :: "i64 \<Rightarrow> u32 \<Rightarrow> str option"

definition snapshot_codec_error :: "codec_error \<Rightarrow> checkpo_error" where
  "snapshot_codec_error e =
     Corruption (case e of Invalid m \<Rightarrow> lit m | Limit m _ _ \<Rightarrow> lit m | Overflow m \<Rightarrow> lit m)"

definition snapshot_v2_error :: "snapshot_error \<Rightarrow> checkpo_error" where
  "snapshot_v2_error e =
     (case e of Codec c \<Rightarrow> snapshot_codec_error c | InvalidManifest m \<Rightarrow> Corruption (lit m)
      | Source m \<Rightarrow> Corruption (lit m))"

definition parse_timestamp :: "calendar \<Rightarrow> str \<Rightarrow> timestamp result" where
  "parse_timestamp c text =
     (case parse_rfc3339 c text of
        None \<Rightarrow> Inl (Corruption (lit ''invalid timestamp''))
      | Some (s, n) \<Rightarrow> res_map_err snapshot_codec_error (timestamp_new s n))"

definition format_timestamp :: "calendar \<Rightarrow> timestamp \<Rightarrow> str result" where
  "format_timestamp c t =
     ok_or (Corruption (lit ''timestamp is outside the supported timestamp range''))
       (format_utc c (unix_seconds t) (nanoseconds t))"

section \<open>Snapshot roots\<close>

definition snapshot_id_from_bytes :: "external \<Rightarrow> bytes \<Rightarrow> snapshot_id" where
  "snapshot_id_from_bytes x bs = snapshot_id_from_digest_bytes (root_id (blake3 x) bs)"

definition decode_snapshot_root_header ::
    "external \<Rightarrow> calendar \<Rightarrow> snapshot_id \<Rightarrow> bytes \<Rightarrow> snapshot_root_header result" where
  "decode_snapshot_root_header x c i bs =
     res_bind (res_map_err snapshot_codec_error
         (verify_root_id (blake3 x) (snapshot_digest_bytes i) bs)) (\<lambda>_.
     res_bind (res_map_err snapshot_codec_error (decode_root bs)) (\<lambda>root.
     res_bind (res_map_err snapshot_codec_error (encode_root root)) (\<lambda>canonical.
     if canonical \<noteq> bs
     then Inl (Corruption (lit ''snapshot root is not canonically encoded''))
     else
     res_bind (format_timestamp c (root_created root)) (\<lambda>created_at.
     Inr \<lparr>header_project = project_id_from_uuid_bytes (root_project_id root),
          header_parent = map_option snapshot_id_from_digest_bytes (root_parent root),
          header_created = created_at,
          header_name = root_checkpoint_name root,
          header_tool = root_tool_version root,
          header_manifest = root_manifest root,
          header_summary = root_summary root\<rparr>))))"

definition read_snapshot_bytes :: "snapshot_id \<Rightarrow> bytes io" where
  "read_snapshot_bytes i d =
     (case read_bytes_bounded (snapshot_path i) MAX_SNAPSHOT_FILE_BYTES d of
        (Inl (Io _ NotFound), d') \<Rightarrow> (Inl (SnapshotNotFound (snapshot_as_str i)), d')
      | result \<Rightarrow> result)"

definition load_snapshot_root_header ::
    "external \<Rightarrow> calendar \<Rightarrow> snapshot_id \<Rightarrow> snapshot_root_header io" where
  "load_snapshot_root_header x c i =
     st_bind (read_snapshot_bytes i) (\<lambda>bs. st_lift (decode_snapshot_root_header x c i bs))"

definition publish_snapshot_root :: "external \<Rightarrow> snapshot_id \<Rightarrow> bytes \<Rightarrow> unit io" where
  "publish_snapshot_root x i bs =
     (if snapshot_id_from_bytes x bs \<noteq> i
      then st_lift (Inl (Corruption (lit ''prepared snapshot root digest mismatch'')))
      else store_content_addressed_bytes (snapshot_path i) bs)"

definition read_latest_snapshot_id :: "snapshot_id option io" where
  "read_latest_snapshot_id d =
     (case read_bytes_bounded refs_latest_path 128 d of
        (Inl (Io _ NotFound), d') \<Rightarrow> (Inr None, d')
      | (Inl e, d') \<Rightarrow> (Inl e, d')
      | (Inr bs, d') \<Rightarrow>
          (if \<not> utf8_valid bs then Inl (Corruption (lit ''refs/latest is not valid UTF-8''))
           else res_bind (snapshot_id_parse (str_trim bs)) (\<lambda>i. Inr (Some i)), d'))"

definition write_latest_snapshot_id :: "snapshot_id \<Rightarrow> unit io" where
  "write_latest_snapshot_id i = write_bytes_atomic refs_latest_path (snapshot_as_str i)"

section \<open>Listing the snapshots\<close>

definition symlink_metadata :: "disk \<Rightarrow> path \<Rightarrow> node result" where
  "symlink_metadata d p =
     res_bind (open_parents d p) (\<lambda>_. ok_or (Io p NotFound) (node_at d p))"

definition is_lower_hex_shard :: "str \<Rightarrow> bool" where
  "is_lower_hex_shard value \<longleftrightarrow>
     length value = 2 \<and> (\<forall>b \<in> set value. 0x30 \<le> b \<and> b \<le> 0x39 \<or> 0x61 \<le> b \<and> b \<le> 0x66)"

definition ensure_regular_directory_no_follow :: "disk \<Rightarrow> path \<Rightarrow> unit result" where
  "ensure_regular_directory_no_follow d p =
     (if node_at d p = Some Directory then Inr ()
      else Inl (Corruption (lit ''snapshot directory is unsafe'')))"

text \<open>
  A file name with extension \<open>root\<close> whose stem is an id ends with \<open>.root\<close>, and the stem of
  such a name is what precedes it.
\<close>

definition snapshot_root_entry :: "disk \<Rightarrow> str \<Rightarrow> str \<Rightarrow> path \<Rightarrow> str \<Rightarrow> snapshot_id list result" where
  "snapshot_root_entry d first_name second_name dir name =
     res_bind (symlink_metadata d (dir @ [name])) (\<lambda>metadata.
     case metadata of
       LinkNode \<Rightarrow> Inl (Corruption (lit ''snapshot root entry is a link or reparse point''))
     | Directory \<Rightarrow> Inr []
     | RegularFile _ \<Rightarrow>
         (case strip_suffix (lit ''.root'') name of
            None \<Rightarrow> Inr []
          | Some stem \<Rightarrow>
              (case snapshot_id_parse stem of
                 Inl _ \<Rightarrow> Inr []
               | Inr i \<Rightarrow>
                   Inr (if take 2 stem = first_name \<and> take 2 (drop 2 stem) = second_name
                        then [i] else []))))"

definition snapshot_shard :: "disk \<Rightarrow> str \<Rightarrow> str \<Rightarrow> snapshot_id list result" where
  "snapshot_shard d first_name second_name =
     (let dir = snapshots_dir @ [first_name, second_name] in
      if \<not> is_lower_hex_shard second_name then Inr []
      else
      res_bind (ensure_regular_directory_no_follow d dir) (\<lambda>_.
      res_bind (try_map (snapshot_root_entry d first_name second_name dir) (list_entry_names d dir)) (\<lambda>ids.
      Inr (concat ids))))"

definition snapshot_first_shard :: "disk \<Rightarrow> str \<Rightarrow> snapshot_id list result" where
  "snapshot_first_shard d first_name =
     (let dir = snapshots_dir @ [first_name] in
      if \<not> is_lower_hex_shard first_name then Inr []
      else
      res_bind (ensure_regular_directory_no_follow d dir) (\<lambda>_.
      res_bind (try_map (snapshot_shard d first_name) (list_entry_names d dir)) (\<lambda>ids.
      Inr (concat ids))))"

definition list_snapshot_ids :: "disk \<Rightarrow> snapshot_id list result" where
  "list_snapshot_ids d =
     (case symlink_metadata d snapshots_dir of
        Inl (Io _ NotFound) \<Rightarrow> Inr []
      | Inl e \<Rightarrow> Inl e
      | Inr Directory \<Rightarrow>
          res_bind (try_map (snapshot_first_shard d) (list_entry_names d snapshots_dir)) (\<lambda>ids.
          Inr (dedup (sort (concat ids))))
      | Inr _ \<Rightarrow> Inl (Corruption (lit ''snapshot root directory is unsafe'')))"

lemma symlink_metadata_file: "symlink_metadata d q = Inr (RegularFile bs) \<longleftrightarrow> file_at d q = Some bs"
  by (auto simp: symlink_metadata_def res_bind_Inr_iff ok_or_Inr_iff file_at_iff open_file_iff open_parents_iff)

end
