(* ===== verification/InventoryCodec.thy ===== *)
theory InventoryCodec
  imports MerkleCodec
begin

text \<open>
  The stored values of the snapshot inventory (\<open>storage/snapshot_inventory.rs\<close>): the state chain,
  the set root of 256 slots and the set leaves, their byte formats and the ids they are stored
  under. The three codec theorems say that a stored byte string decodes exactly when it is the
  encoding of the decoded value. Fixed-offset slices are \<open>sub_bytes\<close>; a 32-byte array is a byte
  list, its length part of the \<open>typed\<close> predicates.
\<close>

section \<open>Constants and data\<close>

definition STATE_MAGIC :: bytes where "STATE_MAGIC = lit ''CHKPINV2''"
definition ROOT_MAGIC :: bytes where "ROOT_MAGIC = lit ''CHKPINR2''"
definition LEAF_MAGIC :: bytes where "LEAF_MAGIC = lit ''CHKPINL2''"
definition SCHEMA_VERSION :: u32 where "SCHEMA_VERSION = 2"
definition STATE_BYTES :: nat where "STATE_BYTES = 174"
definition ROOT_HEADER_BYTES :: nat where "ROOT_HEADER_BYTES = 36"
definition ROOT_SLOT_BYTES :: nat where "ROOT_SLOT_BYTES = 37"
definition ROOT_BYTES :: nat where "ROOT_BYTES = ROOT_HEADER_BYTES + 256 * ROOT_SLOT_BYTES"
definition LEAF_HEADER_BYTES :: nat where "LEAF_HEADER_BYTES = 33"
definition MAX_LEAF_BYTES :: nat where "MAX_LEAF_BYTES = 256 * 1024 * 1024"
definition HEAD_BYTES_MAX :: nat where "HEAD_BYTES_MAX = 65"

datatype inventory_operation = Initialize | Add | Remove

record inventory_state =
  state_project :: project_id
  state_generation :: u64
  state_count :: u64
  state_operation :: inventory_operation
  state_parent :: "object_id option"
  state_snapshot :: "snapshot_id option"
  state_operation_id :: bytes
  state_set_root :: object_id

record inventory_head =
  head_id :: object_id
  head_state :: inventory_state

record leaf_ref =
  leaf_ref_id :: object_id
  leaf_ref_count :: u32

record set_root =
  root_project :: project_id
  root_count :: u64
  root_leaves :: "leaf_ref option list"

record set_leaf =
  leaf_project :: project_id
  leaf_id_prefix :: byte
  leaf_ids :: "snapshot_id list"

text \<open>The slice \<open>&bytes[a..b]\<close>.\<close>

definition sub_bytes :: "bytes \<Rightarrow> nat \<Rightarrow> nat \<Rightarrow> bytes" where
  "sub_bytes bs a b = take (b - a) (drop a bs)"

definition zeros :: bytes where "zeros = replicate 32 0"

section \<open>States\<close>

definition operation_byte :: "inventory_operation \<Rightarrow> byte" where
  "operation_byte op = (case op of Initialize \<Rightarrow> 0 | Add \<Rightarrow> 1 | Remove \<Rightarrow> 2)"

definition encode_state :: "inventory_state \<Rightarrow> bytes" where
  "encode_state s =
     STATE_MAGIC @ word_be SCHEMA_VERSION @ project_uuid_bytes (state_project s)
     @ word_be (state_generation s) @ word_be (state_count s)
     @ [operation_byte (state_operation s)]
     @ [if state_parent s \<noteq> None then 1 else 0]
     @ (case state_parent s of Some p \<Rightarrow> object_digest_bytes p | None \<Rightarrow> zeros)
     @ (case state_snapshot s of Some i \<Rightarrow> snapshot_digest_bytes i | None \<Rightarrow> zeros)
     @ state_operation_id s @ object_digest_bytes (state_set_root s)"

definition decode_operation :: "byte \<Rightarrow> inventory_operation result" where
  "decode_operation v =
     (if v = 0 then Inr Initialize else if v = 1 then Inr Add else if v = 2 then Inr Remove
      else Inl (Corruption (lit ''unknown snapshot inventory operation'')))"

definition decode_parent :: "byte \<Rightarrow> bytes \<Rightarrow> object_id option result" where
  "decode_parent flag digest =
     (if flag = 0 \<and> (\<forall>b \<in> set digest. b = 0) then Inr None
      else if flag = 1 then Inr (Some (object_id_from_digest_bytes digest))
      else Inl (Corruption (lit ''invalid snapshot inventory parent encoding'')))"

definition decode_state_snapshot :: "inventory_operation \<Rightarrow> bytes \<Rightarrow> snapshot_id option result" where
  "decode_state_snapshot op digest =
     (case op of
        Initialize \<Rightarrow>
          if digest = zeros then Inr None
          else Inl (Corruption (lit ''snapshot inventory initialization has a snapshot id''))
      | _ \<Rightarrow> Inr (Some (snapshot_id_from_digest_bytes digest)))"

definition valid_shape :: "inventory_state \<Rightarrow> bool" where
  "valid_shape s =
     (case state_operation s of
        Initialize \<Rightarrow> state_generation s = 0 \<and> state_count s = 0 \<and> state_parent s = None
          \<and> state_snapshot s = None \<and> state_operation_id s = zeros
      | Add \<Rightarrow> 0 < state_generation s \<and> 0 < state_count s \<and> state_parent s \<noteq> None
          \<and> state_snapshot s \<noteq> None \<and> state_operation_id s \<noteq> zeros
      | Remove \<Rightarrow> 0 < state_generation s \<and> state_parent s \<noteq> None \<and> state_snapshot s \<noteq> None
          \<and> state_operation_id s \<noteq> zeros)"

definition decode_state :: "bytes \<Rightarrow> inventory_state result" where
  "decode_state bs =
     (if length bs \<noteq> STATE_BYTES \<or> sub_bytes bs 0 8 \<noteq> STATE_MAGIC
      then Inl (Corruption (lit ''invalid snapshot inventory state header''))
      else
      let schema = be_word (sub_bytes bs 8 12) in
      if schema \<noteq> SCHEMA_VERSION
      then Inl (UnsupportedFormat (lit ''snapshot inventory state schema'') schema SCHEMA_VERSION)
      else
      res_bind (decode_operation (bs ! 44)) (\<lambda>operation.
      res_bind (decode_parent (bs ! 45) (sub_bytes bs 46 78)) (\<lambda>parent.
      res_bind (decode_state_snapshot operation (sub_bytes bs 78 110)) (\<lambda>snapshot.
      let s = \<lparr>state_project = project_id_from_uuid_bytes (sub_bytes bs 12 28),
               state_generation = be_word (sub_bytes bs 28 36),
               state_count = be_word (sub_bytes bs 36 44),
               state_operation = operation, state_parent = parent, state_snapshot = snapshot,
               state_operation_id = sub_bytes bs 110 142,
               state_set_root = object_id_from_digest_bytes (sub_bytes bs 142 174)\<rparr> in
      if \<not> valid_shape s
      then Inl (Corruption (lit ''snapshot inventory state has an invalid shape''))
      else Inr s))))"

section \<open>Set roots\<close>

definition encode_slot :: "leaf_ref option \<Rightarrow> bytes" where
  "encode_slot r =
     [if r \<noteq> None then 1 else 0]
     @ (case r of Some l \<Rightarrow> object_digest_bytes (leaf_ref_id l) | None \<Rightarrow> zeros)
     @ word_be (case r of Some l \<Rightarrow> leaf_ref_count l | None \<Rightarrow> 0)"

definition encode_set_root :: "set_root \<Rightarrow> bytes result" where
  "encode_set_root r =
     (if length (root_leaves r) \<noteq> 256
      then Inl (Corruption (lit ''snapshot inventory set root must have 256 slots''))
      else Inr (ROOT_MAGIC @ word_be SCHEMA_VERSION @ project_uuid_bytes (root_project r)
        @ word_be (root_count r) @ concat (map encode_slot (root_leaves r))))"

definition decode_slot :: "bytes \<Rightarrow> nat \<Rightarrow> leaf_ref option result" where
  "decode_slot bs offset =
     (let present = bs ! offset; digest = sub_bytes bs (offset + 1) (offset + 33);
          leaf_count = be_word (sub_bytes bs (offset + 33) (offset + 37)) in
      if present = 0 \<and> digest = zeros \<and> leaf_count = 0 then Inr None
      else if present = 1 \<and> digest \<noteq> zeros \<and> 0 < leaf_count
      then Inr (Some \<lparr>leaf_ref_id = object_id_from_digest_bytes digest, leaf_ref_count = leaf_count\<rparr>)
      else Inl (Corruption (lit ''snapshot inventory set root has an invalid slot'')))"

definition decode_set_root :: "bytes \<Rightarrow> set_root result" where
  "decode_set_root bs =
     (if length bs \<noteq> ROOT_BYTES \<or> sub_bytes bs 0 8 \<noteq> ROOT_MAGIC
      then Inl (Corruption (lit ''invalid snapshot inventory set root header''))
      else
      let schema = be_word (sub_bytes bs 8 12) in
      if schema \<noteq> SCHEMA_VERSION
      then Inl (UnsupportedFormat (lit ''snapshot inventory set root schema'') schema SCHEMA_VERSION)
      else
      res_bind (try_map (\<lambda>i. decode_slot bs (ROOT_HEADER_BYTES + i * ROOT_SLOT_BYTES)) [0..<256]) (\<lambda>leaves.
      Inr \<lparr>root_project = project_id_from_uuid_bytes (sub_bytes bs 12 28),
           root_count = be_word (sub_bytes bs 28 36), root_leaves = leaves\<rparr>))"

section \<open>Set leaves\<close>

definition encode_set_leaf :: "set_leaf \<Rightarrow> bytes result" where
  "encode_set_leaf l =
     (if leaf_ids l = []
      then Inl (Corruption (lit ''snapshot inventory set leaf cannot be empty''))
      else if \<not> (\<forall>(a, b) \<in> set (windows2 (leaf_ids l)). a < b)
              \<or> (\<exists>i \<in> set (leaf_ids l). snapshot_digest_bytes i ! 0 \<noteq> leaf_id_prefix l)
      then Inl (Corruption (lit ''snapshot inventory set leaf is not canonical''))
      else if \<not> length (leaf_ids l) < 2 ^ 32
      then Inl (Corruption (lit ''snapshot inventory set leaf exceeds u32 entries''))
      else Inr (LEAF_MAGIC @ word_be SCHEMA_VERSION @ project_uuid_bytes (leaf_project l)
        @ [leaf_id_prefix l] @ word_be (word_of_nat (length (leaf_ids l)) :: u32)
        @ concat (map snapshot_digest_bytes (leaf_ids l))))"

text \<open>\<open>chunks_exact(32)\<close>.\<close>

fun chunks_exact :: "nat \<Rightarrow> bytes \<Rightarrow> bytes list" where
  "chunks_exact n bs =
     (if n = 0 \<or> length bs < n then [] else take n bs # chunks_exact n (drop n bs))"

declare chunks_exact.simps [simp del]

definition decode_leaf_id :: "byte \<Rightarrow> snapshot_id list \<Rightarrow> bytes \<Rightarrow> snapshot_id list result" where
  "decode_leaf_id prefix ids chunk =
     (let i = snapshot_id_from_digest_bytes chunk in
      if snapshot_digest_bytes i ! 0 \<noteq> prefix \<or> ids \<noteq> [] \<and> i \<le> last ids
      then Inl (Corruption (lit ''snapshot inventory set leaf is not canonical''))
      else Inr (ids @ [i]))"

definition decode_set_leaf :: "bytes \<Rightarrow> set_leaf result" where
  "decode_set_leaf bs =
     (if length bs < LEAF_HEADER_BYTES \<or> sub_bytes bs 0 8 \<noteq> LEAF_MAGIC
      then Inl (Corruption (lit ''invalid snapshot inventory set leaf header''))
      else
      let schema = be_word (sub_bytes bs 8 12) in
      if schema \<noteq> SCHEMA_VERSION
      then Inl (UnsupportedFormat (lit ''snapshot inventory set leaf schema'') schema SCHEMA_VERSION)
      else
      let prefix = bs ! 28; count = unat (be_word (sub_bytes bs 29 33) :: u32);
          overflow = Corruption (lit ''snapshot inventory set leaf length overflow'') in
      res_bind (ok_or overflow (usize_checked_mul count 32)) (\<lambda>ids_bytes.
      res_bind (ok_or overflow (usize_checked_add LEAF_HEADER_BYTES ids_bytes)) (\<lambda>expected_bytes.
      if count = 0 \<or> length bs \<noteq> expected_bytes
      then Inl (Corruption (lit ''snapshot inventory set leaf has an invalid length''))
      else
      res_bind (try_fold (decode_leaf_id prefix) []
          (chunks_exact 32 (drop LEAF_HEADER_BYTES bs))) (\<lambda>ids.
      Inr \<lparr>leaf_project = project_id_from_uuid_bytes (sub_bytes bs 12 28),
           leaf_id_prefix = prefix, leaf_ids = ids\<rparr>))))"

section \<open>Ids of stored values\<close>

definition content_id :: "(bytes \<Rightarrow> bytes) \<Rightarrow> bytes \<Rightarrow> bytes \<Rightarrow> object_id result" where
  "content_id blake3 domain bs = object_id_parse (encode_lower_hex (blake3 (domain @ bs)))"

definition inventory_operation_id :: "(bytes \<Rightarrow> bytes) \<Rightarrow> str \<Rightarrow> bytes" where
  "inventory_operation_id blake3 operation_id =
     blake3 (lit ''checkpo.snapshot-inventory-operation.v2'' @ [0] @ operation_id)"

definition state_id :: "(bytes \<Rightarrow> bytes) \<Rightarrow> bytes \<Rightarrow> object_id result" where
  "state_id blake3 = content_id blake3 (lit ''checkpo.snapshot-inventory-state.v2'' @ [0])"

definition set_root_id :: "(bytes \<Rightarrow> bytes) \<Rightarrow> bytes \<Rightarrow> object_id result" where
  "set_root_id blake3 = content_id blake3 (lit ''checkpo.snapshot-inventory-set-root.v2'' @ [0])"

definition set_leaf_id :: "(bytes \<Rightarrow> bytes) \<Rightarrow> bytes \<Rightarrow> object_id result" where
  "set_leaf_id blake3 = content_id blake3 (lit ''checkpo.snapshot-inventory-set-leaf.v2'' @ [0])"

section \<open>Slices\<close>

lemma length_sub_bytes [simp]: "length (sub_bytes bs a b) = min (b - a) (length bs - a)"
  by (simp add: sub_bytes_def)

lemma sub_bytes_append:
  "length xs \<le> a \<Longrightarrow> sub_bytes (xs @ ys) a b = sub_bytes ys (a - length xs) (b - length xs)"
  "b \<le> length xs \<Longrightarrow> sub_bytes (xs @ ys) a b = sub_bytes xs a b"
  by (simp_all add: sub_bytes_def)

lemma sub_bytes_Cons: "0 < a \<Longrightarrow> sub_bytes (x # xs) a b = sub_bytes xs (a - 1) (b - 1)"
  using sub_bytes_append(1) [of "[x]" a xs b] by simp

lemma sub_bytes_all: "length xs \<le> b \<Longrightarrow> sub_bytes xs 0 b = xs"
  by (simp add: sub_bytes_def)

lemma sub_bytes_cut:
  assumes "a \<le> b" "b \<le> c"
  shows "sub_bytes bs a c = sub_bytes bs a b @ sub_bytes bs b c"
proof -
  have "c - a = (b - a) + (c - b)" using assms by simp
  then have "take (c - a) (drop a bs) = take (b - a) (drop a bs) @ take (c - b) (drop (b - a) (drop a bs))"
    by (simp add: take_add)
  then show ?thesis using assms by (simp add: sub_bytes_def)
qed

lemma sub_bytes_one: "a < length bs \<Longrightarrow> sub_bytes bs a (Suc a) = [bs ! a]"
  by (simp add: sub_bytes_def take_Suc_conv_app_nth)


lemma length_zeros [simp]: "length zeros = 32"
  by (simp add: zeros_def)

lemma zeros_iff: "length d = 32 \<Longrightarrow> (\<forall>b \<in> set d. b = 0) \<longleftrightarrow> d = zeros"
  by (auto simp: zeros_def intro: replicate_eqI)

lemmas inventory_constants = STATE_MAGIC_def ROOT_MAGIC_def LEAF_MAGIC_def STATE_BYTES_def
  ROOT_HEADER_BYTES_def ROOT_SLOT_BYTES_def ROOT_BYTES_def LEAF_HEADER_BYTES_def

lemma length_magics [simp]: "length STATE_MAGIC = 8" "length ROOT_MAGIC = 8" "length LEAF_MAGIC = 8"
  by (simp_all add: inventory_constants)

section \<open>The state codec\<close>

definition option_valid :: "('a \<Rightarrow> bool) \<Rightarrow> 'a option \<Rightarrow> bool" where
  "option_valid P x = (case x of None \<Rightarrow> True | Some a \<Rightarrow> P a)"

lemma option_valid_simps [simp]: "option_valid P None" "option_valid P (Some a) = P a"
  by (simp_all add: option_valid_def)

text \<open>What the Rust types guarantee.\<close>

definition state_typed :: "inventory_state \<Rightarrow> bool" where
  "state_typed s \<longleftrightarrow>
     project_id_valid (state_project s) \<and> option_valid object_id_valid (state_parent s)
     \<and> option_valid snapshot_id_valid (state_snapshot s) \<and> length (state_operation_id s) = 32
     \<and> object_id_valid (state_set_root s)"

lemma state_eta [simp]:
  "\<lparr>state_project = state_project s, state_generation = state_generation s, state_count = state_count s,
    state_operation = state_operation s, state_parent = state_parent s, state_snapshot = state_snapshot s,
    state_operation_id = state_operation_id s, state_set_root = state_set_root s\<rparr> = s"
  by simp

lemma length_encode_state: "state_typed s \<Longrightarrow> length (encode_state s) = STATE_BYTES"
  by (auto simp: encode_state_def state_typed_def STATE_BYTES_def option_valid_def split: option.splits)

lemma decode_operation_iff: "decode_operation v = Inr op \<longleftrightarrow> v = operation_byte op"
  by (cases op) (auto simp: decode_operation_def operation_byte_def)

lemma id_from_digest_iff:
  "length d = 32 \<Longrightarrow> object_id_from_digest_bytes d = a \<longleftrightarrow> object_id_valid a \<and> d = object_digest_bytes a"
  "length d = 32 \<Longrightarrow> snapshot_id_from_digest_bytes d = i \<longleftrightarrow> snapshot_id_valid i \<and> d = snapshot_digest_bytes i"
  "length u = 16 \<Longrightarrow> project_id_from_uuid_bytes u = p \<longleftrightarrow> project_id_valid p \<and> u = project_uuid_bytes p"
  by auto

lemma decode_parent_iff:
  assumes "length digest = 32"
  shows "decode_parent flag digest = Inr p \<longleftrightarrow> option_valid object_id_valid p
     \<and> flag = (if p \<noteq> None then 1 else 0)
     \<and> digest = (case p of Some i \<Rightarrow> object_digest_bytes i | None \<Rightarrow> zeros)"
  using id_from_digest_iff(1) [OF assms] zeros_iff [OF assms]
  by (cases p) (simp_all add: decode_parent_def)

lemma decode_state_snapshot_iff:
  assumes "length digest = 32"
  shows "decode_state_snapshot op digest = Inr i \<longleftrightarrow> option_valid snapshot_id_valid i
     \<and> (i = None \<longleftrightarrow> op = Initialize)
     \<and> digest = (case i of Some i \<Rightarrow> snapshot_digest_bytes i | None \<Rightarrow> zeros)"
  using id_from_digest_iff(2) [OF assms]
  by (cases i; cases op) (auto simp: decode_state_snapshot_def)

lemma word_be_sub_iff:
  "length bs = 4 \<Longrightarrow> be_word bs = (w :: u32) \<longleftrightarrow> bs = word_be w"
  "length bs = 8 \<Longrightarrow> be_word bs = (v :: u64) \<longleftrightarrow> bs = word_be v"
  by (auto simp: be_word_word_be word_be_be_word)

lemma valid_shape_snapshot: "valid_shape s \<Longrightarrow> state_snapshot s = None \<longleftrightarrow> state_operation s = Initialize"
  by (auto simp: valid_shape_def split: inventory_operation.splits)

lemma state_split:
  assumes "length bs = STATE_BYTES"
  shows "bs = sub_bytes bs 0 8 @ sub_bytes bs 8 12 @ sub_bytes bs 12 28 @ sub_bytes bs 28 36
    @ sub_bytes bs 36 44 @ [bs ! 44] @ [bs ! 45] @ sub_bytes bs 46 78 @ sub_bytes bs 78 110
    @ sub_bytes bs 110 142 @ sub_bytes bs 142 174"
proof -
  have "bs = sub_bytes bs 0 174" using assms by (simp add: sub_bytes_all STATE_BYTES_def)
  also have "\<dots> = sub_bytes bs 0 8 @ sub_bytes bs 8 12 @ sub_bytes bs 12 28 @ sub_bytes bs 28 36
    @ sub_bytes bs 36 44 @ sub_bytes bs 44 45 @ sub_bytes bs 45 46 @ sub_bytes bs 46 78 @ sub_bytes bs 78 110
    @ sub_bytes bs 110 142 @ sub_bytes bs 142 174"
    using sub_bytes_cut [of 0 8 174 bs] sub_bytes_cut [of 8 12 174 bs] sub_bytes_cut [of 12 28 174 bs]
      sub_bytes_cut [of 28 36 174 bs] sub_bytes_cut [of 36 44 174 bs] sub_bytes_cut [of 44 45 174 bs]
      sub_bytes_cut [of 45 46 174 bs] sub_bytes_cut [of 46 78 174 bs] sub_bytes_cut [of 78 110 174 bs]
      sub_bytes_cut [of 110 142 174 bs] by simp
  finally show ?thesis using assms sub_bytes_one [of 44 bs] sub_bytes_one [of 45 bs]
    by (simp add: STATE_BYTES_def)
qed

lemma decode_state_iff:
  "decode_state bs = Inr s \<longleftrightarrow> state_typed s \<and> valid_shape s \<and> encode_state s = bs"
proof
  assume l: "decode_state bs = Inr s"
  then have len: "length bs = STATE_BYTES" by (auto simp: decode_state_def split: if_splits)
  have "word_be SCHEMA_VERSION = sub_bytes bs 8 12" "STATE_MAGIC = sub_bytes bs 0 8"
    using l word_be_sub_iff(1) [of "sub_bytes bs 8 12" SCHEMA_VERSION] len
    by (auto simp: decode_state_def Let_def STATE_BYTES_def split: if_splits)
  with l len show "state_typed s \<and> valid_shape s \<and> encode_state s = bs"
    by (subst state_split [OF len])
      (auto simp: decode_state_def Let_def STATE_BYTES_def decode_operation_iff decode_parent_iff
        decode_state_snapshot_iff res_bind_Inr_iff encode_state_def state_typed_def word_be_be_word
        split: if_splits)
next
  assume r: "state_typed s \<and> valid_shape s \<and> encode_state s = bs"
  then have len: "length bs = STATE_BYTES" using length_encode_state by blast
  from r have l: "length (project_uuid_bytes (state_project s)) = 16"
    "length (case state_parent s of Some p \<Rightarrow> object_digest_bytes p | None \<Rightarrow> zeros) = 32"
    "length (case state_snapshot s of Some i \<Rightarrow> snapshot_digest_bytes i | None \<Rightarrow> zeros) = 32"
    "length (state_operation_id s) = 32" "length (object_digest_bytes (state_set_root s)) = 32"
    by (auto simp: state_typed_def option_valid_def split: option.splits)
  have bs: "bs = STATE_MAGIC @ word_be SCHEMA_VERSION @ project_uuid_bytes (state_project s)
     @ word_be (state_generation s) @ word_be (state_count s) @ [operation_byte (state_operation s)]
     @ [if state_parent s \<noteq> None then 1 else 0]
     @ (case state_parent s of Some p \<Rightarrow> object_digest_bytes p | None \<Rightarrow> zeros)
     @ (case state_snapshot s of Some i \<Rightarrow> snapshot_digest_bytes i | None \<Rightarrow> zeros)
     @ state_operation_id s @ object_digest_bytes (state_set_root s)"
    using r by (simp add: encode_state_def)
  from bs l have f: "sub_bytes bs 0 8 = STATE_MAGIC" "sub_bytes bs 8 12 = word_be SCHEMA_VERSION"
    "sub_bytes bs 12 28 = project_uuid_bytes (state_project s)"
    "sub_bytes bs 28 36 = word_be (state_generation s)" "sub_bytes bs 36 44 = word_be (state_count s)"
    "bs ! 44 = operation_byte (state_operation s)" "bs ! 45 = (if state_parent s \<noteq> None then 1 else 0)"
    "sub_bytes bs 46 78 = (case state_parent s of Some p \<Rightarrow> object_digest_bytes p | None \<Rightarrow> zeros)"
    "sub_bytes bs 78 110 = (case state_snapshot s of Some i \<Rightarrow> snapshot_digest_bytes i | None \<Rightarrow> zeros)"
    "sub_bytes bs 110 142 = state_operation_id s"
    "sub_bytes bs 142 174 = object_digest_bytes (state_set_root s)"
    by (simp_all add: sub_bytes_append sub_bytes_Cons sub_bytes_all nth_append)
  have "decode_operation (bs ! 44) = Inr (state_operation s)"
    "decode_parent (bs ! 45) (sub_bytes bs 46 78) = Inr (state_parent s)"
    "decode_state_snapshot (state_operation s) (sub_bytes bs 78 110) = Inr (state_snapshot s)"
    using r l valid_shape_snapshot [of s] f(8,9)
    by (simp_all add: f decode_operation_iff decode_parent_iff decode_state_snapshot_iff state_typed_def)
  with len r show "decode_state bs = Inr s"
    by (simp add: decode_state_def f be_word_word_be Let_def state_typed_def)
qed

text \<open>C26: A stored inventory state decodes to a state exactly when it is the encoding of that
state and the state has the shape of its operation.\<close>

theorem state_codec_canonical:
  "decode_state bs = Inr s \<longleftrightarrow> state_typed s \<and> valid_shape s \<and> encode_state s = bs"
  by (rule decode_state_iff)

section \<open>The set root codec\<close>

lemma concat_uniform:
  "\<forall>c \<in> set cs. length c = k \<Longrightarrow> length bs = length cs * k \<Longrightarrow>
   concat cs = bs \<longleftrightarrow> (\<forall>i < length cs. sub_bytes bs (i * k) (i * k + k) = cs ! i)"
proof (induction cs arbitrary: bs)
  case (Cons c cs)
  then have len: "length c = k" "length (take k bs) = k" "length (drop k bs) = length cs * k" by simp_all
  have t: "sub_bytes bs 0 k = take k bs" by (simp add: sub_bytes_def)
  have d: "sub_bytes bs (Suc i * k) (Suc i * k + k) = sub_bytes (drop k bs) (i * k) (i * k + k)" for i
    by (simp add: sub_bytes_def add.commute)
  have "concat (c # cs) = bs \<longleftrightarrow> c = take k bs \<and> concat cs = drop k bs"
    using len by (metis append_eq_conv_conj concat.simps(2))
  also have "\<dots> \<longleftrightarrow> sub_bytes bs (0 * k) (0 * k + k) = c
      \<and> (\<forall>i < length cs. sub_bytes bs (Suc i * k) (Suc i * k + k) = cs ! i)"
    unfolding d using Cons.IH [of "drop k bs"] Cons.prems len(3) t by auto
  finally show ?case by (simp only: length_Cons All_less_Suc2 nth_Cons_0 nth_Cons_Suc)
qed simp

definition slot_ok :: "leaf_ref option \<Rightarrow> bool" where
  "slot_ok r = option_valid (\<lambda>l. object_id_valid (leaf_ref_id l)
     \<and> object_digest_bytes (leaf_ref_id l) \<noteq> zeros \<and> 0 < leaf_ref_count l) r"

definition set_root_typed :: "set_root \<Rightarrow> bool" where
  "set_root_typed r \<longleftrightarrow> project_id_valid (root_project r) \<and> length (root_leaves r) = 256
     \<and> (\<forall>l \<in> set (root_leaves r). slot_ok l)"

lemma length_encode_slot: "slot_ok r \<Longrightarrow> length (encode_slot r) = 37"
  by (auto simp: encode_slot_def slot_ok_def option_valid_def split: option.splits)

lemma decode_slot_iff:
  assumes "off + 37 \<le> length bs"
  shows "decode_slot bs off = Inr r \<longleftrightarrow> slot_ok r \<and> sub_bytes bs off (off + 37) = encode_slot r"
proof -
  let ?d = "sub_bytes bs (off + 1) (off + 33)" and ?c = "sub_bytes bs (off + 33) (off + 37)"
  have s: "sub_bytes bs off (off + 37) = [bs ! off] @ ?d @ ?c"
    using sub_bytes_cut [of off "off + 1" "off + 37" bs] sub_bytes_cut [of "off + 1" "off + 33" "off + 37" bs]
      sub_bytes_one [of off bs] assms by simp
  have l: "length ?d = 32" "length ?c = 4" using assms by simp_all
  have w: "be_word ?c = (w :: u32) \<longleftrightarrow> ?c = word_be w" for w
    by (rule word_be_sub_iff) (rule l)
  show ?thesis
  proof (cases r)
    case None
    then show ?thesis using l w [of 0]
      by (auto simp: decode_slot_def s slot_ok_def encode_slot_def Let_def)
  next
    case (Some a)
    have "decode_slot bs off = Inr r \<longleftrightarrow> bs ! off = 1 \<and> ?d \<noteq> zeros \<and> 0 < leaf_ref_count a
        \<and> object_id_from_digest_bytes ?d = leaf_ref_id a \<and> be_word ?c = leaf_ref_count a"
      using Some by (cases a) (auto simp: decode_slot_def Let_def)
    with Some l show ?thesis
      by (auto simp: s slot_ok_def encode_slot_def w id_from_digest_iff)
  qed
qed

lemma root_header_split:
  assumes "length bs = ROOT_BYTES"
  shows "bs = sub_bytes bs 0 8 @ sub_bytes bs 8 12 @ sub_bytes bs 12 28 @ sub_bytes bs 28 36 @ drop 36 bs"
proof -
  have "bs = sub_bytes bs 0 36 @ drop 36 bs" by (simp add: sub_bytes_def)
  then show ?thesis using sub_bytes_cut [of 0 8 36 bs] sub_bytes_cut [of 8 12 36 bs]
      sub_bytes_cut [of 12 28 36 bs] by simp
qed

lemma decode_slots_iff:
  assumes len: "length bs = ROOT_BYTES"
  shows "try_map (\<lambda>i. decode_slot bs (ROOT_HEADER_BYTES + i * ROOT_SLOT_BYTES)) [0..<256] = Inr leaves
    \<longleftrightarrow> length leaves = 256 \<and> (\<forall>l \<in> set leaves. slot_ok l) \<and> drop 36 bs = concat (map encode_slot leaves)"
proof -
  have ld: "length (drop 36 bs) = 256 * 37" using len by (simp add: inventory_constants)
  have "try_map (\<lambda>i. decode_slot bs (ROOT_HEADER_BYTES + i * ROOT_SLOT_BYTES)) [0..<256] = Inr leaves
    \<longleftrightarrow> length leaves = 256 \<and> (\<forall>i < 256. slot_ok (leaves ! i)
       \<and> sub_bytes (drop 36 bs) (i * 37) (i * 37 + 37) = encode_slot (leaves ! i))"
  proof -
    have "decode_slot bs (ROOT_HEADER_BYTES + i * ROOT_SLOT_BYTES) = Inr l
      \<longleftrightarrow> slot_ok l \<and> sub_bytes (drop 36 bs) (i * 37) (i * 37 + 37) = encode_slot l" if "i < 256" for i l
    proof -
      have "36 + i * 37 + 37 \<le> length bs" using that len by (simp add: inventory_constants)
      from decode_slot_iff [OF this] show ?thesis
        by (simp add: inventory_constants sub_bytes_def add.commute)
    qed
    then show ?thesis by (auto simp: try_map_Inr_iff list_all2_conv_all_nth)
  qed
  also have "\<dots> \<longleftrightarrow> length leaves = 256 \<and> (\<forall>l \<in> set leaves. slot_ok l)
      \<and> concat (map encode_slot leaves) = drop 36 bs"
    using concat_uniform [of "map encode_slot leaves" 37 "drop 36 bs"] ld
    by (auto simp: length_encode_slot all_set_conv_all_nth)
  finally show ?thesis by auto
qed

lemma decode_set_root_iff:
  "decode_set_root bs = Inr r \<longleftrightarrow> set_root_typed r \<and> encode_set_root r = Inr bs"
proof
  assume l: "decode_set_root bs = Inr r"
  then have len: "length bs = ROOT_BYTES" by (auto simp: decode_set_root_def split: if_splits)
  have "word_be SCHEMA_VERSION = sub_bytes bs 8 12" "ROOT_MAGIC = sub_bytes bs 0 8"
    using l word_be_sub_iff(1) [of "sub_bytes bs 8 12" SCHEMA_VERSION] len
    by (auto simp: decode_set_root_def Let_def inventory_constants split: if_splits)
  moreover have "length bs = 9508" using len by (simp add: inventory_constants)
  ultimately show "set_root_typed r \<and> encode_set_root r = Inr bs" using l len
    by (subst root_header_split [OF len])
      (auto simp: decode_set_root_def Let_def decode_slots_iff [OF len] res_bind_Inr_iff encode_set_root_def
        set_root_typed_def word_be_be_word split: if_splits)
next
  assume r: "set_root_typed r \<and> encode_set_root r = Inr bs"
  then have l: "length (project_uuid_bytes (root_project r)) = 16"
    and bs: "bs = ROOT_MAGIC @ word_be SCHEMA_VERSION @ project_uuid_bytes (root_project r)
        @ word_be (root_count r) @ concat (map encode_slot (root_leaves r))"
    by (auto simp: set_root_typed_def encode_set_root_def split: if_splits)
  have "length (concat (map encode_slot (root_leaves r))) = 256 * 37"
  proof -
    have "map (length \<circ> encode_slot) (root_leaves r) = replicate 256 37"
      using r by (intro replicate_eqI) (auto simp: set_root_typed_def length_encode_slot)
    then show ?thesis by (simp add: length_concat comp_def sum_list_replicate)
  qed
  with bs l have len: "length bs = ROOT_BYTES" by (simp add: inventory_constants)
  from bs l have f: "sub_bytes bs 0 8 = ROOT_MAGIC" "sub_bytes bs 8 12 = word_be SCHEMA_VERSION"
    "sub_bytes bs 12 28 = project_uuid_bytes (root_project r)"
    "sub_bytes bs 28 36 = word_be (root_count r)" "drop 36 bs = concat (map encode_slot (root_leaves r))"
    by (simp_all add: sub_bytes_append sub_bytes_Cons sub_bytes_all)
  have "try_map (\<lambda>i. decode_slot bs (ROOT_HEADER_BYTES + i * ROOT_SLOT_BYTES)) [0..<256] = Inr (root_leaves r)"
    using r f(5) by (simp add: decode_slots_iff [OF len] set_root_typed_def)
  with len r show "decode_set_root bs = Inr r"
    by (simp add: decode_set_root_def f be_word_word_be Let_def set_root_typed_def)
qed

text \<open>C27: A stored set root decodes exactly when it is the encoding of that set root: 256 slots, each
empty or a non-zero id with a positive count.\<close>

theorem set_root_codec_canonical:
  "decode_set_root bs = Inr r \<longleftrightarrow> set_root_typed r \<and> encode_set_root r = Inr bs"
  by (rule decode_set_root_iff)

section \<open>The set leaf codec\<close>

lemma chunks_exact_concat:
  "0 < n \<Longrightarrow> \<forall>c \<in> set cs. length c = n \<Longrightarrow> chunks_exact n (concat cs) = cs"
  by (induction cs) (simp_all add: chunks_exact.simps [of n "[]"] chunks_exact.simps [of n "_ @ _"])

lemma concat_chunks_exact:
  "0 < n \<Longrightarrow> length bs = m * n \<Longrightarrow>
   concat (chunks_exact n bs) = bs \<and> length (chunks_exact n bs) = m \<and> (\<forall>c \<in> set (chunks_exact n bs). length c = n)"
proof (induction m arbitrary: bs)
  case (Suc m)
  have "chunks_exact n bs = take n bs # chunks_exact n (drop n bs)"
    using Suc.prems by (subst chunks_exact.simps) auto
  with Suc.IH [of "drop n bs"] Suc.prems show ?case by simp
qed (simp add: chunks_exact.simps [of n "[]"])

lemma sorted_wrt_snoc: "sorted_wrt R (xs @ [x]) \<longleftrightarrow> sorted_wrt R xs \<and> (\<forall>y \<in> set xs. R y x)"
  by (auto simp: sorted_wrt_append)

lemma decode_leaf_id_iff:
  "decode_leaf_id p ids c = Inr js \<longleftrightarrow> js = ids @ [snapshot_id_from_digest_bytes c]
     \<and> snapshot_digest_bytes (snapshot_id_from_digest_bytes c) ! 0 = p
     \<and> (ids \<noteq> [] \<longrightarrow> last ids < snapshot_id_from_digest_bytes c)"
  by (auto simp: decode_leaf_id_def Let_def not_le)

lemma decode_leaf_ids_iff:
  "\<forall>c \<in> set cs. length c = 32 \<Longrightarrow>
   try_fold (decode_leaf_id p) [] cs = Inr ids \<longleftrightarrow>
     ids = map snapshot_id_from_digest_bytes cs \<and> (\<forall>i \<in> set ids. snapshot_digest_bytes i ! 0 = p)
     \<and> sorted_wrt (<) ids"
proof (induction cs arbitrary: ids rule: rev_induct)
  case (snoc c cs)
  let ?m = "map snapshot_id_from_digest_bytes cs"
  have last: "sorted_wrt (<) ?m \<Longrightarrow> (?m \<noteq> [] \<longrightarrow> last ?m < i) \<longleftrightarrow> (\<forall>y \<in> set ?m. y < i)" for i
  proof (cases ?m rule: rev_cases)
    case (snoc ys y)
    assume "sorted_wrt (<) ?m"
    with snoc show ?thesis by (simp add: sorted_wrt_append) (meson less_trans)
  qed simp
  have IH: "try_fold (decode_leaf_id p) [] cs = Inr js \<longleftrightarrow> js = ?m \<and> (\<forall>i \<in> set js. snapshot_digest_bytes i ! 0 = p)
     \<and> sorted_wrt (<) js" for js using snoc by simp
  show ?case using last [of "snapshot_id_from_digest_bytes c"]
    by (auto simp: try_fold_append res_bind_Inr_iff IH decode_leaf_id_iff sorted_wrt_snoc)
qed auto

definition set_leaf_typed :: "set_leaf \<Rightarrow> bool" where
  "set_leaf_typed l \<longleftrightarrow> project_id_valid (leaf_project l) \<and> (\<forall>i \<in> set (leaf_ids l). snapshot_id_valid i)"

definition set_leaf_valid :: "set_leaf \<Rightarrow> bool" where
  "set_leaf_valid l \<longleftrightarrow> set_leaf_typed l \<and> leaf_ids l \<noteq> [] \<and> sorted_wrt (<) (leaf_ids l)
     \<and> (\<forall>i \<in> set (leaf_ids l). snapshot_digest_bytes i ! 0 = leaf_id_prefix l)
     \<and> length (leaf_ids l) < 2 ^ 32"

definition leaf_bytes :: "set_leaf \<Rightarrow> bytes" where
  "leaf_bytes l = LEAF_MAGIC @ word_be SCHEMA_VERSION @ project_uuid_bytes (leaf_project l)
     @ [leaf_id_prefix l] @ word_be (word_of_nat (length (leaf_ids l)) :: u32)
     @ concat (map snapshot_digest_bytes (leaf_ids l))"

lemma encode_set_leaf_iff:
  "set_leaf_typed l \<Longrightarrow> encode_set_leaf l = Inr bs \<longleftrightarrow> set_leaf_valid l \<and> bs = leaf_bytes l"
  using windows2_sorted_wrt [of "(<)" "leaf_ids l"]
  by (auto simp: encode_set_leaf_def set_leaf_valid_def leaf_bytes_def)

lemma leaf_header_split:
  assumes "33 \<le> length bs"
  shows "bs = sub_bytes bs 0 8 @ sub_bytes bs 8 12 @ sub_bytes bs 12 28 @ [bs ! 28] @ sub_bytes bs 29 33 @ drop 33 bs"
proof -
  have "bs = sub_bytes bs 0 33 @ drop 33 bs" by (simp add: sub_bytes_def)
  then show ?thesis using sub_bytes_cut [of 0 8 33 bs] sub_bytes_cut [of 8 12 33 bs]
      sub_bytes_cut [of 12 28 33 bs] sub_bytes_cut [of 28 29 33 bs] sub_bytes_one [of 28 bs] assms by simp
qed

lemma decode_set_leaf_sound:
  assumes d: "decode_set_leaf bs = Inr l"
  shows "set_leaf_valid l \<and> leaf_bytes l = bs"
proof -
  define n where "n = unat (be_word (sub_bytes bs 29 33) :: u32)"
  from d have len: "length bs = 33 + n * 32" "n \<noteq> 0"
    and hd: "sub_bytes bs 0 8 = LEAF_MAGIC" "be_word (sub_bytes bs 8 12) = SCHEMA_VERSION"
    and ids: "try_fold (decode_leaf_id (bs ! 28)) [] (chunks_exact 32 (drop 33 bs)) = Inr (leaf_ids l)"
    and l: "leaf_project l = project_id_from_uuid_bytes (sub_bytes bs 12 28)" "leaf_id_prefix l = bs ! 28"
    by (auto simp: decode_set_leaf_def Let_def n_def [symmetric] res_bind_Inr_iff ok_or_Inr_iff
        usize_checked_add_def usize_checked_mul_def LEAF_HEADER_BYTES_def split: if_splits)
  from len have "length (drop 33 bs) = n * 32" by simp
  note c = concat_chunks_exact [OF _ this, simplified]
  then have ids': "leaf_ids l = map snapshot_id_from_digest_bytes (chunks_exact 32 (drop 33 bs))"
    "\<forall>i \<in> set (leaf_ids l). snapshot_digest_bytes i ! 0 = bs ! 28" "sorted_wrt (<) (leaf_ids l)"
    using ids decode_leaf_ids_iff by blast+
  have dig: "map snapshot_digest_bytes (leaf_ids l) = chunks_exact 32 (drop 33 bs)"
    using c by (auto simp: ids' intro!: map_idI)
  have n: "n < 2 ^ 32" using unsigned_less [of "be_word (sub_bytes bs 29 33) :: u32"] by (simp add: n_def)
  have w: "word_be (word_of_nat (length (leaf_ids l)) :: u32) = sub_bytes bs 29 33"
    using c len by (simp add: ids' n_def word_be_be_word)
  have s: "word_be SCHEMA_VERSION = sub_bytes bs 8 12"
    using hd(2) len word_be_sub_iff(1) [of "sub_bytes bs 8 12" SCHEMA_VERSION] by simp
  have "leaf_bytes l = bs"
    unfolding leaf_bytes_def w s dig using c len hd(1) leaf_header_split [of bs] l by simp
  moreover have "set_leaf_valid l"
    using ids' l len c n by (auto simp: set_leaf_valid_def set_leaf_typed_def)
  ultimately show ?thesis by blast
qed

lemma length_leaf_bytes: "set_leaf_typed l \<Longrightarrow> length (leaf_bytes l) = 33 + length (leaf_ids l) * 32"
proof -
  assume t: "set_leaf_typed l"
  have "map (length \<circ> snapshot_digest_bytes) (leaf_ids l) = replicate (length (leaf_ids l)) 32"
    using t by (intro replicate_eqI) (auto simp: set_leaf_typed_def)
  then show ?thesis using t by (simp add: leaf_bytes_def length_concat comp_def sum_list_replicate set_leaf_typed_def)
qed

lemma decode_set_leaf_complete:
  assumes v: "set_leaf_valid l"
  shows "decode_set_leaf (leaf_bytes l) = Inr l"
proof -
  have t: "set_leaf_typed l" and n: "length (leaf_ids l) < 2 ^ 32" using v by (auto simp: set_leaf_valid_def)
  let ?bs = "leaf_bytes l"
  have p: "length (project_uuid_bytes (leaf_project l)) = 16" using t by (simp add: set_leaf_typed_def)
  have f: "sub_bytes ?bs 0 8 = LEAF_MAGIC" "sub_bytes ?bs 8 12 = word_be SCHEMA_VERSION"
    "sub_bytes ?bs 12 28 = project_uuid_bytes (leaf_project l)" "?bs ! 28 = leaf_id_prefix l"
    "sub_bytes ?bs 29 33 = word_be (word_of_nat (length (leaf_ids l)) :: u32)"
    "drop 33 ?bs = concat (map snapshot_digest_bytes (leaf_ids l))"
    using p by (simp_all add: leaf_bytes_def sub_bytes_append sub_bytes_Cons sub_bytes_all nth_append)
  have c: "chunks_exact 32 (concat (map snapshot_digest_bytes (leaf_ids l))) = map snapshot_digest_bytes (leaf_ids l)"
    by (rule chunks_exact_concat) (use t in \<open>auto simp: set_leaf_typed_def\<close>)
  have m: "map (snapshot_id_from_digest_bytes \<circ> snapshot_digest_bytes) (leaf_ids l) = leaf_ids l"
    using t by (intro map_idI) (simp add: set_leaf_typed_def)
  have "try_fold (decode_leaf_id (leaf_id_prefix l)) [] (map snapshot_digest_bytes (leaf_ids l)) = Inr (leaf_ids l)"
    using v t m by (subst decode_leaf_ids_iff) (auto simp: set_leaf_valid_def set_leaf_typed_def)
  moreover have "unat (word_of_nat (length (leaf_ids l)) :: u32) = length (leaf_ids l)"
    using n by (simp add: unat_of_nat take_bit_nat_eq_self)
  ultimately show ?thesis using v t n length_leaf_bytes [OF t]
    by (simp add: decode_set_leaf_def Let_def f c be_word_word_be usize_checked_add_def
        usize_checked_mul_def LEAF_HEADER_BYTES_def set_leaf_valid_def set_leaf_typed_def)
qed

lemma decode_set_leaf_iff:
  "decode_set_leaf bs = Inr l \<longleftrightarrow> set_leaf_typed l \<and> encode_set_leaf l = Inr bs"
  using decode_set_leaf_sound decode_set_leaf_complete encode_set_leaf_iff
  by (metis set_leaf_valid_def)

text \<open>C28: A stored set leaf decodes exactly to the leaf it is the encoding of, and exactly the
well-formed leaves have one: the ids are snapshot ids, at least one and fewer than two to the 32,
strictly increasing, and all begin with the byte of the leaf's prefix. The encoding is the magic
and version, the project, the prefix, the number of ids and their digests.\<close>

theorem set_leaf_codec_canonical:
  "(decode_set_leaf bs = Inr l \<longleftrightarrow> set_leaf_typed l \<and> encode_set_leaf l = Inr bs)
   \<and> (set_leaf_typed l \<and> encode_set_leaf l = Inr bs \<longleftrightarrow>
        project_id_valid (leaf_project l)
        \<and> list_all (\<lambda>i. snapshot_id_valid i \<and> snapshot_digest_bytes i ! 0 = leaf_id_prefix l) (leaf_ids l)
        \<and> leaf_ids l \<noteq> [] \<and> sorted_wrt (<) (leaf_ids l) \<and> length (leaf_ids l) < 2 ^ 32
        \<and> bs = LEAF_MAGIC @ word_be SCHEMA_VERSION @ project_uuid_bytes (leaf_project l)
            @ [leaf_id_prefix l] @ word_be (word_of_nat (length (leaf_ids l)) :: u32)
            @ concat (map snapshot_digest_bytes (leaf_ids l)))"
  using decode_set_leaf_iff [of bs l] encode_set_leaf_iff [of l bs]
  by (auto simp: set_leaf_valid_def set_leaf_typed_def leaf_bytes_def list_all_iff)

end
