(* ===== verification/Inventory.thy ===== *)
theory Inventory
  imports SnapshotStore InventoryCodec
begin

text \<open>
  The snapshot inventory (\<open>storage/snapshot_inventory.rs\<close>): the set of a project's snapshots as a
  chain of immutable states, each with a set root of 256 slots that refer to leaves of sorted ids,
  and a head file that names the current state. Definitions only; InventoryProof has the theorems.
\<close>

section \<open>Where the inventory is stored\<close>

definition inventory_root :: path where
  "inventory_root = [lit ''inventory'', lit ''snapshots'']"

definition inventory_head_path :: path where
  "inventory_head_path = inventory_root @ [lit ''head'']"

definition inventory_state_path :: "object_id \<Rightarrow> path" where
  "inventory_state_path i =
     inventory_root @ [lit ''states'', take 2 (object_as_str i), object_as_str i @ lit ''.state'']"

definition inventory_set_root_path :: "object_id \<Rightarrow> path" where
  "inventory_set_root_path i =
     inventory_root @ [lit ''sets'', lit ''roots'', take 2 (object_as_str i), object_as_str i @ lit ''.root'']"

definition inventory_set_leaf_path :: "object_id \<Rightarrow> path" where
  "inventory_set_leaf_path i =
     inventory_root @ [lit ''sets'', lit ''leaves'', take 2 (object_as_str i), object_as_str i @ lit ''.leaf'']"

definition inventory_directories :: "path list" where
  "inventory_directories =
     [inventory_root @ [lit ''states''], inventory_root @ [lit ''sets'', lit ''roots''],
      inventory_root @ [lit ''sets'', lit ''leaves'']]"

definition validate_inventory_directories :: "unit io" where
  "validate_inventory_directories d = (try_all (open_directory d) inventory_directories, d)"

section \<open>Loading and storing\<close>

abbreviation corrupt :: "string \<Rightarrow> checkpo_error" where
  "corrupt m \<equiv> Corruption (lit m)"

definition check_state :: "external \<Rightarrow> object_id \<Rightarrow> project_id \<Rightarrow> bytes \<Rightarrow> inventory_head result" where
  "check_state x i pid bs =
     (if length bs \<noteq> STATE_BYTES then Inl (corrupt ''snapshot inventory state has invalid length'')
      else
      res_bind (state_id (blake3 x) bs) (\<lambda>actual.
      if actual \<noteq> i then Inl (corrupt ''snapshot inventory state digest mismatch'')
      else
      res_bind (decode_state bs) (\<lambda>s.
      if state_project s \<noteq> pid then Inl (corrupt ''snapshot inventory belongs to project'')
      else Inr \<lparr>head_id = i, head_state = s\<rparr>)))"

definition load_state :: "external \<Rightarrow> object_id \<Rightarrow> project_id \<Rightarrow> inventory_head io" where
  "load_state x i pid =
     st_bind (read_bytes_bounded (inventory_state_path i) STATE_BYTES) (\<lambda>bs.
     st_lift (check_state x i pid bs))"

definition store_state :: "external \<Rightarrow> inventory_state \<Rightarrow> object_id io" where
  "store_state x s =
     (let bs = encode_state s in
      st_bind (st_lift (state_id (blake3 x) bs)) (\<lambda>i.
      st_bind (store_content_addressed_bytes (inventory_state_path i) bs) (\<lambda>_.
      st_lift (Inr i))))"

definition check_set_root :: "external \<Rightarrow> object_id \<Rightarrow> project_id \<Rightarrow> bytes \<Rightarrow> set_root result" where
  "check_set_root x i pid bs =
     (if length bs \<noteq> ROOT_BYTES then Inl (corrupt ''snapshot inventory set root has invalid length'')
      else
      res_bind (set_root_id (blake3 x) bs) (\<lambda>actual.
      if actual \<noteq> i then Inl (corrupt ''snapshot inventory set root digest mismatch'')
      else
      res_bind (decode_set_root bs) (\<lambda>r.
      if root_project r \<noteq> pid then Inl (corrupt ''snapshot inventory set root belongs to project'')
      else Inr r)))"

definition load_set_root :: "external \<Rightarrow> object_id \<Rightarrow> project_id \<Rightarrow> set_root io" where
  "load_set_root x i pid =
     st_bind (read_bytes_bounded (inventory_set_root_path i) ROOT_BYTES) (\<lambda>bs.
     st_lift (check_set_root x i pid bs))"

definition store_set_root :: "external \<Rightarrow> set_root \<Rightarrow> object_id io" where
  "store_set_root x r =
     st_bind (st_lift (encode_set_root r)) (\<lambda>bs.
     st_bind (st_lift (set_root_id (blake3 x) bs)) (\<lambda>i.
     st_bind (store_content_addressed_bytes (inventory_set_root_path i) bs) (\<lambda>_.
     st_lift (Inr i))))"

definition check_set_leaf ::
    "external \<Rightarrow> object_id \<Rightarrow> project_id \<Rightarrow> byte \<Rightarrow> bytes \<Rightarrow> set_leaf result" where
  "check_set_leaf x i pid prefix bs =
     res_bind (set_leaf_id (blake3 x) bs) (\<lambda>actual.
     if actual \<noteq> i then Inl (corrupt ''snapshot inventory set leaf digest mismatch'')
     else
     res_bind (decode_set_leaf bs) (\<lambda>l.
     if leaf_project l \<noteq> pid \<or> leaf_id_prefix l \<noteq> prefix
     then Inl (corrupt ''snapshot inventory set leaf has the wrong project or prefix'')
     else Inr l))"

definition load_set_leaf :: "external \<Rightarrow> object_id \<Rightarrow> project_id \<Rightarrow> byte \<Rightarrow> set_leaf io" where
  "load_set_leaf x i pid prefix =
     st_bind (read_bytes_bounded (inventory_set_leaf_path i) MAX_LEAF_BYTES) (\<lambda>bs.
     st_lift (check_set_leaf x i pid prefix bs))"

definition store_set_leaf :: "external \<Rightarrow> set_leaf \<Rightarrow> object_id io" where
  "store_set_leaf x l =
     st_bind (st_lift (encode_set_leaf l)) (\<lambda>bs.
     st_bind (st_lift (set_leaf_id (blake3 x) bs)) (\<lambda>i.
     st_bind (store_content_addressed_bytes (inventory_set_leaf_path i) bs) (\<lambda>_.
     st_lift (Inr i))))"

definition write_head :: "object_id \<Rightarrow> unit io" where
  "write_head i = write_bytes_atomic inventory_head_path (object_as_str i @ [0x0A])"

definition parse_head :: "bytes \<Rightarrow> object_id result" where
  "parse_head bs =
     (if \<not> utf8_valid bs then Inl (corrupt ''snapshot inventory head is not UTF-8'')
      else
      res_bind (ok_or (corrupt ''snapshot inventory head is not canonical'') (strip_suffix [0x0A] bs)) (\<lambda>text.
      if 0x0D \<in> set text \<or> 0x0A \<in> set text
      then Inl (corrupt ''snapshot inventory head contains trailing data'')
      else res_map_err (\<lambda>_. corrupt ''snapshot inventory head id is invalid'') (object_id_parse text)))"

definition inventory_head_anchored :: "external \<Rightarrow> project_id \<Rightarrow> inventory_head io" where
  "inventory_head_anchored x pid =
     st_bind (read_bytes_bounded inventory_head_path HEAD_BYTES_MAX) (\<lambda>bs.
     st_bind (st_lift (parse_head bs)) (\<lambda>i.
     load_state x i pid))"

definition inventory_head_of :: "external \<Rightarrow> project_id \<Rightarrow> inventory_head io" where
  "inventory_head_of x pid =
     st_bind validate_inventory_directories (\<lambda>_. inventory_head_anchored x pid)"

definition inventory_head_id :: "external \<Rightarrow> project_id \<Rightarrow> str io" where
  "inventory_head_id x pid =
     st_bind (inventory_head_of x pid) (\<lambda>h. st_lift (Inr (object_as_str (head_id h))))"

definition inventory_snapshot_count :: "external \<Rightarrow> project_id \<Rightarrow> u64 io" where
  "inventory_snapshot_count x pid =
     st_bind (inventory_head_of x pid) (\<lambda>h. st_lift (Inr (state_count (head_state h))))"

section \<open>The set of snapshots\<close>

text \<open>\<open>slice::binary_search\<close> on a sorted slice: where the value is, or where it belongs.\<close>

definition binary_search :: "'a::linorder list \<Rightarrow> 'a \<Rightarrow> nat + nat" where
  "binary_search xs v =
     (let i = length (takeWhile (\<lambda>y. y < v) xs) in
      if i < length xs \<and> xs ! i = v then Inr i else Inl i)"

text \<open>A leaf with the number of ids its set root says it has.\<close>

definition load_counted_leaf :: "external \<Rightarrow> project_id \<Rightarrow> leaf_ref \<Rightarrow> byte \<Rightarrow> set_leaf io" where
  "load_counted_leaf x pid reference prefix =
     st_bind (load_set_leaf x (leaf_ref_id reference) pid prefix) (\<lambda>leaf.
     st_lift (if length (leaf_ids leaf) \<noteq> unat (leaf_ref_count reference)
              then Inl (corrupt ''snapshot inventory leaf count mismatch'') else Inr leaf))"

definition load_counted_root :: "external \<Rightarrow> project_id \<Rightarrow> inventory_state \<Rightarrow> set_root io" where
  "load_counted_root x pid s =
     st_bind (load_set_root x (state_set_root s) pid) (\<lambda>root.
     st_lift (if root_count root \<noteq> state_count s
              then Inl (corrupt ''snapshot inventory state count does not match its set root'')
              else Inr root))"

definition set_root_contains :: "external \<Rightarrow> project_id \<Rightarrow> set_root \<Rightarrow> snapshot_id \<Rightarrow> bool io" where
  "set_root_contains x pid root i =
     (let prefix = snapshot_digest_bytes i ! 0 in
      case root_leaves root ! unat prefix of
        None \<Rightarrow> st_lift (Inr False)
      | Some reference \<Rightarrow>
          st_bind (load_counted_leaf x pid reference prefix) (\<lambda>leaf.
          st_lift (Inr (case binary_search (leaf_ids leaf) i of Inr _ \<Rightarrow> True | Inl _ \<Rightarrow> False))))"

definition mutate_ids :: "inventory_operation \<Rightarrow> snapshot_id \<Rightarrow> snapshot_id list \<Rightarrow> snapshot_id list result" where
  "mutate_ids operation i ids =
     (case (operation, binary_search ids i) of
        (Add, Inr _) \<Rightarrow> Inl (corrupt ''snapshot inventory adds duplicate root'')
      | (Add, Inl index) \<Rightarrow> Inr (take index ids @ i # drop index ids)
      | (Remove, Inr index) \<Rightarrow> Inr (take index ids @ drop (index + 1) ids)
      | (Remove, Inl _) \<Rightarrow> Inl (corrupt ''snapshot inventory removes unknown root'')
      | (Initialize, _) \<Rightarrow> Inl (Unexpected (lit ''unreachable'')))"

definition mutate_count :: "inventory_operation \<Rightarrow> u64 \<Rightarrow> u64 result" where
  "mutate_count operation count =
     ok_or (corrupt ''snapshot inventory count overflow'')
       (case operation of
          Add \<Rightarrow> checked_add count 1
        | Remove \<Rightarrow> checked_sub count 1
        | Initialize \<Rightarrow> None)"

definition store_leaf_ref :: "external \<Rightarrow> set_leaf \<Rightarrow> leaf_ref option io" where
  "store_leaf_ref x leaf =
     (if leaf_ids leaf = [] then st_lift (Inr None)
      else if \<not> length (leaf_ids leaf) < 2 ^ 32
      then st_lift (Inl (corrupt ''snapshot inventory leaf exceeds u32 entries''))
      else
        st_bind (store_set_leaf x leaf) (\<lambda>i.
        st_lift (Inr (Some \<lparr>leaf_ref_id = i, leaf_ref_count = word_of_nat (length (leaf_ids leaf))\<rparr>))))"

definition mutate_set ::
    "external \<Rightarrow> project_id \<Rightarrow> inventory_state \<Rightarrow> inventory_operation \<Rightarrow> snapshot_id \<Rightarrow> (object_id \<times> u64) io" where
  "mutate_set x pid s operation i =
     st_bind (load_counted_root x pid s) (\<lambda>root.
     let prefix = snapshot_digest_bytes i ! 0; slot = unat prefix in
     st_bind (case root_leaves root ! slot of
         Some reference \<Rightarrow> load_counted_leaf x pid reference prefix
       | None \<Rightarrow> st_lift (Inr \<lparr>leaf_project = pid, leaf_id_prefix = prefix, leaf_ids = []\<rparr>)) (\<lambda>leaf.
     st_bind (st_lift (mutate_ids operation i (leaf_ids leaf))) (\<lambda>ids.
     st_bind (st_lift (mutate_count operation (state_count s))) (\<lambda>count.
     st_bind (store_leaf_ref x (leaf\<lparr>leaf_ids := ids\<rparr>)) (\<lambda>reference.
     st_bind (store_set_root x
         (root\<lparr>root_count := count, root_leaves := (root_leaves root)[slot := reference]\<rparr>)) (\<lambda>set_root.
     st_lift (Inr (set_root, count))))))))"

text \<open>One round of the loop over the slots; the collected ids and the running count.\<close>

definition collect_slot ::
    "external \<Rightarrow> project_id \<Rightarrow> snapshot_id set \<times> u64 \<Rightarrow> nat \<times> leaf_ref option \<Rightarrow> (snapshot_id set \<times> u64) io" where
  "collect_slot x pid = (\<lambda>(ids, total) (slot, reference).
     case reference of
       None \<Rightarrow> st_lift (Inr (ids, total))
     | Some reference \<Rightarrow>
         st_bind (load_counted_leaf x pid reference (word_of_nat slot)) (\<lambda>leaf.
         st_bind (st_lift (ok_or (corrupt ''snapshot inventory set count overflow'')
             (checked_add total (ucast (leaf_ref_count reference))))) (\<lambda>total.
         st_bind (st_lift (try_fold (\<lambda>ids i.
             if i \<in> ids then Inl (corrupt ''snapshot inventory set contains duplicate root'')
             else Inr (insert i ids)) ids (leaf_ids leaf))) (\<lambda>ids.
         st_lift (Inr (ids, total))))))"

definition load_inventory_ids :: "external \<Rightarrow> project_id \<Rightarrow> inventory_state \<Rightarrow> snapshot_id set io" where
  "load_inventory_ids x pid s =
     st_bind (load_counted_root x pid s) (\<lambda>root.
     st_bind (st_fold (collect_slot x pid) ({}, 0) (enumerate 0 (root_leaves root))) (\<lambda>(ids, total).
     st_lift (if total \<noteq> root_count root \<or> word_of_nat (card ids) \<noteq> root_count root
              then Inl (corrupt ''snapshot inventory set root count mismatch'') else Inr ids)))"

section \<open>Transitions\<close>

text \<open>The state after the expected one, and its commit, which stores it and then replaces the head.\<close>

definition next_state ::
    "external \<Rightarrow> project_id \<Rightarrow> inventory_operation \<Rightarrow> snapshot_id \<Rightarrow> str \<Rightarrow> object_id \<Rightarrow> u64
     \<Rightarrow> object_id \<times> u64 \<Rightarrow> inventory_state" where
  "next_state x pid operation i operation_id expected generation =
     (\<lambda>(set_root, count).
        \<lparr>state_project = pid, state_generation = generation, state_count = count,
         state_operation = operation, state_parent = Some expected, state_snapshot = Some i,
         state_operation_id = inventory_operation_id (blake3 x) operation_id,
         state_set_root = set_root\<rparr>)"

definition publish_state :: "external \<Rightarrow> project_id \<Rightarrow> object_id \<Rightarrow> inventory_state \<Rightarrow> str io" where
  "publish_state x pid expected state =
     st_bind (store_state x state) (\<lambda>stored.
     st_bind (inventory_head_of x pid) (\<lambda>current.
     if head_id current \<noteq> expected
     then st_lift (Inl (WorkingTreeChanged (lit ''inventory/snapshots/head'')))
     else
     st_bind (write_head stored) (\<lambda>_.
     st_bind (inventory_head_of x pid) (\<lambda>current.
     st_lift (if head_id current \<noteq> stored
       then Inl (corrupt ''snapshot inventory head commit did not persist'')
       else Inr (object_as_str stored))))))"

definition commit_state :: "external \<Rightarrow> project_id \<Rightarrow> object_id \<Rightarrow> inventory_state \<Rightarrow> str io" where
  "commit_state x pid expected state =
     st_bind (st_lift (state_id (blake3 x) (encode_state state))) (\<lambda>new_id.
     st_bind (inventory_head_of x pid) (\<lambda>current.
     if head_id current = new_id
     then st_lift (if head_state current \<noteq> state
       then Inl (corrupt ''snapshot inventory replay state does not match its operation'')
       else Inr (object_as_str new_id))
     else if head_id current \<noteq> expected
     then st_lift (Inl (WorkingTreeChanged (lit ''inventory/snapshots/head'')))
     else publish_state x pid expected state))"

definition transition_inventory ::
    "external \<Rightarrow> project_id \<Rightarrow> inventory_operation \<Rightarrow> snapshot_id \<Rightarrow> str \<Rightarrow> str \<Rightarrow> str io" where
  "transition_inventory x pid operation i expected_head_id operation_id =
     (if operation_id = [] then st_lift (Inl (corrupt ''snapshot inventory operation id is empty''))
      else
      st_bind (st_lift (res_map_err (\<lambda>_. corrupt ''snapshot inventory expected head id is invalid'')
          (object_id_parse expected_head_id))) (\<lambda>expected_id.
      st_bind (load_state x expected_id pid) (\<lambda>expected.
      st_bind (mutate_set x pid (head_state expected) operation i) (\<lambda>set_root_and_count.
      st_bind (st_lift (ok_or (corrupt ''snapshot inventory generation overflow'')
          (checked_add (state_generation (head_state expected)) 1))) (\<lambda>generation.
      commit_state x pid (head_id expected)
        (next_state x pid operation i operation_id (head_id expected) generation set_root_and_count))))))"

definition add_snapshot_to_inventory_if_head ::
    "external \<Rightarrow> calendar \<Rightarrow> project_id \<Rightarrow> snapshot_id \<Rightarrow> str \<Rightarrow> str \<Rightarrow> str io" where
  "add_snapshot_to_inventory_if_head x c pid i expected_head_id operation_id =
     st_bind (load_snapshot_root_header x c i) (\<lambda>root.
     if header_project root \<noteq> pid then st_lift (Inl (corrupt ''snapshot belongs to project''))
     else transition_inventory x pid Add i expected_head_id operation_id)"

definition remove_snapshot_from_inventory_if_head ::
    "external \<Rightarrow> project_id \<Rightarrow> snapshot_id \<Rightarrow> str \<Rightarrow> str \<Rightarrow> str io" where
  "remove_snapshot_from_inventory_if_head x pid i expected_head_id operation_id d =
     (case symlink_metadata d (snapshot_path i) of
        Inl (Io _ NotFound) \<Rightarrow> transition_inventory x pid Remove i expected_head_id operation_id d
      | Inl e \<Rightarrow> (Inl e, d)
      | Inr _ \<Rightarrow>
          (Inl (corrupt ''cannot remove from inventory while its physical root exists''), d))"

section \<open>The first state\<close>

definition require_empty_directory :: "path \<Rightarrow> unit io" where
  "require_empty_directory p d =
     (res_bind (open_directory d p) (\<lambda>_.
      if list_entry_names d p \<noteq> []
      then Inl (corrupt ''snapshot inventory is missing for a non-empty repository'') else Inr ()), d)"

definition initial_state :: "project_id \<Rightarrow> object_id \<Rightarrow> inventory_state" where
  "initial_state pid set_root =
     \<lparr>state_project = pid, state_generation = 0, state_count = 0, state_operation = Initialize,
      state_parent = None, state_snapshot = None, state_operation_id = zeros, state_set_root = set_root\<rparr>"

definition initialize_snapshot_inventory :: "external \<Rightarrow> project_id \<Rightarrow> unit io" where
  "initialize_snapshot_inventory x pid d =
     (case open_file d inventory_head_path of
        Inr _ \<Rightarrow>
          st_bind validate_inventory_directories (\<lambda>_.
          st_bind (inventory_head_anchored x pid) (\<lambda>_. st_lift (Inr ()))) d
      | Inl (Io _ NotFound) \<Rightarrow>
          st_bind (require_empty_directory snapshots_dir) (\<lambda>_.
          st_bind (st_fold (\<lambda>_ p. create_directory p) () inventory_directories) (\<lambda>_.
          st_bind (store_set_root x \<lparr>root_project = pid, root_count = 0, root_leaves = replicate 256 None\<rparr>) (\<lambda>set_root.
          st_bind (store_state x (initial_state pid set_root)) (\<lambda>i.
          write_head i)))) d
      | Inl e \<Rightarrow> (Inl e, d))"

section \<open>Removing a snapshot\<close>

definition surviving_add :: "snapshot_id set \<Rightarrow> inventory_state \<Rightarrow> snapshot_id option result" where
  "surviving_add remaining s =
     (if state_operation s \<noteq> Add then Inr None
      else
      res_bind (ok_or (corrupt ''snapshot inventory Add has no snapshot id'') (state_snapshot s)) (\<lambda>candidate.
      Inr (if candidate \<in> remaining then Some candidate else None)))"

lemma parent_generation:
  "checked_add (g' :: u64) 1 = Some g \<Longrightarrow> unat g' < unat g"
  by (simp add: checked_add_Some_iff)

text \<open>
  The walk from state to parent; generations go down by one, so it ends. In both walks the set
  of visited states is the code's.
\<close>

function newest_surviving_add ::
    "external \<Rightarrow> project_id \<Rightarrow> snapshot_id set \<Rightarrow> object_id set \<Rightarrow> inventory_head \<Rightarrow> snapshot_id io" where
  "newest_surviving_add x pid remaining visited cursor d =
     (if head_id cursor \<in> visited
      then (Inl (corrupt ''snapshot inventory state chain contains a cycle''), d)
      else
      case surviving_add remaining (head_state cursor) of
        Inl e \<Rightarrow> (Inl e, d)
      | Inr (Some candidate) \<Rightarrow> (Inr candidate, d)
      | Inr None \<Rightarrow>
          (case state_parent (head_state cursor) of
             None \<Rightarrow>
               (Inl (corrupt ''snapshot inventory cannot identify the newest surviving checkpoint''), d)
           | Some parent_id \<Rightarrow>
               (case load_state x parent_id pid d of
                  (Inl e, d') \<Rightarrow> (Inl e, d')
                | (Inr parent, d') \<Rightarrow>
                    if checked_add (state_generation (head_state parent)) 1
                         \<noteq> Some (state_generation (head_state cursor))
                    then (Inl (corrupt ''snapshot inventory state generations are not contiguous''), d')
                    else newest_surviving_add x pid remaining (insert (head_id cursor) visited) parent d')))"
  by pat_completeness auto

termination
  by (relation "measure (\<lambda>(x, pid, remaining, visited, cursor, d). unat (state_generation (head_state cursor)))")
    (auto dest: parent_generation)

text \<open>The latest snapshot once the removed one is gone, and how many are left.\<close>

definition remaining_latest ::
    "external \<Rightarrow> project_id \<Rightarrow> snapshot_id \<Rightarrow> snapshot_id option \<Rightarrow> snapshot_id option
     \<Rightarrow> inventory_head \<Rightarrow> set_root \<Rightarrow> u64 \<Rightarrow> (u64 \<times> snapshot_id option) io" where
  "remaining_latest x pid removed current_latest preferred_parent head root remaining_count =
     (if current_latest \<noteq> Some removed
      then
        st_bind (case current_latest of
            None \<Rightarrow> st_lift (Inr True) | Some latest \<Rightarrow> set_root_contains x pid root latest) (\<lambda>inside.
        st_lift (if \<not> inside
          then Inl (corrupt ''refs/latest points outside the snapshot inventory'')
          else Inr (remaining_count, current_latest)))
      else if remaining_count = 0 then st_lift (Inr (0, None))
      else
      st_bind (case preferred_parent of
          Some parent \<Rightarrow> if parent \<noteq> removed then set_root_contains x pid root parent else st_lift (Inr False)
        | None \<Rightarrow> st_lift (Inr False)) (\<lambda>preferred.
      if preferred then st_lift (Inr (remaining_count, preferred_parent))
      else
      st_bind (load_inventory_ids x pid (head_state head)) (\<lambda>ids.
      st_bind (newest_surviving_add x pid (ids - {removed}) {} head) (\<lambda>candidate.
      st_lift (Inr (remaining_count, Some candidate))))))"

definition project_snapshot_removal ::
    "external \<Rightarrow> project_id \<Rightarrow> snapshot_id \<Rightarrow> snapshot_id option \<Rightarrow> snapshot_id option
     \<Rightarrow> (u64 \<times> snapshot_id option) io" where
  "project_snapshot_removal x pid removed current_latest preferred_parent =
     st_bind (inventory_head_of x pid) (\<lambda>head.
     st_bind (st_lift (if state_count (head_state head) = 0
       then Inl (corrupt ''cannot remove a snapshot from an empty inventory'') else Inr ())) (\<lambda>_.
     st_bind (load_counted_root x pid (head_state head)) (\<lambda>root.
     st_bind (set_root_contains x pid root removed) (\<lambda>contained.
     st_bind (st_lift (if \<not> contained
       then Inl (corrupt ''snapshot inventory does not contain root'') else Inr ())) (\<lambda>_.
     st_bind (st_lift (ok_or (corrupt ''snapshot inventory count underflow'')
         (checked_sub (state_count (head_state head)) 1))) (\<lambda>remaining_count.
     remaining_latest x pid removed current_latest preferred_parent head root remaining_count))))))"

definition validate_physical_snapshot_inventory :: "external \<Rightarrow> project_id \<Rightarrow> snapshot_id list io" where
  "validate_physical_snapshot_inventory x pid =
     st_bind (inventory_head_of x pid) (\<lambda>head.
     st_bind (load_inventory_ids x pid (head_state head)) (\<lambda>inventory_ids.
     st_bind (\<lambda>d. (list_snapshot_ids d, d)) (\<lambda>physical_ids.
     if inventory_ids \<noteq> set physical_ids
     then st_lift (Inl (corrupt ''snapshot inventory does not match physical roots''))
     else
     st_bind (inventory_head_of x pid) (\<lambda>again.
     st_lift (if head_id again \<noteq> head_id head
       then Inl (corrupt ''snapshot inventory changed while physical roots were inspected'')
       else Inr physical_ids)))))"

section \<open>Garbage\<close>

function reachable_states ::
    "external \<Rightarrow> project_id \<Rightarrow> object_id set \<Rightarrow> path set \<Rightarrow> inventory_head \<Rightarrow> path set io" where
  "reachable_states x pid visited reachable cursor d =
     (if head_id cursor \<in> visited
      then (Inl (corrupt ''snapshot inventory state chain contains a cycle''), d)
      else
      (case state_parent (head_state cursor) of
         None \<Rightarrow> (Inr (insert (inventory_state_path (head_id cursor)) reachable), d)
       | Some parent_id \<Rightarrow>
           (case load_state x parent_id pid d of
              (Inl e, d') \<Rightarrow> (Inl e, d')
            | (Inr parent, d') \<Rightarrow>
                if checked_add (state_generation (head_state parent)) 1
                     \<noteq> Some (state_generation (head_state cursor))
                then (Inl (corrupt ''snapshot inventory state generations are not contiguous''), d')
                else reachable_states x pid (insert (head_id cursor) visited)
                  (insert (inventory_state_path (head_id cursor)) reachable) parent d')))"
  by pat_completeness auto

termination
  by (relation "measure (\<lambda>(x, pid, visited, reachable, cursor, d). unat (state_generation (head_state cursor)))")
    (auto dest: parent_generation)

definition reachable_leaf :: "external \<Rightarrow> project_id \<Rightarrow> path set \<Rightarrow> nat \<times> leaf_ref option \<Rightarrow> path set io" where
  "reachable_leaf x pid reachable = (\<lambda>(slot, reference).
     case reference of
       None \<Rightarrow> st_lift (Inr reachable)
     | Some reference \<Rightarrow>
         st_bind (load_counted_leaf x pid reference (word_of_nat slot)) (\<lambda>_.
         st_lift (Inr (insert (inventory_set_leaf_path (leaf_ref_id reference)) reachable))))"

definition validate_inventory_content_path :: "path \<Rightarrow> str \<Rightarrow> unit result" where
  "validate_inventory_content_path below suffix =
     (case below of
        [shard, file_name] \<Rightarrow>
          if \<not> is_lower_hex_shard shard
          then Inl (corrupt ''snapshot inventory content path is invalid'')
          else if \<not> utf8_valid file_name
          then Inl (corrupt ''snapshot inventory filename is not UTF-8'')
          else
          res_bind (ok_or (corrupt ''snapshot inventory filename has the wrong suffix'')
              (strip_suffix suffix file_name)) (\<lambda>text.
          res_bind (res_map_err (\<lambda>_. corrupt ''snapshot inventory filename has an invalid id'')
              (object_id_parse text)) (\<lambda>i.
          if shard \<noteq> take 2 (object_as_str i)
          then Inl (corrupt ''snapshot inventory shard does not match its id'')
          else Inr ()))
      | _ \<Rightarrow> Inl (corrupt ''snapshot inventory content path is invalid''))"

text \<open>The entries below a directory; they are read in no fixed order, here in that of the paths.\<close>

definition walk_directory :: "disk \<Rightarrow> path \<Rightarrow> path list" where
  "walk_directory d store =
     sort (remdups (filter (\<lambda>q. length store < length q \<and> take (length store) q = store)
       (map fst (disk_nodes d))))"

definition gc_entry :: "disk \<Rightarrow> path set \<Rightarrow> path \<Rightarrow> str \<Rightarrow> path \<Rightarrow> (path \<times> nat) list result" where
  "gc_entry d reachable store suffix q =
     (let below = drop (length store) q in
      res_bind (symlink_metadata d q) (\<lambda>metadata.
      case metadata of
        LinkNode \<Rightarrow> Inl (corrupt ''snapshot inventory contains a symbolic link or reparse point'')
      | Directory \<Rightarrow>
          if length below \<noteq> 1 \<or> \<not> is_lower_hex_shard (last q)
          then Inl (corrupt ''snapshot inventory contains an unexpected directory'') else Inr []
      | RegularFile bs \<Rightarrow>
          res_bind (validate_inventory_content_path below suffix) (\<lambda>_.
          Inr (if q \<in> reachable then [] else [(q, length bs)]))))"

definition inventory_stores :: "(path \<times> str) list" where
  "inventory_stores =
     [(inventory_root @ [lit ''states''], lit ''.state''),
      (inventory_root @ [lit ''sets'', lit ''roots''], lit ''.root''),
      (inventory_root @ [lit ''sets'', lit ''leaves''], lit ''.leaf'')]"

definition gc_stores :: "disk \<Rightarrow> path set \<Rightarrow> (path \<times> nat) list result" where
  "gc_stores d reachable =
     res_bind (try_map (\<lambda>(store, suffix).
         res_bind (try_map (gc_entry d reachable store suffix) (walk_directory d store)) (\<lambda>found.
         Inr (concat found))) inventory_stores) (\<lambda>found.
     Inr (sort_key fst (concat found)))"

definition inventory_gc_candidates :: "external \<Rightarrow> project_id \<Rightarrow> (path \<times> nat) list io" where
  "inventory_gc_candidates x pid =
     st_bind (inventory_head_of x pid) (\<lambda>head.
     st_bind (load_counted_root x pid (head_state head)) (\<lambda>root.
     st_bind (reachable_states x pid {} {} head) (\<lambda>reachable.
     st_bind (st_fold (reachable_leaf x pid)
         (insert (inventory_set_root_path (state_set_root (head_state head))) reachable)
         (enumerate 0 (root_leaves root))) (\<lambda>reachable.
     (\<lambda>d. (gc_stores d reachable, d))))))"

end
