(* ===== verification/InventoryStore.thy ===== *)
theory InventoryStore
  imports Inventory
begin

text \<open>
  The inventory as a store of immutable values, named by the hash of their bytes: what a load
  returns after a store, and how the stores of one transition leave the files that others use.
  An interface, \<open>content_store\<close>, has its interpretations for states, set roots and set leaves.
\<close>

section \<open>Content-addressed values\<close>

text \<open>The value stored under an id, if the file is there, not too large and passes the check.\<close>

definition value_at ::
    "('i \<Rightarrow> path) \<Rightarrow> nat \<Rightarrow> ('i \<Rightarrow> bytes \<Rightarrow> 'v result) \<Rightarrow> disk \<Rightarrow> 'i \<Rightarrow> 'v option" where
  "value_at path_of bound check d i =
     (case file_at d (path_of i) of
        None \<Rightarrow> None
      | Some bs \<Rightarrow> if length bs \<le> bound then (case check i bs of Inr v \<Rightarrow> Some v | Inl _ \<Rightarrow> None) else None)"

lemma value_at_Some_iff:
  "value_at path_of bound check d i = Some v \<longleftrightarrow>
     (\<exists>bs. file_at d (path_of i) = Some bs \<and> length bs \<le> bound \<and> check i bs = Inr v)"
  by (auto simp: value_at_def split: option.splits sum.splits)

text \<open>
  What a store of immutable values promises its clients: the id in the name of a file is the hash
  of its content, and different ids have different files.
\<close>

locale content_store =
  fixes path_of :: "'i \<Rightarrow> path" and ident :: "bytes \<Rightarrow> 'i result"
    and check :: "'i \<Rightarrow> bytes \<Rightarrow> 'v result" and bound :: nat
  assumes path_inj: "path_of i = path_of j \<Longrightarrow> i = j"
    and check_ident: "check i bs = Inr v \<Longrightarrow> ident bs = Inr i"
begin

lemma load_sound:
  "st_bind (read_bytes_bounded (path_of i) bound) (\<lambda>bs. st_lift (check i bs)) d = (Inr v, d') \<Longrightarrow>
   value_at path_of bound check d i = Some v \<and> d' = tick d"
  using read_disk [of "path_of i" bound d]
  by (auto simp: st_bind_Inr_iff st_lift_Inr_iff value_at_Some_iff dest: read_file)

lemma load_disk:
  "snd (st_bind (read_bytes_bounded (path_of i) bound) (\<lambda>bs. st_lift (check i bs)) d) = tick d"
  using read_disk [of "path_of i" bound d]
  by (auto simp: st_bind_def st_lift_def split: prod.splits sum.splits)

lemma load_complete:
  assumes "faultless d" "value_at path_of bound check d i = Some v"
  shows "st_bind (read_bytes_bounded (path_of i) bound) (\<lambda>bs. st_lift (check i bs)) d = (Inr v, tick d)"
  using assms read_faultless [OF assms(1)]
  by (auto simp: value_at_Some_iff st_bind_Inr_iff st_lift_Inr_iff)

lemma same_file: "file_at d' (path_of i) = file_at d (path_of i) \<Longrightarrow>
   value_at path_of bound check d' i = value_at path_of bound check d i"
  by (simp add: value_at_def)

lemma value_ident:
  "value_at path_of bound check d i = Some v \<Longrightarrow>
   \<exists>bs. file_at d (path_of i) = Some bs \<and> ident bs = Inr i \<and> check i bs = Inr v"
  by (auto simp: value_at_Some_iff dest: check_ident)

end

section \<open>The three stores of the inventory\<close>

lemma content_id_valid: "content_id b3 domain bs = Inr i \<Longrightarrow> object_id_valid i"
  by (auto simp: content_id_def object_id_valid_def object_id_parse_def res_bind_Inr_iff)

lemma object_id_cases: "object_as_str i = object_as_str j \<Longrightarrow> i = j"
  by (simp add: object_id.expand)

lemma inventory_path_simps [simp]:
  "inventory_state_path i = inventory_state_path j \<longleftrightarrow> i = j"
  "inventory_set_root_path i = inventory_set_root_path j \<longleftrightarrow> i = j"
  "inventory_set_leaf_path i = inventory_set_leaf_path j \<longleftrightarrow> i = j"
  "inventory_state_path i \<noteq> inventory_set_root_path j" "inventory_set_root_path j \<noteq> inventory_state_path i"
  "inventory_state_path i \<noteq> inventory_set_leaf_path j" "inventory_set_leaf_path j \<noteq> inventory_state_path i"
  "inventory_set_root_path i \<noteq> inventory_set_leaf_path j" "inventory_set_leaf_path j \<noteq> inventory_set_root_path i"
  "inventory_state_path i \<noteq> inventory_head_path" "inventory_set_root_path i \<noteq> inventory_head_path"
  "inventory_set_leaf_path i \<noteq> inventory_head_path" "inventory_head_path \<noteq> inventory_state_path i"
  "inventory_head_path \<noteq> inventory_set_root_path i" "inventory_head_path \<noteq> inventory_set_leaf_path i"
  by (auto simp: inventory_state_path_def inventory_set_root_path_def inventory_set_leaf_path_def
      inventory_head_path_def inventory_root_def lit_def intro: object_id_cases)

lemma check_state_iff:
  "check_state x i pid bs = Inr h \<longleftrightarrow> head_id h = i \<and> state_id (blake3 x) bs = Inr i
     \<and> state_project (head_state h) = pid \<and> state_typed (head_state h) \<and> valid_shape (head_state h)
     \<and> encode_state (head_state h) = bs"
proof -
  have "decode_state bs = Inr s \<Longrightarrow> length bs = STATE_BYTES" for s
    by (auto simp: decode_state_def split: if_splits)
  then show ?thesis
    by (cases h) (auto simp: check_state_def res_bind_Inr_iff decode_state_iff length_encode_state)
qed

lemma check_set_root_iff:
  "check_set_root x i pid bs = Inr r \<longleftrightarrow> set_root_id (blake3 x) bs = Inr i \<and> root_project r = pid
     \<and> set_root_typed r \<and> encode_set_root r = Inr bs"
proof -
  have "decode_set_root bs = Inr s \<Longrightarrow> length bs = ROOT_BYTES" for s
    by (auto simp: decode_set_root_def split: if_splits)
  then show ?thesis
    by (auto simp: check_set_root_def res_bind_Inr_iff decode_set_root_iff)
qed

lemma check_set_leaf_iff:
  "check_set_leaf x i pid prefix bs = Inr l \<longleftrightarrow> set_leaf_id (blake3 x) bs = Inr i \<and> leaf_project l = pid
     \<and> leaf_id_prefix l = prefix \<and> set_leaf_typed l \<and> encode_set_leaf l = Inr bs"
  by (auto simp: check_set_leaf_def res_bind_Inr_iff decode_set_leaf_iff)

abbreviation state_at where
  "state_at x pid \<equiv> value_at inventory_state_path STATE_BYTES (\<lambda>i. check_state x i pid)"

abbreviation set_root_at where
  "set_root_at x pid \<equiv> value_at inventory_set_root_path ROOT_BYTES (\<lambda>i. check_set_root x i pid)"

abbreviation set_leaf_at where
  "set_leaf_at x pid prefix \<equiv>
     value_at inventory_set_leaf_path MAX_LEAF_BYTES (\<lambda>i. check_set_leaf x i pid prefix)"

interpretation states:
  content_store inventory_state_path "state_id (blake3 x)" "\<lambda>i. check_state x i pid" STATE_BYTES
  for x pid
  by unfold_locales (auto simp: check_state_iff)

interpretation set_roots:
  content_store inventory_set_root_path "set_root_id (blake3 x)" "\<lambda>i. check_set_root x i pid" ROOT_BYTES
  for x pid
  by unfold_locales (auto simp: check_set_root_iff)

interpretation set_leaves:
  content_store inventory_set_leaf_path "set_leaf_id (blake3 x)" "\<lambda>i. check_set_leaf x i pid prefix"
    MAX_LEAF_BYTES for x pid prefix
  by unfold_locales (auto simp: check_set_leaf_iff)

lemmas load_state_sound = states.load_sound [folded load_state_def]
lemmas load_set_root_sound = set_roots.load_sound [folded load_set_root_def]
lemmas load_set_leaf_sound = set_leaves.load_sound [folded load_set_leaf_def]
lemmas load_state_complete = states.load_complete [folded load_state_def]
lemmas load_set_root_complete = set_roots.load_complete [folded load_set_root_def]
lemmas load_set_leaf_complete = set_leaves.load_complete [folded load_set_leaf_def]
lemmas load_disks [simp] = states.load_disk [folded load_state_def] set_roots.load_disk [folded load_set_root_def]
  set_leaves.load_disk [folded load_set_leaf_def]

section \<open>Authentic files\<close>

text \<open>A file of the inventory is authentic if its name is the hash of its content.\<close>

definition authentic :: "external \<Rightarrow> path \<Rightarrow> bytes \<Rightarrow> bool" where
  "authentic x p bs \<longleftrightarrow>
     (\<exists>i. p = inventory_state_path i \<and> state_id (blake3 x) bs = Inr i
        \<or> p = inventory_set_root_path i \<and> set_root_id (blake3 x) bs = Inr i
        \<or> p = inventory_set_leaf_path i \<and> set_leaf_id (blake3 x) bs = Inr i)"

lemma authentic_simps [simp]:
  "authentic x (inventory_state_path i) bs \<longleftrightarrow> state_id (blake3 x) bs = Inr i"
  "authentic x (inventory_set_root_path i) bs \<longleftrightarrow> set_root_id (blake3 x) bs = Inr i"
  "authentic x (inventory_set_leaf_path i) bs \<longleftrightarrow> set_leaf_id (blake3 x) bs = Inr i"
  "\<not> authentic x inventory_head_path bs"
  by (auto simp: authentic_def)

text \<open>
  No two different contents among the files of the two disks have the same hash under one of the
  three domain separators of the inventory.
\<close>

definition inventory_domains :: "bytes list" where
  "inventory_domains =
     [lit ''checkpo.snapshot-inventory-state.v2'' @ [0], lit ''checkpo.snapshot-inventory-set-root.v2'' @ [0],
      lit ''checkpo.snapshot-inventory-set-leaf.v2'' @ [0]]"

definition no_collision :: "external \<Rightarrow> disk \<Rightarrow> disk \<Rightarrow> bool" where
  "no_collision x d d' \<longleftrightarrow>
     (\<forall>bs \<in> ran (file_at d) \<union> ran (file_at d'). \<forall>bs' \<in> ran (file_at d) \<union> ran (file_at d').
        \<forall>domain \<in> set inventory_domains. blake3 x (domain @ bs) = blake3 x (domain @ bs') \<longrightarrow> bs = bs')"

lemma encode_lower_hex_inj: "encode_lower_hex a = encode_lower_hex b \<Longrightarrow> a = b"
  by (metis decode_hex_pairs_encode option.inject)

lemma content_id_same: "content_id b3 domain bs = Inr i \<Longrightarrow> content_id b3 domain bs' = Inr i \<Longrightarrow>
    b3 (domain @ bs) = b3 (domain @ bs')"
  by (auto simp: content_id_def object_id_parse_def res_bind_Inr_iff dest: encode_lower_hex_inj)

lemma authentic_same_hash:
  assumes "authentic x p bs" "authentic x p bs'"
  shows "\<exists>domain \<in> set inventory_domains. blake3 x (domain @ bs) = blake3 x (domain @ bs')"
proof -
  from assms(1) consider i where "p = inventory_state_path i" | i where "p = inventory_set_root_path i"
    | i where "p = inventory_set_leaf_path i" by (auto simp: authentic_def)
  then have "\<exists>domain \<in> set inventory_domains. \<exists>i. content_id (blake3 x) domain bs = Inr i \<and> content_id (blake3 x) domain bs' = Inr i"
    by cases (use assms in \<open>simp_all only: authentic_simps state_id_def set_root_id_def set_leaf_id_def
        inventory_domains_def list.set, blast+\<close>)
  then show ?thesis using content_id_same by blast
qed

lemma authentic_unique:
  assumes "no_collision x d d'" "authentic x p bs" "authentic x p bs'"
    and "bs \<in> ran (file_at d) \<union> ran (file_at d')" "bs' \<in> ran (file_at d) \<union> ran (file_at d')"
  shows "bs = bs'"
proof -
  from authentic_same_hash [OF assms(2,3)] obtain domain where "domain \<in> set inventory_domains"
    "blake3 x (domain @ bs) = blake3 x (domain @ bs')" by blast
  with assms(1,4,5) show ?thesis unfolding no_collision_def by blast
qed

text \<open>Every file but the head is the same on the second disk or was replaced by an authentic one.\<close>

definition evolves :: "external \<Rightarrow> disk \<Rightarrow> disk \<Rightarrow> bool" where
  "evolves x d d' \<longleftrightarrow>
     (\<forall>p bs. p \<noteq> inventory_head_path \<longrightarrow> file_at d p = Some bs \<longrightarrow>
        file_at d' p = Some bs \<or> (\<exists>bs'. file_at d' p = Some bs' \<and> authentic x p bs'))"

lemma evolves_refl [simp]: "evolves x d d" "evolves x d (tick d)" "evolves x (tick d) d' = evolves x d d'"
  "evolves x d (tick d') = evolves x d d'"
  by (simp_all add: evolves_def)

lemma evolves_trans [trans]: "evolves x d d' \<Longrightarrow> evolves x d' d'' \<Longrightarrow> evolves x d d''"
  unfolding evolves_def by (metis (full_types))

lemma evolves_authentic:
  assumes "evolves x d d'" "no_collision x d d'" "file_at d p = Some bs" "authentic x p bs"
  shows "file_at d' p = Some bs"
proof -
  have "p \<noteq> inventory_head_path" using assms(4) by auto
  with assms(1,3) consider "file_at d' p = Some bs" | bs' where "file_at d' p = Some bs'" "authentic x p bs'"
    unfolding evolves_def by blast
  then show ?thesis
  proof cases
    case 2
    then have "bs = bs'" using assms by (intro authentic_unique [OF assms(2)]) (auto intro: ranI)
    with 2 show ?thesis by simp
  qed
qed

lemma evolves_values:
  assumes "evolves x d d'" "no_collision x d d'"
  shows "state_at x pid d i = Some s \<Longrightarrow> state_at x pid d' i = Some s"
    and "set_root_at x pid d i = Some r \<Longrightarrow> set_root_at x pid d' i = Some r"
    and "set_leaf_at x pid prefix d i = Some l \<Longrightarrow> set_leaf_at x pid prefix d' i = Some l"
  using evolves_authentic [OF assms]
  by (auto simp: value_at_Some_iff check_state_iff check_set_root_iff check_set_leaf_iff)

definition head_kept :: "disk \<Rightarrow> disk \<Rightarrow> bool" where
  "head_kept d d' \<longleftrightarrow> (\<forall>bs. file_at d inventory_head_path = Some bs \<longrightarrow> file_at d' inventory_head_path = Some bs)"

lemma head_kept_simps [simp]: "head_kept d d" "head_kept (tick d) d' = head_kept d d'" "head_kept d (tick d') = head_kept d d'"
  by (simp_all add: head_kept_def)

lemma head_kept_trans [trans]: "head_kept d d' \<Longrightarrow> head_kept d' d'' \<Longrightarrow> head_kept d d''"
  by (simp add: head_kept_def)

lemma store_evolves:
  assumes "store_content_addressed_bytes p bs d = (r, d')" "authentic x p bs"
  shows "evolves x d d' \<and> head_kept d d'"
proof -
  have "p \<noteq> inventory_head_path" using assms(2) by auto
  from assms(1) show ?thesis
  proof (cases rule: store_cases)
    case stored
    then show ?thesis using \<open>p \<noteq> _\<close> assms(2)
      by (auto simp: evolves_def files_kept_def head_kept_def)
  qed simp
qed

lemma st_bindE:
  assumes "st_bind m f d = (r, d'')"
  obtains e where "m d = (Inl e, d'')" "r = Inl e"
  | a d' where "m d = (Inr a, d')" "f a d' = (r, d'')"
  using assms by (auto simp: st_bind_def split: prod.splits sum.splits)

lemma st_lift_iff: "st_lift m d = (r, d') \<longleftrightarrow> r = m \<and> d' = d"
  by (auto simp: st_lift_def)

lemma load_moves:
  "load_state x i pid d = (r, d') \<Longrightarrow> d' = tick d"
  "load_set_root x i pid d = (r', d') \<Longrightarrow> d' = tick d"
  "load_set_leaf x i pid prefix d = (r'', d') \<Longrightarrow> d' = tick d"
  by (metis load_disks(1) snd_conv, metis load_disks(2) snd_conv, metis load_disks(3) snd_conv)

lemma counted_moves:
  "load_counted_root x pid s d = (r, d') \<Longrightarrow> d' = tick d"
  "load_counted_leaf x pid ref prefix d = (r', d') \<Longrightarrow> d' = tick d"
  by (auto simp: load_counted_root_def load_counted_leaf_def st_lift_iff elim!: st_bindE dest: load_moves)

text \<open>What a file of the inventory that is stored does to the others.\<close>

lemma store_state_evolves: "store_state x s d = (r, d') \<Longrightarrow> evolves x d d' \<and> head_kept d d'"
  by (auto simp: store_state_def Let_def st_lift_iff elim!: st_bindE dest!: store_evolves)

lemma store_set_root_evolves: "store_set_root x s d = (r, d') \<Longrightarrow> evolves x d d' \<and> head_kept d d'"
  by (auto simp: store_set_root_def Let_def st_lift_iff elim!: st_bindE dest!: store_evolves)

lemma store_set_leaf_evolves: "store_set_leaf x s d = (r, d') \<Longrightarrow> evolves x d d' \<and> head_kept d d'"
  by (auto simp: store_set_leaf_def Let_def st_lift_iff elim!: st_bindE dest!: store_evolves)

lemma store_leaf_ref_evolves: "store_leaf_ref x l d = (r, d') \<Longrightarrow> evolves x d d' \<and> head_kept d d'"
  by (auto simp: store_leaf_ref_def st_lift_iff elim!: st_bindE dest!: store_set_leaf_evolves split: if_splits)

lemma mutate_set_evolves:
  assumes "mutate_set x pid s operation i d = (r, d')"
  shows "evolves x d d' \<and> head_kept d d'"
proof -
  let ?slot = "\<lambda>root. case root_leaves root ! unat (snapshot_digest_bytes i ! 0) of
         Some reference \<Rightarrow> load_counted_leaf x pid reference (snapshot_digest_bytes i ! 0)
       | None \<Rightarrow> st_lift (Inr \<lparr>leaf_project = pid, leaf_id_prefix = snapshot_digest_bytes i ! 0, leaf_ids = []\<rparr>)"
  have slot: "?slot root d = (r, d') \<Longrightarrow> evolves x d d' \<and> head_kept d d'" for root d r d'
    by (auto simp: st_lift_iff split: option.splits dest: counted_moves)
  show ?thesis using assms unfolding mutate_set_def Let_def
    by (elim st_bindE)
      (auto simp: st_lift_iff dest!: counted_moves slot store_leaf_ref_evolves store_set_root_evolves
        intro: evolves_trans head_kept_trans)
qed

text \<open>What is stored can be loaded again.\<close>

lemma stored_iff:
  "store_state x s d = (Inr i, d') \<longleftrightarrow> state_id (blake3 x) (encode_state s) = Inr i
     \<and> store_content_addressed_bytes (inventory_state_path i) (encode_state s) d = (Inr (), d')"
  "store_set_root x r d = (Inr i, d') \<longleftrightarrow> (\<exists>bs. encode_set_root r = Inr bs \<and> set_root_id (blake3 x) bs = Inr i
     \<and> store_content_addressed_bytes (inventory_set_root_path i) bs d = (Inr (), d'))"
  "store_set_leaf x l d = (Inr i, d') \<longleftrightarrow> (\<exists>bs. encode_set_leaf l = Inr bs \<and> set_leaf_id (blake3 x) bs = Inr i
     \<and> store_content_addressed_bytes (inventory_set_leaf_path i) bs d = (Inr (), d'))"
  by (auto simp: store_state_def store_set_root_def store_set_leaf_def Let_def st_bind_Inr_iff st_lift_Inr_iff)

lemma store_state_at:
  assumes "store_state x s d = (Inr i, d')" "state_typed s" "valid_shape s"
  shows "state_at x (state_project s) d' i = Some \<lparr>head_id = i, head_state = s\<rparr>"
    and "files_kept d d' (inventory_state_path i)" and "state_id (blake3 x) (encode_state s) = Inr i"
  using assms length_encode_state [OF assms(2)]
  by (auto simp: stored_iff value_at_Some_iff check_state_iff dest!: store_ok)

lemma store_set_root_at:
  assumes "store_set_root x s d = (Inr i, d')" "set_root_typed s"
  shows "set_root_at x (root_project s) d' i = Some s" and "files_kept d d' (inventory_set_root_path i)"
proof -
  have len: "length bs = ROOT_BYTES" if "encode_set_root s = Inr bs" for bs
    using decode_set_root_iff [of bs s] that assms(2) by (auto simp: decode_set_root_def split: if_splits)
  show "set_root_at x (root_project s) d' i = Some s" and "files_kept d d' (inventory_set_root_path i)"
    using assms len
    by (auto simp: stored_iff value_at_Some_iff check_set_root_iff dest!: store_ok)
qed

text \<open>As many ids as a leaf that can be read back holds.\<close>

definition MAX_LEAF_IDS :: nat where
  "MAX_LEAF_IDS = (MAX_LEAF_BYTES - LEAF_HEADER_BYTES) div 32"

lemma store_set_leaf_at:
  assumes "store_set_leaf x l d = (Inr i, d')" "set_leaf_typed l" "length (leaf_ids l) \<le> MAX_LEAF_IDS"
  shows "set_leaf_at x (leaf_project l) (leaf_id_prefix l) d' i = Some l"
    and "files_kept d d' (inventory_set_leaf_path i)" and "set_leaf_valid l" and "object_id_valid i"
proof -
  obtain bs where bs: "encode_set_leaf l = Inr bs" "set_leaf_id (blake3 x) bs = Inr i"
    "store_content_addressed_bytes (inventory_set_leaf_path i) bs d = (Inr (), d')"
    using assms(1) by (auto simp: stored_iff)
  then have v: "set_leaf_valid l" "bs = leaf_bytes l" using encode_set_leaf_iff [OF assms(2)] by auto
  then show "set_leaf_valid l" by simp
  have "length bs \<le> MAX_LEAF_BYTES"
    using v length_leaf_bytes [OF assms(2)] assms(3)
    by (simp add: MAX_LEAF_IDS_def MAX_LEAF_BYTES_def LEAF_HEADER_BYTES_def)
  then show "set_leaf_at x (leaf_project l) (leaf_id_prefix l) d' i = Some l"
    using store_ok [OF bs(3)] bs assms(2) by (simp add: value_at_Some_iff check_set_leaf_iff)
  show "files_kept d d' (inventory_set_leaf_path i)" using store_ok [OF bs(3)] by simp
  show "object_id_valid i" using bs(2) content_id_valid unfolding set_leaf_id_def by blast
qed

end
