(* ===== verification/InventorySet.thy ===== *)
theory InventorySet
  imports InventoryStore
begin

text \<open>
  The set of snapshots behind a set root: the 256 leaves as one set, and what \<open>mutate_set\<close> does to
  it when the hash has no collision among the files of the disk.
\<close>

section \<open>Sorted leaves as sets\<close>

definition applicable :: "inventory_operation \<Rightarrow> snapshot_id \<Rightarrow> snapshot_id set \<Rightarrow> bool" where
  "applicable operation i S = (case operation of Add \<Rightarrow> i \<notin> S | Remove \<Rightarrow> i \<in> S | Initialize \<Rightarrow> False)"

definition apply_operation :: "inventory_operation \<Rightarrow> snapshot_id \<Rightarrow> snapshot_id set \<Rightarrow> snapshot_id set" where
  "apply_operation operation i S =
     (case operation of Add \<Rightarrow> insert i S | Remove \<Rightarrow> S - {i} | Initialize \<Rightarrow> S)"

lemma binary_search_split:
  fixes xs :: "'a::linorder list" and v :: 'a
  assumes "sorted_wrt (<) xs"
  defines "n \<equiv> length (takeWhile (\<lambda>y. y < v) xs)"
  shows "xs = take n xs @ drop n xs" "\<forall>y \<in> set (take n xs). y < v" "\<forall>y \<in> set (drop n xs). v \<le> y"
proof -
  have t: "take n xs = takeWhile (\<lambda>y. y < v) xs" "drop n xs = dropWhile (\<lambda>y. y < v) xs"
    unfolding n_def by (rule takeWhile_eq_take [symmetric], rule dropWhile_eq_drop [symmetric])
  show "xs = take n xs @ drop n xs" by simp
  show "\<forall>y \<in> set (take n xs). y < v" by (auto simp: t dest: set_takeWhileD)
  have "sorted_wrt (<) (drop n xs)" using assms(1) by (rule sorted_wrt_drop)
  show "\<forall>y \<in> set (drop n xs). v \<le> y"
  proof (cases "drop n xs")
    case (Cons y ys)
    then have "\<not> y < v" by (metis t(2) dropWhile_eq_Cons_conv)
    with Cons \<open>sorted_wrt (<) (drop n xs)\<close> show ?thesis by auto
  qed simp
qed

lemma binary_search_cases:
  fixes xs :: "'a::linorder list"
  assumes s: "sorted_wrt (<) xs"
  obtains (found) us vs where "xs = us @ v # vs" "binary_search xs v = Inr (length us)"
  | (missing) us vs where "xs = us @ vs" "binary_search xs v = Inl (length us)" "\<forall>y \<in> set us. y < v" "\<forall>y \<in> set vs. v < y"
proof -
  define n where "n = length (takeWhile (\<lambda>y. y < v) xs)"
  note sp = binary_search_split [OF s, of v, folded n_def]
  have n: "n \<le> length xs" by (simp add: n_def length_takeWhile_le)
  show ?thesis
  proof (cases "n < length xs \<and> xs ! n = v")
    case True
    then have "drop n xs = v # drop (Suc n) xs" by (metis Cons_nth_drop_Suc)
    with True sp(1) n show ?thesis
      by (intro found [of "take n xs" "drop (Suc n) xs"])
        (auto simp: binary_search_def n_def [symmetric])
  next
    case False
    have "\<forall>y \<in> set (drop n xs). v < y"
    proof (cases "drop n xs")
      case (Cons y ys)
      then have "n < length xs" "xs ! n = y" by (auto simp: drop_eq_Nil nth_via_drop not_le intro: leI)
         (metis drop_all leI list.distinct(1))
      with False have "y \<noteq> v" by simp
      with sp(3) Cons sorted_wrt_drop [OF s, of n] show ?thesis by auto
    qed simp
    with False sp n show ?thesis
      by (intro missing [of "take n xs" "drop n xs"]) (auto simp: binary_search_def n_def [symmetric])
  qed
qed

lemma binary_search_found:
  "sorted_wrt (<) xs \<Longrightarrow> (case binary_search xs v of Inr _ \<Rightarrow> True | Inl _ \<Rightarrow> False) \<longleftrightarrow> v \<in> set xs"
  by (erule binary_search_cases [of _ v]) auto

lemma mutate_ids_applicable:
  assumes "sorted_wrt (<) ids"
  shows "(\<exists>ids'. mutate_ids operation i ids = Inr ids') \<longleftrightarrow> applicable operation i (set ids)"
  using assms
  by (cases rule: binary_search_cases [of ids i]) (cases operation; auto simp: mutate_ids_def applicable_def)+

lemma mutate_ids_result:
  assumes "sorted_wrt (<) ids" "mutate_ids operation i ids = Inr ids'"
  shows "sorted_wrt (<) ids'" "set ids' = apply_operation operation i (set ids)" "length ids' \<le> Suc (length ids)"
    "applicable operation i (set ids)"
  using assms(1)
  by (cases rule: binary_search_cases [of ids i];
      use assms in \<open>cases operation; auto simp: mutate_ids_def apply_operation_def applicable_def sorted_wrt_append\<close>)+

lemma mutate_count_result:
  assumes "mutate_count operation c = Inr c'"
  shows "operation = Add \<and> unat c' = unat c + 1 \<or> operation = Remove \<and> unat c = unat c' + 1"
  using assms checked_add_Some_iff [of c 1 c'] checked_sub_Some_iff [of c 1 c']
  by (cases operation) (auto simp: mutate_count_def ok_or_Inr_iff)

section \<open>The set a state stands for\<close>

definition slot_ids :: "external \<Rightarrow> project_id \<Rightarrow> disk \<Rightarrow> set_root \<Rightarrow> nat \<Rightarrow> snapshot_id list option" where
  "slot_ids x pid d root k =
     (case root_leaves root ! k of
        None \<Rightarrow> Some []
      | Some r \<Rightarrow>
          (case set_leaf_at x pid (word_of_nat k) d (leaf_ref_id r) of
             None \<Rightarrow> None
           | Some l \<Rightarrow>
               if length (leaf_ids l) = unat (leaf_ref_count r) then Some (leaf_ids l) else None))"

definition holds_slots :: "external \<Rightarrow> project_id \<Rightarrow> disk \<Rightarrow> set_root \<Rightarrow> snapshot_id set \<Rightarrow> bool" where
  "holds_slots x pid d root S \<longleftrightarrow>
     (\<exists>f. (\<forall>k < 256. slot_ids x pid d root k = Some (f k)) \<and> S = (\<Union>k < 256. set (f k)))
     \<and> card S = unat (root_count root)"

definition holds_set :: "external \<Rightarrow> project_id \<Rightarrow> disk \<Rightarrow> inventory_state \<Rightarrow> snapshot_id set \<Rightarrow> bool" where
  "holds_set x pid d s S \<longleftrightarrow>
     (\<exists>root. set_root_at x pid d (state_set_root s) = Some root \<and> root_count root = state_count s
        \<and> holds_slots x pid d root S)"

lemma set_root_at_typed: "set_root_at x pid d i = Some r \<Longrightarrow> set_root_typed r \<and> root_project r = pid"
  by (auto simp: value_at_Some_iff check_set_root_iff)

lemma set_leaf_at_valid:
  "set_leaf_at x pid p d i = Some l \<Longrightarrow> set_leaf_valid l \<and> leaf_project l = pid \<and> leaf_id_prefix l = p"
  using encode_set_leaf_iff by (auto simp: value_at_Some_iff check_set_leaf_iff)

lemma slot_ids_sorted:
  "slot_ids x pid d root k = Some ids \<Longrightarrow> sorted_wrt (<) ids
     \<and> (\<forall>i \<in> set ids. snapshot_id_valid i \<and> snapshot_digest_bytes i ! 0 = word_of_nat k)"
  by (auto simp: slot_ids_def set_leaf_valid_def set_leaf_typed_def split: option.splits if_splits
      dest: set_leaf_at_valid)

lemma slot_of_nat: "k < 256 \<Longrightarrow> unat (word_of_nat k :: byte) = k"
  by (simp add: unat_of_nat take_bit_nat_eq_self)

lemma byte_slot: "unat (b :: byte) < 256" "word_of_nat (unat b) = b"
  using unsigned_less [of b] by simp_all

lemma slot_members:
  assumes "\<forall>k < 256. slot_ids x pid d root k = Some (f k)"
  shows "i \<in> (\<Union>k < 256. set (f k)) \<longleftrightarrow> i \<in> set (f (unat (snapshot_digest_bytes i ! 0)))"
proof
  assume "i \<in> (\<Union>k < 256. set (f k))"
  then obtain k where "k < 256" "i \<in> set (f k)" by auto
  then show "i \<in> set (f (unat (snapshot_digest_bytes i ! 0)))"
    using slot_ids_sorted [of x pid d root k "f k"] assms slot_of_nat [of k] by auto
qed (use byte_slot(1) in blast)

lemma content_id_digest:
  assumes "content_id b3 domain bs = Inr i"
  shows "object_digest_bytes i = b3 (domain @ bs)"
proof -
  have i: "i = object_id_from_digest_bytes (b3 (domain @ bs))" "length (encode_lower_hex (b3 (domain @ bs))) = 64"
    using assms by (auto simp: content_id_def object_id_parse_def object_id_from_digest_bytes_def
        res_bind_Inr_iff validate_lower_hex_id_def split: if_splits)
  then show ?thesis by simp
qed

text \<open>The hash assumptions for one transition: no collision, and no digest of zeros.\<close>

definition hash_sound :: "external \<Rightarrow> disk \<Rightarrow> disk \<Rightarrow> bool" where
  "hash_sound x d d' \<longleftrightarrow> no_collision x d d'
     \<and> (\<forall>bs \<in> ran (file_at d'). \<forall>domain \<in> set inventory_domains. blake3 x (domain @ bs) \<noteq> zeros)"

lemma counted_root_at:
  "load_counted_root x pid s d = (Inr root, d') \<Longrightarrow>
   set_root_at x pid d (state_set_root s) = Some root \<and> root_count root = state_count s \<and> d' = tick d"
  by (auto simp: load_counted_root_def st_bind_Inr_iff st_lift_Inr_iff split: if_splits dest!: load_set_root_sound)

lemma counted_leaf_at:
  "load_counted_leaf x pid r prefix d = (Inr leaf, d') \<Longrightarrow>
   set_leaf_at x pid prefix d (leaf_ref_id r) = Some leaf \<and> length (leaf_ids leaf) = unat (leaf_ref_count r)
   \<and> d' = tick d"
  by (auto simp: load_counted_leaf_def st_bind_Inr_iff st_lift_Inr_iff split: if_splits dest!: load_set_leaf_sound)

lemma mutate_setE:
  assumes "mutate_set x pid s operation i d = (Inr (rid, count), d')"
  obtains root leaf ids r d1 d2 where
    "set_root_at x pid d (state_set_root s) = Some root" "root_count root = state_count s"
    "slot_ids x pid d root (unat (snapshot_digest_bytes i ! 0)) = Some (leaf_ids leaf)"
    "leaf_project leaf = pid" "leaf_id_prefix leaf = snapshot_digest_bytes i ! 0"
    "mutate_ids operation i (leaf_ids leaf) = Inr ids" "mutate_count operation (state_count s) = Inr count"
    "store_leaf_ref x (leaf\<lparr>leaf_ids := ids\<rparr>) d1 = (Inr r, d2)" "file_at d1 = file_at d"
    "store_set_root x (root\<lparr>root_count := count,
       root_leaves := (root_leaves root)[unat (snapshot_digest_bytes i ! 0) := r]\<rparr>) d2 = (Inr rid, d')"
proof -
  let ?p = "snapshot_digest_bytes i ! 0"
  from assms obtain root leaf ids r d0 d1 d2 where
    a: "load_counted_root x pid s d = (Inr root, d0)"
    and l: "(case root_leaves root ! unat ?p of
         Some reference \<Rightarrow> load_counted_leaf x pid reference ?p
       | None \<Rightarrow> st_lift (Inr \<lparr>leaf_project = pid, leaf_id_prefix = ?p, leaf_ids = []\<rparr>)) d0 = (Inr leaf, d1)"
    and b: "mutate_ids operation i (leaf_ids leaf) = Inr ids" "mutate_count operation (state_count s) = Inr count"
    "store_leaf_ref x (leaf\<lparr>leaf_ids := ids\<rparr>) d1 = (Inr r, d2)"
    "store_set_root x (root\<lparr>root_count := count, root_leaves := (root_leaves root)[unat ?p := r]\<rparr>) d2 = (Inr rid, d')"
    unfolding mutate_set_def Let_def st_bind_Inr_iff st_lift_Inr_iff by auto
  note A = counted_root_at [OF a]
  have "slot_ids x pid d root (unat ?p) = Some (leaf_ids leaf) \<and> leaf_project leaf = pid
      \<and> leaf_id_prefix leaf = ?p \<and> file_at d1 = file_at d"
  proof (cases "root_leaves root ! unat ?p")
    case None
    with l A show ?thesis by (auto simp: st_lift_iff slot_ids_def)
  next
    case (Some ref)
    with l have "load_counted_leaf x pid ref ?p d0 = (Inr leaf, d1)" by simp
    note c = counted_leaf_at [OF this]
    have "set_leaf_at x pid ?p d0 (leaf_ref_id ref) = set_leaf_at x pid ?p d (leaf_ref_id ref)"
      using A by (intro set_leaves.same_file) simp
    with c have v: "set_leaf_at x pid ?p d (leaf_ref_id ref) = Some leaf" by simp
    show ?thesis using c A Some v set_leaf_at_valid [OF v] by (simp add: slot_ids_def byte_slot(2))
  qed
  with A b that show ?thesis by blast
qed

lemma store_leaf_ref_spec:
  assumes "store_leaf_ref x leaf d = (Inr r, d')" "set_leaf_typed leaf" "length (leaf_ids leaf) \<le> MAX_LEAF_IDS"
  obtains "leaf_ids leaf = []" "r = None" "d' = d"
  | j where "leaf_ids leaf \<noteq> []" "r = Some \<lparr>leaf_ref_id = j, leaf_ref_count = word_of_nat (length (leaf_ids leaf))\<rparr>"
    "set_leaf_at x (leaf_project leaf) (leaf_id_prefix leaf) d' j = Some leaf" "length (leaf_ids leaf) < 2 ^ 32"
  using assms store_set_leaf_at(1) [OF _ assms(2,3)]
  by (auto simp: store_leaf_ref_def st_bind_Inr_iff st_lift_iff split: if_splits)

lemma holds_slots_insert_remove:
  assumes "\<forall>k < 256. slot_ids x pid d root k = Some (f k)"
    and "set ids = apply_operation operation i (set (f (unat (snapshot_digest_bytes i ! 0))))"
    and "applicable operation i (set (f (unat (snapshot_digest_bytes i ! 0))))"
  defines "S \<equiv> \<Union>k < 256. set (f k)" and "f' \<equiv> f(unat (snapshot_digest_bytes i ! 0) := ids)"
  shows "(\<Union>k < 256. set (f' k)) = apply_operation operation i S" "applicable operation i S"
proof -
  let ?n = "unat (snapshot_digest_bytes i ! 0)"
  note m = slot_members [OF assms(1), folded S_def]
  from m [of i] assms(3) show "applicable operation i S"
    by (auto simp: applicable_def split: inventory_operation.splits)
  have "(\<Union>k < 256. set (f' k)) = set ids \<union> (\<Union>k \<in> {..<256} - {?n}. set (f k))"
    using byte_slot(1) [of "snapshot_digest_bytes i ! 0"] by (auto simp: f'_def split: if_splits)
  moreover have "S = set (f ?n) \<union> (\<Union>k \<in> {..<256} - {?n}. set (f k))"
    using byte_slot(1) [of "snapshot_digest_bytes i ! 0"] by (auto simp: S_def)
  moreover have "i \<notin> (\<Union>k \<in> {..<256} - {?n}. set (f k))"
  proof
    assume "i \<in> (\<Union>k \<in> {..<256} - {?n}. set (f k))"
    then obtain k where "k < 256" "k \<noteq> ?n" "i \<in> set (f k)" by auto
    with slot_ids_sorted [of x pid d root k "f k"] assms(1) slot_of_nat [of k] show False by auto
  qed
  ultimately show "(\<Union>k < 256. set (f' k)) = apply_operation operation i S"
    using assms(2) by (auto simp: apply_operation_def split: inventory_operation.splits)
qed

text \<open>At most this many snapshots share the first byte of \<open>i\<close>.\<close>

definition slot_room :: "snapshot_id \<Rightarrow> snapshot_id set \<Rightarrow> bool" where
  "slot_room i S \<longleftrightarrow>
     card {j \<in> S. snapshot_digest_bytes j ! 0 = snapshot_digest_bytes i ! 0} < MAX_LEAF_IDS"

lemma slot_ids_same:
  assumes "root_leaves root' ! k = root_leaves root ! k"
    and "\<And>j l. set_leaf_at x pid (word_of_nat k) d j = Some l \<Longrightarrow> set_leaf_at x pid (word_of_nat k) d' j = Some l"
    and "slot_ids x pid d root k = Some ids"
  shows "slot_ids x pid d' root' k = Some ids"
  using assms by (auto simp: slot_ids_def split: option.splits if_splits)

text \<open>The files of set roots and leaves stay.\<close>

definition sets_kept :: "disk \<Rightarrow> disk \<Rightarrow> bool" where
  "sets_kept d d' \<longleftrightarrow>
     (\<forall>p bs. file_at d p = Some bs \<longrightarrow> p \<in> range inventory_set_root_path \<union> range inventory_set_leaf_path
        \<longrightarrow> file_at d' p = Some bs)"

text \<open>The new set, seen from a later disk \<open>d''\<close> that kept the files of the sets.\<close>

lemma mutate_set_holds:
  assumes m: "mutate_set x pid s operation i d = (Inr (rid, count), d1)"
    and later: "evolves x d1 d'" "sets_kept d1 d'"
    and i: "snapshot_id_valid i" and holds: "holds_set x pid d s S"
    and hash: "hash_sound x d d'" and room: "slot_room i S"
  shows "applicable operation i S
    \<and> (\<exists>root. set_root_at x pid d' rid = Some root \<and> root_count root = count
         \<and> holds_slots x pid d' root (apply_operation operation i S))"
proof -
  let ?p = "snapshot_digest_bytes i ! 0" and ?n = "unat (snapshot_digest_bytes i ! 0)"
  from m obtain root leaf ids r d0 d2 where
    root: "set_root_at x pid d (state_set_root s) = Some root" "root_count root = state_count s"
    and slot: "slot_ids x pid d root ?n = Some (leaf_ids leaf)"
    and leaf: "leaf_project leaf = pid" "leaf_id_prefix leaf = ?p"
    and ids: "mutate_ids operation i (leaf_ids leaf) = Inr ids"
    and cnt: "mutate_count operation (state_count s) = Inr count"
    and sl: "store_leaf_ref x (leaf\<lparr>leaf_ids := ids\<rparr>) d0 = (Inr r, d2)"
    and sr: "store_set_root x (root\<lparr>root_count := count, root_leaves := (root_leaves root)[?n := r]\<rparr>) d2 = (Inr rid, d1)"
    by (rule mutate_setE)
  let ?root = "root\<lparr>root_count := count, root_leaves := (root_leaves root)[?n := r]\<rparr>"
  from holds root obtain f where f: "\<forall>k < 256. slot_ids x pid d root k = Some (f k)"
    "S = (\<Union>k < 256. set (f k))" "card S = unat (state_count s)"
    by (auto simp: holds_set_def holds_slots_def)
  have fn: "f ?n = leaf_ids leaf" using f(1) byte_slot(1) [of ?p] slot by auto
  note sorted = slot_ids_sorted [OF slot]
  note ids' = mutate_ids_result [OF conjunct1 [OF sorted] ids]
  have typed: "set_root_typed root" "root_project root = pid" using set_root_at_typed [OF root(1)] by auto
  then have pid: "project_id_valid pid" by (auto simp: set_root_typed_def)
  have ids_ok: "\<forall>j \<in> set ids. snapshot_id_valid j \<and> snapshot_digest_bytes j ! 0 = ?p"
    using ids'(2) sorted i by (auto simp: apply_operation_def byte_slot split: inventory_operation.splits)
  have few: "length ids \<le> MAX_LEAF_IDS"
  proof -
    have "{j \<in> S. snapshot_digest_bytes j ! 0 = ?p} = set (leaf_ids leaf)"
    proof (intro set_eqI iffI)
      fix j assume "j \<in> set (leaf_ids leaf)"
      then show "j \<in> {j \<in> S. snapshot_digest_bytes j ! 0 = ?p}"
        using sorted f(2) fn byte_slot [of ?p] by (auto intro!: bexI [of _ ?n])
    next
      fix j assume "j \<in> {j \<in> S. snapshot_digest_bytes j ! 0 = ?p}"
      then show "j \<in> set (leaf_ids leaf)" using slot_members [OF f(1), of j] f(2) fn by auto
    qed
    moreover have "distinct (leaf_ids leaf)" using sorted sorted_lt_distinct by blast
    ultimately show ?thesis using room ids'(3) by (simp add: slot_room_def distinct_card)
  qed
  have lt: "set_leaf_typed (leaf\<lparr>leaf_ids := ids\<rparr>)"
    using pid leaf ids_ok by (simp add: set_leaf_typed_def)
  have kept: "evolves x d d'" using mutate_set_evolves [OF m] later(1) evolves_trans by blast
  have root': "set_root_at x pid d' rid = Some ?root" if "set_root_typed ?root"
    using store_set_root_at(1) [OF sr that] typed later(2) by (auto simp: value_at_Some_iff sets_kept_def)
  have nc: "no_collision x d d'" using hash by (simp add: hash_sound_def)
  have "length (leaf_ids (leaf\<lparr>leaf_ids := ids\<rparr>)) \<le> MAX_LEAF_IDS" using few by simp
  from store_leaf_ref_spec [OF sl lt this]
  have new: "slot_ok r \<and> slot_ids x pid d' ?root ?n = Some ids \<and> set_root_typed ?root
      \<and> set_root_at x pid d' rid = Some ?root"
  proof cases
    case 1
    then have "slot_ok r" by (simp add: slot_ok_def)
    then have "set_root_typed ?root" using typed
      by (auto simp: set_root_typed_def dest!: set_update_subset_insert [THEN subsetD])
    moreover from this have "set_root_at x pid d' rid = Some ?root" by (rule root')
    moreover have "?n < length (root_leaves root)" using typed byte_slot(1) by (simp add: set_root_typed_def)
    ultimately show ?thesis using 1 by (simp add: slot_ok_def slot_ids_def)
  next
    case (2 j)
    then have at2: "set_leaf_at x pid ?p d2 j = Some (leaf\<lparr>leaf_ids := ids\<rparr>)" using leaf by simp
    have cw: "unat (word_of_nat (length ids) :: u32) = length ids"
      using 2(4) by (simp add: unat_of_nat take_bit_nat_eq_self)
    have fk: "file_at d2 (inventory_set_leaf_path j) = Some b \<Longrightarrow> file_at d' (inventory_set_leaf_path j) = Some b" for b
      using sr store_ok later(2) by (auto simp: stored_iff files_kept_def sets_kept_def)
    obtain bs where bs: "file_at d2 (inventory_set_leaf_path j) = Some bs" "set_leaf_id (blake3 x) bs = Inr j"
      using at2 by (auto simp: value_at_Some_iff check_set_leaf_iff)
    then have at': "file_at d' (inventory_set_leaf_path j) = Some bs" using fk by simp
    then have "object_digest_bytes j \<noteq> zeros"
      using hash content_id_digest [OF bs(2) [unfolded set_leaf_id_def]]
      by (auto simp: hash_sound_def inventory_domains_def ranI)
    moreover have "object_id_valid j" using bs(2) content_id_valid unfolding set_leaf_id_def by blast
    moreover have "0 < (word_of_nat (length ids) :: u32)" using cw 2(1) by (simp add: word_less_nat_alt)
    ultimately have ok: "slot_ok r" using 2(2) by (simp add: slot_ok_def)
    then have rt: "set_root_typed ?root" using typed
      by (auto simp: set_root_typed_def dest!: set_update_subset_insert [THEN subsetD])
    moreover from this have "set_root_at x pid d' rid = Some ?root" by (rule root')
    moreover have "set_leaf_at x pid ?p d' j = Some (leaf\<lparr>leaf_ids := ids\<rparr>)"
      using at2 bs at' by (simp add: value_at_def)
    moreover have "?n < length (root_leaves root)" using typed byte_slot(1) by (simp add: set_root_typed_def)
    ultimately show ?thesis using 2(2) ok cw by (simp add: slot_ids_def byte_slot(2))
  qed
  have slots: "\<forall>k < 256. slot_ids x pid d' ?root k = Some ((f(?n := ids)) k)"
  proof (intro allI impI)
    fix k :: nat assume "k < 256"
    show "slot_ids x pid d' ?root k = Some ((f(?n := ids)) k)"
    proof (cases "k = ?n")
      case False
      then show ?thesis using f(1) \<open>k < 256\<close> evolves_values(3) [OF kept nc]
        by (intro slot_ids_same [of ?root k root x pid d d']) auto
    qed (use new in simp)
  qed
  have app: "applicable operation i (set (f ?n))" "set ids = apply_operation operation i (set (f ?n))"
    using ids' fn by simp_all
  note hs = holds_slots_insert_remove [OF f(1) app(2,1), folded f(2)]
  have "finite S" using f(2) by simp
  then have "card (apply_operation operation i S) = unat count"
    using mutate_count_result [OF cnt] hs(2) f(3)
    by (auto simp: apply_operation_def applicable_def)
  with new slots hs show ?thesis unfolding holds_slots_def
    by (intro conjI exI [of _ ?root] exI [of _ "f(?n := ids)"]) simp_all
qed

end
