(* ===== verification/InventoryTransition.thy ===== *)
theory InventoryTransition
  imports InventorySet
begin

text \<open>
  Transitions of the inventory: whatever the file system does, the head names either the state it
  named before or the next one, each with the whole set it stands for.
\<close>

declare lit_simps [simp del]

section \<open>The head\<close>

definition head_at :: "external \<Rightarrow> project_id \<Rightarrow> disk \<Rightarrow> inventory_head \<Rightarrow> bool" where
  "head_at x pid d h \<longleftrightarrow>
     (\<exists>t. file_at d inventory_head_path = Some t \<and> length t \<le> HEAD_BYTES_MAX \<and> parse_head t = Inr (head_id h))
     \<and> state_at x pid d (head_id h) = Some h"

text \<open>The abstract inventory of a disk: its head and the set of snapshots it stands for.\<close>

definition inventory_holds ::
    "external \<Rightarrow> project_id \<Rightarrow> disk \<Rightarrow> inventory_head \<Rightarrow> snapshot_id set \<Rightarrow> bool" where
  "inventory_holds x pid d h S \<longleftrightarrow> head_at x pid d h \<and> holds_set x pid d (head_state h) S"

lemma head_at_unique: "head_at x pid d h \<Longrightarrow> head_at x pid d h' \<Longrightarrow> h = h'"
  unfolding head_at_def by (metis option.inject sum.inject(2))

lemma head_at_same_files: "file_at d' = file_at d \<Longrightarrow> head_at x pid d' h \<longleftrightarrow> head_at x pid d h"
  by (simp add: head_at_def value_at_def)

lemma head_of_iff:
  "inventory_head_of x pid d = (Inr h, d') \<longleftrightarrow>
     try_all (open_directory d) inventory_directories = Inr ()
     \<and> (\<exists>t d1 i. read_bytes_bounded inventory_head_path HEAD_BYTES_MAX d = (Inr t, d1) \<and> parse_head t = Inr i
          \<and> load_state x i pid d1 = (Inr h, d'))"
  by (auto simp: inventory_head_of_def inventory_head_anchored_def validate_inventory_directories_def
      st_bind_Inr_iff st_lift_Inr_iff)

lemma head_of_sound:
  assumes "inventory_head_of x pid d = (Inr h, d')"
  shows "head_at x pid d h"
proof -
  from assms obtain t d1 i where t: "read_bytes_bounded inventory_head_path HEAD_BYTES_MAX d = (Inr t, d1)"
    "parse_head t = Inr i" "load_state x i pid d1 = (Inr h, d')" by (auto simp: head_of_iff)
  then have "file_at d1 = file_at d" by (metis read_disk snd_conv tick_simps(4))
  with load_state_sound [OF t(3)] have s: "state_at x pid d i = Some h" by (simp add: value_at_def)
  then have "head_id h = i" by (auto simp: value_at_Some_iff check_state_iff)
  with s t(2) read_file [OF t(1)] show ?thesis by (auto simp: head_at_def)
qed

lemma head_of_moves:
  assumes "inventory_head_of x pid d = (r, d')"
  shows "file_at d' = file_at d"
proof -
  have rd: "file_at d1 = file_at d0" if "read_bytes_bounded p n d0 = (r', d1)" for p n d0 r' d1
    using that read_disk [of p n d0] by auto
  have ld: "file_at d1 = file_at d0" if "load_state x i pid d0 = (r', d1)" for i d0 r' d1
    using load_moves(1) [OF that] by simp
  have an: "file_at d1 = file_at d0" if "inventory_head_anchored x pid d0 = (r', d1)" for d0 r' d1
    using that unfolding inventory_head_anchored_def
    by (elim st_bindE) (auto simp: st_lift_iff dest!: rd ld)
  show ?thesis using assms unfolding inventory_head_of_def
    by (elim st_bindE) (auto simp: validate_inventory_directories_def an)
qed

lemma hex_ascii: "object_id_valid i \<Longrightarrow> \<forall>b \<in> set (object_as_str i). is_lower_hex_digit b"
  by (auto simp: object_id_valid_def object_id_parse_def res_bind_Inr_iff validate_lower_hex_id_iff is_lowercase_hex_def)

lemma parse_head_str:
  assumes "object_id_valid i"
  shows "parse_head (object_as_str i @ [0x0A]) = Inr i" "length (object_as_str i @ [0x0A]) = HEAD_BYTES_MAX"
proof -
  have p: "object_id_parse (object_as_str i) = Inr i"
    using assms by (auto simp: object_id_valid_def object_id_parse_def res_bind_Inr_iff object_id.expand)
  have h: "\<forall>b \<in> set (object_as_str i). (0x30 \<le> b \<and> b \<le> 0x39) \<or> (0x61 \<le> b \<and> b \<le> 0x66)"
    using hex_ascii [OF assms] by (auto simp: is_lower_hex_digit_iff)
  then have "0x0D \<notin> set (object_as_str i)" "0x0A \<notin> set (object_as_str i)"
    by (auto dest!: bspec)
  moreover have "utf8_valid (object_as_str i @ [0x0A])"
  proof (rule utf8_valid_ascii)
    show "\<forall>b \<in> set (object_as_str i @ [0x0A]). b < 0x80" using h by (auto dest!: bspec) unat_arith+
  qed
  moreover have st: "strip_suffix [0x0A] (object_as_str i @ [0x0A]) = Some (object_as_str i)"
    by (simp add: strip_suffix_Some_iff)
  ultimately show "parse_head (object_as_str i @ [0x0A]) = Inr i" using p
    unfolding parse_head_def st by (simp add: ok_or_def)
  show "length (object_as_str i @ [0x0A]) = HEAD_BYTES_MAX"
    using p by (auto simp: object_id_parse_def res_bind_Inr_iff validate_lower_hex_id_iff is_lowercase_hex_def HEAD_BYTES_MAX_def)
qed

section \<open>Transitions\<close>

lemma sets_kept_trans [trans]: "sets_kept d d' \<Longrightarrow> sets_kept d' d'' \<Longrightarrow> sets_kept d d''"
  unfolding sets_kept_def by blast

text \<open>A step that keeps the inventory: no file of it is lost, and neither are the head and the sets.\<close>

definition kept :: "external \<Rightarrow> disk \<Rightarrow> disk \<Rightarrow> bool" where
  "kept x d d' \<longleftrightarrow> evolves x d d' \<and> head_kept d d' \<and> sets_kept d d'"

lemma kept_trans [trans]: "kept x d d' \<Longrightarrow> kept x d' d'' \<Longrightarrow> kept x d d''"
  unfolding kept_def by (meson evolves_trans head_kept_trans sets_kept_trans)

lemma same_files_kept:
  "file_at d' = file_at d \<Longrightarrow> kept x d d'"
  by (simp add: kept_def evolves_def head_kept_def sets_kept_def)

lemma store_state_kept:
  assumes "store_state x s d = (r, d')"
  shows "kept x d d'"
proof -
  have st: "sets_kept a b" if "store_content_addressed_bytes (inventory_state_path i) bs a = (r', b)" for i bs a b r'
    using that by (cases rule: store_cases) (auto simp: sets_kept_def files_kept_def)
  have "sets_kept d d'" using assms unfolding store_state_def Let_def
    by (elim st_bindE) (auto simp: st_lift_iff sets_kept_def [of d d] dest: st)
  with store_state_evolves [OF assms] show ?thesis by (simp add: kept_def)
qed

text \<open>Publishing ends before the head is written, or it gets there.\<close>

lemma publish_cases:
  assumes "publish_state x pid expected state d = (r, d')"
  obtains (before) "kept x d d'" "\<And>s. r \<noteq> Inr s"
  | (written) cur sid d4 d5 w d6 where
      "store_state x state d = (Inr sid, d4)" "head_at x pid d4 cur" "head_id cur = expected"
      "file_at d5 = file_at d4" "write_head sid d5 = (w, d6)" "file_at d' = file_at d6"
      "\<And>s. r = Inr s \<Longrightarrow> w = Inr () \<and> s = object_as_str sid"
  using assms unfolding publish_state_def
proof (elim st_bindE)
  fix e
  assume s: "store_state x state d = (Inl e, d')" and r: "r = Inl e"
  show thesis by (rule before [OF store_state_kept [OF s]]) (simp add: r)
next
  fix sid d4 e
  assume s: "store_state x state d = (Inr sid, d4)" and h: "inventory_head_of x pid d4 = (Inl e, d')"
    and r: "r = Inl e"
  note kept_trans [OF store_state_kept [OF s] same_files_kept [OF head_of_moves [OF h]]]
  then show thesis by (rule before) (simp add: r)
next
  fix sid d4 cur d5
  assume s: "store_state x state d = (Inr sid, d4)" and c: "inventory_head_of x pid d4 = (Inr cur, d5)"
    and rest: "(if head_id cur \<noteq> expected then st_lift (Inl (WorkingTreeChanged (lit ''inventory/snapshots/head'')))
      else st_bind (write_head sid) (\<lambda>_. st_bind (inventory_head_of x pid) (\<lambda>current.
     st_lift (if head_id current \<noteq> sid
       then Inl (corrupt ''snapshot inventory head commit did not persist'')
       else Inr (object_as_str sid))))) d5 = (r, d')"
  note M = head_of_moves [OF c]
  show thesis
  proof (cases "head_id cur = expected")
    case False
    with rest have r: "d' = d5" "\<And>s. r \<noteq> Inr s" by (auto simp: st_lift_iff)
    show thesis using kept_trans [OF store_state_kept [OF s] same_files_kept [OF M]] r
      by (intro before) simp_all
  next
    case True
    with rest obtain w d6 where w: "write_head sid d5 = (w, d6)" "file_at d' = file_at d6"
      "\<And>s. r = Inr s \<Longrightarrow> w = Inr () \<and> s = object_as_str sid"
      by (auto simp: st_lift_iff elim!: st_bindE split: if_splits dest: head_of_moves)
    show thesis by (rule written [OF s head_of_sound [OF c] True M w])
  qed
qed

lemma commit_cases:
  assumes "commit_state x pid expected state d = (r, d')"
  obtains (before) "kept x d d'"
      "\<And>s. r = Inr s \<Longrightarrow> \<exists>h. head_at x pid d' h \<and> s = object_as_str (head_id h) \<and> head_state h = state"
  | (written) cur sid d3 d4 d5 w d6 where
      "head_at x pid d cur" "head_id cur = expected" "file_at d3 = file_at d"
      "store_state x state d3 = (Inr sid, d4)" "file_at d5 = file_at d4"
      "write_head sid d5 = (w, d6)" "file_at d' = file_at d6"
      "\<And>s. r = Inr s \<Longrightarrow> w = Inr () \<and> s = object_as_str sid"
  using assms unfolding commit_state_def
proof (elim st_bindE)
  fix e
  assume "st_lift (state_id (blake3 x) (encode_state state)) d = (Inl e, d')" "r = Inl e"
  then have "d' = d" "r = Inl e" by (simp_all add: st_lift_iff)
  then show thesis by (intro before) (simp_all add: same_files_kept)
next
  fix i d0 e
  assume i: "st_lift (state_id (blake3 x) (encode_state state)) d = (Inr i, d0)"
    and c: "inventory_head_of x pid d0 = (Inl e, d')" and r: "r = Inl e"
  have "file_at d' = file_at d" using head_of_moves [OF c] i by (simp add: st_lift_iff)
  then show thesis by (intro before) (simp_all add: same_files_kept r)
next
  fix i d0 cur d2
  assume i: "st_lift (state_id (blake3 x) (encode_state state)) d = (Inr i, d0)"
    and c: "inventory_head_of x pid d0 = (Inr cur, d2)"
    and rest: "(if head_id cur = i then st_lift (if head_state cur \<noteq> state
         then Inl (corrupt ''snapshot inventory replay state does not match its operation'')
         else Inr (object_as_str i))
       else if head_id cur \<noteq> expected then st_lift (Inl (WorkingTreeChanged (lit ''inventory/snapshots/head'')))
       else publish_state x pid expected state) d2 = (r, d')"
  have M: "file_at d2 = file_at d" and H: "head_at x pid d cur"
    using i head_of_moves [OF c] head_of_sound [OF c] by (simp_all add: st_lift_iff)
  show thesis
  proof (cases "head_id cur = i \<or> head_id cur \<noteq> expected")
    case True
    with rest have r: "d' = d2" "\<And>s. r = Inr s \<Longrightarrow> s = object_as_str (head_id cur) \<and> head_state cur = state"
      by (auto simp: st_lift_iff split: if_splits)
    have H': "head_at x pid d' cur" using H head_at_same_files [OF M] r(1) by simp
    show thesis
      by (rule before) (use r same_files_kept [OF M] H' in \<open>auto\<close>)
  next
    case False
    have p: "publish_state x pid expected state d2 = (r, d')" using rest False by (auto split: if_splits)
    show thesis
    proof (rule publish_cases [OF p])
      assume k: "kept x d2 d'" and r: "\<And>s. r \<noteq> Inr s"
      show thesis by (rule before [OF kept_trans [OF same_files_kept [OF M] k]]) (simp add: r)
    next
      fix cur' sid d4 d5 w d6
      assume w: "store_state x state d2 = (Inr sid, d4)" "head_at x pid d4 cur'" "head_id cur' = expected"
        "file_at d5 = file_at d4" "write_head sid d5 = (w, d6)" "file_at d' = file_at d6"
        "\<And>s. r = Inr s \<Longrightarrow> w = Inr () \<and> s = object_as_str sid"
      show thesis using False by (intro written [OF H _ M w(1,4,5,6,7)]) simp
    qed
  qed
qed

lemma value_at_same_files:
  "file_at d' = file_at d \<Longrightarrow> value_at path_of bound check d' = value_at path_of bound check d"
  by (simp add: value_at_def fun_eq_iff)

lemma holds_same_files:
  assumes "file_at d' = file_at d"
  shows "holds_set x pid d' s S \<longleftrightarrow> holds_set x pid d s S"
  unfolding holds_set_def holds_slots_def slot_ids_def value_at_same_files [OF assms] ..

lemma inventory_holds_same_files:
  assumes "file_at d' = file_at d"
  shows "inventory_holds x pid d' h S \<longleftrightarrow> inventory_holds x pid d h S"
  unfolding inventory_holds_def holds_same_files [OF assms] head_at_same_files [OF assms] ..

lemma holds_set_evolves:
  assumes "holds_set x pid d s S" "evolves x d d'" "no_collision x d d'"
  shows "holds_set x pid d' s S"
proof -
  from assms(1) obtain root f where r: "set_root_at x pid d (state_set_root s) = Some root"
    "root_count root = state_count s" "\<forall>k < 256. slot_ids x pid d root k = Some (f k)"
    "S = (\<Union>k < 256. set (f k))" "card S = unat (root_count root)"
    unfolding holds_set_def holds_slots_def by blast
  have "slot_ids x pid d' root k = Some (f k)" if "k < 256" for k
    using r(3) that evolves_values(3) [OF assms(2,3)] by (intro slot_ids_same [of root k root x pid d d']) auto
  with r evolves_values(2) [OF assms(2,3) r(1)] show ?thesis
    unfolding holds_set_def holds_slots_def by blast
qed

lemma head_at_evolves:
  assumes "head_at x pid d h" "evolves x d d'" "head_kept d d'" "no_collision x d d'"
  shows "head_at x pid d' h"
  using assms evolves_values(1) [OF assms(2,4)] by (auto simp: head_at_def head_kept_def)

lemma inventory_holds_evolves:
  assumes "inventory_holds x pid d h S" "evolves x d d'" "head_kept d d'" "no_collision x d d'"
  shows "inventory_holds x pid d' h S"
  using assms head_at_evolves holds_set_evolves unfolding inventory_holds_def by blast

text \<open>A transition fails early, with the inventory it found, or comes to the commit.\<close>

lemma transition_cases:
  assumes "transition_inventory x pid operation i e operation_id d = (r, d')"
  obtains (early) "evolves x d d'" "head_kept d d'" "\<And>s. r \<noteq> Inr s"
  | (commit) expected d0 rid count d1 g where
      "state_at x pid d (head_id expected) = Some expected" "object_as_str (head_id expected) = e"
      "file_at d0 = file_at d" "mutate_set x pid (head_state expected) operation i d0 = (Inr (rid, count), d1)"
      "unat g = unat (state_generation (head_state expected)) + 1"
      "commit_state x pid (head_id expected)
         (next_state x pid operation i operation_id (head_id expected) g (rid, count)) d1 = (r, d')"
proof (cases "operation_id = []")
  case True
  with assms have "d' = d" "\<And>s. r \<noteq> Inr s" by (auto simp: transition_inventory_def st_lift_iff)
  then show thesis by (intro early) simp_all
next
  case False
  note assms [unfolded transition_inventory_def if_not_P [OF False]]
  then show thesis
proof (elim st_bindE)
  fix eid d00 expected d0 rc d1 g d2
  assume p: "st_lift (res_map_err (\<lambda>_. corrupt ''snapshot inventory expected head id is invalid'')
          (object_id_parse e)) d = (Inr eid, d00)"
    and l: "load_state x eid pid d00 = (Inr expected, d0)"
    and m: "mutate_set x pid (head_state expected) operation i d0 = (Inr rc, d1)"
    and g: "st_lift (ok_or (corrupt ''snapshot inventory generation overflow'')
          (checked_add (state_generation (head_state expected)) 1)) d1 = (Inr g, d2)"
    and c: "commit_state x pid (head_id expected)
        (next_state x pid operation i operation_id (head_id expected) g rc) d2 = (r, d')"
  obtain rid count where rc: "rc = (rid, count)" by (cases rc)
  have d: "d00 = d" "d2 = d1" "d0 = tick d" and eid: "object_id_parse e = Inr eid"
    using p g load_moves(1) [OF l] by (auto simp: st_lift_iff res_map_err_def split: sum.splits)
  have s: "state_at x pid d eid = Some expected" using load_state_sound [OF l] d by simp
  then have h: "head_id expected = eid" by (auto simp: value_at_Some_iff check_state_iff)
  have gg: "unat g = unat (state_generation (head_state expected)) + 1"
    using g checked_add_Some_iff [of "state_generation (head_state expected)" 1 g]
    by (auto simp: st_lift_iff eq_commute [of "Inr _"] ok_or_Inr_iff)
  have "object_as_str eid = e" using eid by (auto simp: object_id_parse_def res_bind_Inr_iff)
  then show thesis using commit [OF _ _ _ m [unfolded rc] gg c [unfolded rc d]] s h d by simp
qed (auto simp: st_lift_iff dest!: load_moves(1) mutate_set_evolves intro: early)
qed

text \<open>The state a transition commits, with what makes it one that can be read back.\<close>

lemma next_state_ok:
  assumes "operation \<noteq> Initialize" "snapshot_id_valid i" "project_id_valid pid" "object_id_valid expected"
    "object_id_valid rid" "0 < unat g" "operation = Add \<Longrightarrow> 0 < unat count"
    "hash_length x" "inventory_operation_id (blake3 x) operation_id \<noteq> zeros"
  shows "state_typed (next_state x pid operation i operation_id expected g (rid, count))
    \<and> valid_shape (next_state x pid operation i operation_id expected g (rid, count))"
  using assms
  by (cases operation)
    (auto simp: state_typed_def valid_shape_def next_state_def option_valid_def hash_length_def
      inventory_operation_id_def word_greater_zero_iff)

text \<open>The inventory after a transition that replaced the head.\<close>

lemma transition_written:
  assumes at: "state_at x pid d (head_id expected) = Some expected"
    and holds: "inventory_holds x pid d expected S"
    and m: "mutate_set x pid (head_state expected) operation i d = (Inr (rid, count), d1)"
    and g: "unat g = unat (state_generation (head_state expected)) + 1"
    and store: "store_state x (next_state x pid operation i operation_id (head_id expected) g (rid, count)) d3
      = (Inr sid, d4)" "file_at d3 = file_at d1"
    and written: "file_at d6 inventory_head_path = Some (object_as_str sid @ [0x0A])"
      "files_kept d5 d6 inventory_head_path" "file_at d5 = file_at d4" "file_at d' = file_at d6"
    and hash: "hash_length x" "hash_sound x d d'" "inventory_operation_id (blake3 x) operation_id \<noteq> zeros"
    and i: "snapshot_id_valid i" "slot_room i S"
  defines "s \<equiv> next_state x pid operation i operation_id (head_id expected) g (rid, count)"
  shows "applicable operation i S"
    "inventory_holds x pid d' \<lparr>head_id = sid, head_state = s\<rparr> (apply_operation operation i S)"
proof -
  have keep: "file_at d' p = Some bs" if "file_at d4 p = Some bs" "p \<noteq> inventory_head_path" for p bs
    using that written by (auto simp: files_kept_def)
  have "kept x d1 d4" using kept_trans [OF same_files_kept [OF store(2)] store_state_kept [OF store(1)]] .
  then have later: "evolves x d1 d'" "sets_kept d1 d'"
    using keep by (fastforce simp: kept_def evolves_def, force simp: kept_def sets_kept_def)
  have hs: "holds_set x pid d (head_state expected) S" using holds by (simp add: inventory_holds_def)
  note M = mutate_set_holds [OF m later i(1) hs hash(2) i(2)]
  then show app: "applicable operation i S" by simp
  from M obtain root where root: "set_root_at x pid d' rid = Some root" "root_count root = count"
    "holds_slots x pid d' root (apply_operation operation i S)" by blast
  have "card (apply_operation operation i S) = unat count" "finite (apply_operation operation i S)"
    using root(2,3) by (auto simp: holds_slots_def)
  then have "operation = Add \<Longrightarrow> 0 < unat count" by (metis apply_operation_def card_gt_0_iff empty_iff insertI1 inventory_operation.simps(8))
  moreover have "operation \<noteq> Initialize" using app by (auto simp: applicable_def)
  moreover have "object_id_valid rid" "object_id_valid (head_id expected)"
    using root(1) at content_id_valid
    by (auto simp: value_at_Some_iff check_state_iff check_set_root_iff state_id_def set_root_id_def)
  moreover have "project_id_valid pid" using at by (auto simp: value_at_Some_iff check_state_iff state_typed_def)
  ultimately have ok: "state_typed s \<and> valid_shape s"
    using next_state_ok g hash(1,3) i(1) unfolding s_def by simp
  have p: "state_project s = pid" "state_set_root s = rid" "state_count s = count"
    by (simp_all add: s_def next_state_def)
  note st = store_state_at [OF store(1) [folded s_def] conjunct1 [OF ok] conjunct2 [OF ok], unfolded p]
  have "object_id_valid sid" using st(3) content_id_valid unfolding state_id_def by blast
  note ph = parse_head_str [OF this]
  have "state_at x pid d' sid = Some \<lparr>head_id = sid, head_state = s\<rparr>"
    using st(1) keep by (auto simp: value_at_Some_iff)
  then show "inventory_holds x pid d' \<lparr>head_id = sid, head_state = s\<rparr> (apply_operation operation i S)"
    using ph written root p by (auto simp: inventory_holds_def head_at_def holds_set_def)
qed

lemma head_of_kept:
  assumes "head_kept d d'" "head_at x pid d h" "head_at x pid d' cur"
  shows "head_id cur = head_id h"
  using assms unfolding head_at_def head_kept_def by (metis option.inject sum.inject(2))

definition made_by :: "inventory_operation \<Rightarrow> snapshot_id \<Rightarrow> str \<Rightarrow> inventory_state \<Rightarrow> bool" where
  "made_by operation i e s \<longleftrightarrow> state_operation s = operation \<and> state_snapshot s = Some i
     \<and> map_option object_as_str (state_parent s) = Some e"

text \<open>When the head was replaced, the expected head was the current one.\<close>

lemma commit_written:
  assumes holds: "inventory_holds x pid d h S"
    and commit: "state_at x pid d (head_id expected) = Some expected" "file_at d0 = file_at d"
      "mutate_set x pid (head_state expected) operation i d0 = (Inr (rid, count), d1)"
      "unat g = unat (state_generation (head_state expected)) + 1"
    and written: "head_at x pid d1 cur" "head_id cur = head_id expected" "file_at d3 = file_at d1"
      "store_state x (next_state x pid operation i operation_id (head_id expected) g (rid, count)) d3 = (Inr sid, d4)"
      "file_at d5 = file_at d4" "file_at d' = file_at d6"
      "file_at d6 inventory_head_path = Some (object_as_str sid @ [0x0A])" "files_kept d5 d6 inventory_head_path"
    and hash: "hash_length x" "hash_sound x d d'" "inventory_operation_id (blake3 x) operation_id \<noteq> zeros"
    and i: "snapshot_id_valid i" "slot_room i S"
  shows "h = expected" "applicable operation i S"
    "inventory_holds x pid d' \<lparr>head_id = sid, head_state = next_state x pid operation i operation_id (head_id expected) g (rid, count)\<rparr>
       (apply_operation operation i S)"
proof -
  have kept: "head_kept d d1" using mutate_set_evolves [OF commit(3)] commit(2) by (simp add: head_kept_def)
  have at: "head_at x pid d h" using holds by (simp add: inventory_holds_def)
  have "head_id h = head_id expected" using head_of_kept [OF kept at written(1)] written(2) by simp
  moreover have "state_at x pid d (head_id h) = Some h" using at by (simp only: head_at_def)
  ultimately have "Some h = Some expected" using commit(1) by (simp only:)
  then show same: "h = expected" by simp
  have h0: "inventory_holds x pid d0 expected S"
    using holds same inventory_holds_same_files [OF commit(2)] by blast
  have s0: "hash_sound x d0 d'" using hash(2) commit(2) unfolding hash_sound_def no_collision_def by simp
  have a0: "state_at x pid d0 (head_id expected) = Some expected"
    using commit(1) value_at_same_files [OF commit(2)] by metis
  note W = transition_written [OF a0 h0 commit(3,4) written(4,3,7,8,5,6) hash(1) s0 hash(3) i]
  show "applicable operation i S" by (rule W(1))
  show "inventory_holds x pid d' \<lparr>head_id = sid, head_state = next_state x pid operation i operation_id (head_id expected) g (rid, count)\<rparr>
       (apply_operation operation i S)" by (rule W(2))
qed

text \<open>C19: a transition is atomic. Whatever faults the disk has, and wherever they strike, the
  head afterwards names either the state it named before, with the same set of snapshots, or the
  next one, whose set is the old one with the operation applied; the generation grows by one, and
  a success is reported only with the id of a head that the operation made. The hash assumptions
  are that no two files of the two disks collide and that no digest is zero; the leaf must have
  room, since the code stores leaves it could not read back (\<open>MAX_LEAF_IDS\<close>).\<close>

theorem transition_atomic:
  assumes t: "transition_inventory x pid operation i e operation_id d = (r, d')"
    and holds: "inventory_holds x pid d h S"
    and hash: "hash_length x" "hash_sound x d d'" "inventory_operation_id (blake3 x) operation_id \<noteq> zeros"
    and i: "snapshot_id_valid i" "slot_room i S"
  shows "\<exists>h' S'. inventory_holds x pid d' h' S'
     \<and> (h' = h \<and> S' = S
        \<or> e = object_as_str (head_id h) \<and> applicable operation i S \<and> S' = apply_operation operation i S
          \<and> unat (state_generation (head_state h')) = unat (state_generation (head_state h)) + 1
          \<and> made_by operation i e (head_state h'))
     \<and> (\<forall>s. r = Inr s \<longrightarrow> s = object_as_str (head_id h') \<and> made_by operation i e (head_state h'))"
proof -
  have nc: "no_collision x d d'" using hash(2) by (simp add: hash_sound_def)
  from t show ?thesis
  proof (cases rule: transition_cases)
    case early
    then show ?thesis using inventory_holds_evolves [OF holds early(1,2) nc] by blast
  next
    case (commit expected d0 rid count d1 g)
    let ?s = "next_state x pid operation i operation_id (head_id expected) g (rid, count)"
    have made: "made_by operation i e ?s" using commit(2) by (simp add: made_by_def next_state_def)
    have M: "evolves x d d1" "head_kept d d1"
      using mutate_set_evolves [OF commit(4)] commit(3) by (auto simp: evolves_def head_kept_def)
    have same: "inventory_holds x pid d' h S" if "kept x d1 d'"
    proof (rule inventory_holds_evolves [OF holds _ _ nc])
      show "evolves x d d'" using M(1) that evolves_trans unfolding kept_def by blast
      show "head_kept d d'" using M(2) that head_kept_trans unfolding kept_def by blast
    qed
    from commit(6) show ?thesis
    proof (cases rule: commit_cases)
      case before
      then have H: "inventory_holds x pid d' h S" by (intro same) simp
      have "s = object_as_str (head_id h) \<and> made_by operation i e (head_state h)" if "r = Inr s" for s
      proof -
        from before(2) [OF that] obtain h1 where h1: "head_at x pid d' h1" "s = object_as_str (head_id h1)"
          "head_state h1 = ?s" by blast
        have "h1 = h" using head_at_unique [OF h1(1)] H by (simp add: inventory_holds_def)
        with h1 made show ?thesis by simp
      qed
      with H show ?thesis by blast
    next
      case (written cur sid d3 d4 d5 w d6)
      have S3: "kept x d1 d4" "kept x d1 d5"
        using kept_trans [OF same_files_kept [OF written(3)] store_state_kept [OF written(4)]]
          kept_trans same_files_kept [OF written(5)] by blast+
      from written(6) [unfolded write_head_def] show ?thesis
      proof (cases rule: write_cases)
        case (unchanged err)
        then have "kept x d1 d'" using S3(2) kept_trans same_files_kept [of d' d5] written(7) by auto
        then have "inventory_holds x pid d' h S" by (rule same)
        moreover have "r \<noteq> Inr s" for s using written(8) unchanged by auto
        ultimately show ?thesis by blast
      next
        case wr: written
        note W = commit_written [OF holds commit(1,3,4,5) written(1,2,3,4,5,7) wr hash i]
        have "unat (state_generation ?s) = unat (state_generation (head_state h)) + 1"
          using commit(5) W(1) by (simp add: next_state_def)
        then show ?thesis using W made written(8) commit(2)
          by (intro exI [of _ "\<lparr>head_id = sid, head_state = ?s\<rparr>"] exI [of _ "apply_operation operation i S"]) auto
      qed
    qed
  qed
qed

end
