(* ===== verification/InventoryProgress.thy ===== *)
theory InventoryProgress
  imports InventoryTransition
begin

text \<open>
  Transitions that succeed: on a disk the inventory can be written to and without a fault, an
  operation that applies is made.
\<close>

section \<open>Disks on which the inventory can be written\<close>

lemma write_nodes:
  assumes "write_bytes_atomic p bs d = (r, d')"
  shows "d' = tick d \<or>
    (node_at d p = None \<or> (\<exists>b. node_at d p = Some (RegularFile b)))
    \<and> (\<forall>q. node_at d' q = (if q = p then Some (RegularFile bs)
        else if node_at d q = None \<and> q \<in> set (parents p) then Some Directory else node_at d q))"
proof (cases "d' = tick d")
  case False
  with assms obtain nodes where n: "make_directories (parents p) (disk_nodes d) = Inr nodes"
    "map_of nodes p = None \<or> (\<exists>b. map_of nodes p = Some (RegularFile b))"
    "disk_nodes d' = AList.update p (RegularFile bs) nodes"
    by (auto simp: write_bytes_atomic_def split: if_splits sum.splits option.splits node.splits)
  then show ?thesis using map_of_make_directories [OF n(1)] not_own_parent [of p]
    by (auto simp: node_at_def update_conv split: if_splits)
qed simp

lemma write_keeps:
  assumes "write_bytes_atomic p bs d = (r, d')"
  shows "node_at d q = Some Directory \<Longrightarrow> node_at d' q = Some Directory"
    and "writable d q \<Longrightarrow> p \<notin> set (parents q) \<Longrightarrow> q \<notin> set (parents p) \<Longrightarrow> writable d' q"
proof -
  show "node_at d q = Some Directory \<Longrightarrow> node_at d' q = Some Directory"
    using write_nodes [OF assms] by auto
  assume w: "writable d q" "p \<notin> set (parents q)" "q \<notin> set (parents p)"
  show "writable d' q"
  proof (cases "d' = tick d")
    case False
    with write_nodes [OF assms] have n: "node_at d' r = (if r = p then Some (RegularFile bs)
        else if node_at d r = None \<and> r \<in> set (parents p) then Some Directory else node_at d r)" for r by blast
    have "node_at d' r \<in> {None, Some Directory}" if "r \<in> set (parents q)" for r
      using w that unfolding writable_def n by (metis insert_iff)
    moreover have "node_at d' q = Some (RegularFile bs) \<or> node_at d' q = node_at d q" using w(3) by (simp add: n)
    ultimately show ?thesis using w(1) by (auto simp: writable_def)
  qed (use w in simp)
qed

definition inventory_paths :: "path set" where
  "inventory_paths = insert inventory_head_path
     (range inventory_state_path \<union> range inventory_set_root_path \<union> range inventory_set_leaf_path)"

definition inventory_ready :: "disk \<Rightarrow> bool" where
  "inventory_ready d \<longleftrightarrow> faultless d \<and> (\<forall>p \<in> inventory_paths. writable d p)
     \<and> try_all (open_directory d) inventory_directories = Inr ()"

lemma ready_tick [simp]: "inventory_ready d \<Longrightarrow> inventory_ready (tick d)"
  by (simp add: inventory_ready_def)

lemma inventory_path_length:
  "p \<in> inventory_paths \<Longrightarrow>
   3 \<le> length p \<and> length p = (if p ! 2 = lit ''head'' then 3 else if p ! 2 = lit ''states'' then 5 else 6)"
  by (auto simp: inventory_paths_def inventory_head_path_def inventory_state_path_def inventory_set_root_path_def
    inventory_set_leaf_path_def inventory_root_def lit_def)

lemma inventory_paths_apart:
  assumes "p \<in> inventory_paths" "q \<in> inventory_paths"
  shows "p \<notin> set (parents q)"
proof
  assume "p \<in> set (parents q)"
  then obtain n where n: "n < length q" "p = take n q" by (auto simp: parents_def)
  note L = inventory_path_length [OF assms(1)] inventory_path_length [OF assms(2)]
  have "p ! 2 = q ! 2" using n L(1) by simp
  then have "length p = length q" using L by metis
  then show False using n by simp
qed

lemma ready_write:
  assumes "inventory_ready d" "p \<in> inventory_paths"
  obtains d' where "write_bytes_atomic p bs d = (Inr (), d')" "inventory_ready d'"
proof -
  have r: "faultless d" "\<And>q. q \<in> inventory_paths \<Longrightarrow> writable d q"
    "try_all (open_directory d) inventory_directories = Inr ()" using assms(1) by (auto simp: inventory_ready_def)
  obtain d' where w: "write_bytes_atomic p bs d = (Inr (), d')" "faultless d'"
    using write_faultless [OF r(1) r(2) [OF assms(2)]] by blast
  have "writable d' q" if "q \<in> inventory_paths" for q
    using write_keeps(2) [OF w(1) r(2) [OF that]] inventory_paths_apart that assms(2) by blast
  moreover have "open_directory d q = Inr u \<Longrightarrow> open_directory d' q = Inr u" for q u
    using write_keeps(1) [OF w(1)]
    by (auto simp: open_directory_def res_bind_Inr_iff open_parents_iff open_directory_component_iff)
  then have "try_all (open_directory d') inventory_directories = Inr ()"
    using r(3) by (simp add: try_all_Inr_iff)
  ultimately show thesis using that w by (simp add: inventory_ready_def)
qed

lemma ready_store:
  assumes "inventory_ready d" "p \<in> inventory_paths"
  obtains d' where "store_content_addressed_bytes p bs d = (Inr (), d')" "inventory_ready d'"
proof (cases "open_file d p = Inr bs")
  case True
  with assms(1) show ?thesis
    by (intro that [of "tick d"]) (simp_all add: store_content_addressed_bytes_def inventory_ready_def)
next
  case False
  obtain d' where "write_bytes_atomic p bs d = (Inr (), d')" "inventory_ready d'"
    by (rule ready_write [OF assms])
  with False assms(1) show ?thesis
    by (intro that [of d']) (simp_all add: store_content_addressed_bytes_def inventory_ready_def)
qed

lemma inventory_paths_simps [simp]:
  "inventory_head_path \<in> inventory_paths" "inventory_state_path i \<in> inventory_paths"
  "inventory_set_root_path i \<in> inventory_paths" "inventory_set_leaf_path i \<in> inventory_paths"
  by (auto simp: inventory_paths_def)

lemma content_id_ok:
  assumes "hash_length x"
  obtains i where "content_id (blake3 x) domain bs = Inr i"
proof -
  have "is_lowercase_hex (encode_lower_hex (blake3 x (domain @ bs))) (2 * 32)"
    using assms is_lowercase_hex_iff [of _ 32] by (auto simp: hash_length_def)
  then have "validate_lower_hex_id (encode_lower_hex (blake3 x (domain @ bs))) (lit ''object'') = Inr ()"
    by (simp add: validate_lower_hex_id_iff)
  then show thesis by (intro that) (simp add: content_id_def object_id_parse_def)
qed

lemma ready_stores:
  assumes "inventory_ready d" "hash_length x"
  shows "\<exists>i d'. store_state x s d = (Inr i, d') \<and> inventory_ready d'"
    and "encode_set_root r = Inr rbs \<Longrightarrow> \<exists>i d'. store_set_root x r d = (Inr i, d') \<and> inventory_ready d'"
    and "encode_set_leaf l = Inr lbs \<Longrightarrow> \<exists>i d'. store_set_leaf x l d = (Inr i, d') \<and> inventory_ready d'"
proof -
  obtain i where i: "state_id (blake3 x) (encode_state s) = Inr i"
    unfolding state_id_def by (rule content_id_ok [OF assms(2)])
  obtain d' where "store_content_addressed_bytes (inventory_state_path i) (encode_state s) d = (Inr (), d')"
    "inventory_ready d'" by (rule ready_store [OF assms(1) inventory_paths_simps(2)])
  with i show "\<exists>i d'. store_state x s d = (Inr i, d') \<and> inventory_ready d'" by (auto simp: stored_iff)
next
  assume e: "encode_set_root r = Inr rbs"
  obtain i where i: "set_root_id (blake3 x) rbs = Inr i"
    unfolding set_root_id_def by (rule content_id_ok [OF assms(2)])
  obtain d' where "store_content_addressed_bytes (inventory_set_root_path i) rbs d = (Inr (), d')"
    "inventory_ready d'" by (rule ready_store [OF assms(1) inventory_paths_simps(3)])
  with i e show "\<exists>i d'. store_set_root x r d = (Inr i, d') \<and> inventory_ready d'" by (auto simp: stored_iff)
next
  assume e: "encode_set_leaf l = Inr lbs"
  obtain i where i: "set_leaf_id (blake3 x) lbs = Inr i"
    unfolding set_leaf_id_def by (rule content_id_ok [OF assms(2)])
  obtain d' where "store_content_addressed_bytes (inventory_set_leaf_path i) lbs d = (Inr (), d')"
    "inventory_ready d'" by (rule ready_store [OF assms(1) inventory_paths_simps(4)])
  with i e show "\<exists>i d'. store_set_leaf x l d = (Inr i, d') \<and> inventory_ready d'" by (auto simp: stored_iff)
qed

section \<open>Transitions that succeed\<close>

lemma value_at_tick [simp]: "value_at path_of bound check (tick d) = value_at path_of bound check d"
  by (simp add: value_at_def fun_eq_iff)

lemma slot_ids_tick [simp]: "slot_ids x pid (tick d) = slot_ids x pid d"
  unfolding slot_ids_def value_at_tick ..

lemma counted_complete:
  assumes "faultless d"
  shows "set_root_at x pid d (state_set_root s) = Some root \<Longrightarrow> root_count root = state_count s \<Longrightarrow>
      load_counted_root x pid s d = (Inr root, tick d)"
    and "set_leaf_at x pid prefix d (leaf_ref_id r) = Some leaf \<Longrightarrow>
      length (leaf_ids leaf) = unat (leaf_ref_count r) \<Longrightarrow>
      load_counted_leaf x pid r prefix d = (Inr leaf, tick d)"
  using assms
  by (simp_all add: load_counted_root_def load_counted_leaf_def st_bind_Inr_iff st_lift_Inr_iff
      load_set_root_complete load_set_leaf_complete)

lemma head_of_complete:
  assumes "inventory_ready d" "head_at x pid d h"
  obtains d' where "inventory_head_of x pid d = (Inr h, d')" "inventory_ready d'" "file_at d' = file_at d"
proof -
  obtain t where t: "file_at d inventory_head_path = Some t" "length t \<le> HEAD_BYTES_MAX" "parse_head t = Inr (head_id h)"
    and s: "state_at x pid d (head_id h) = Some h" using assms(2) by (auto simp: head_at_def)
  have f: "faultless d" using assms(1) by (simp add: inventory_ready_def)
  have "state_at x pid (tick d) (head_id h) = Some h" using s by simp
  then have l: "load_state x (head_id h) pid (tick d) = (Inr h, tick (tick d))"
    using load_state_complete f by simp
  have "inventory_head_of x pid d = (Inr h, tick (tick d))"
    unfolding head_of_iff using assms(1) read_faultless [OF f t(1,2)] t(3) l by (auto simp: inventory_ready_def)
  then show thesis by (rule that) (use assms(1) in simp_all)
qed

lemma mutate_count_ok:
  assumes "applicable operation i S" "card S = unat (c :: u64)" "finite S" "operation = Add \<longrightarrow> card S + 1 < 2 ^ 64"
  obtains c' where "mutate_count operation c = Inr c'"
proof (cases operation)
  case Add
  then obtain c' where "checked_add c 1 = Some c'"
    using assms(2,4) by (auto simp: checked_add_def)
  with Add show ?thesis by (intro that) (simp add: mutate_count_def)
next
  case Remove
  then have "0 < card S" using assms(1,3) by (auto simp: applicable_def card_gt_0_iff)
  then obtain c' where "checked_sub c 1 = Some c'"
    using assms(2) by (auto simp: checked_sub_def word_le_nat_alt)
  with Remove show ?thesis by (intro that) (simp add: mutate_count_def)
next
  case Initialize
  with assms(1) show ?thesis by (simp add: applicable_def)
qed

lemma max_leaf_ids_word: "MAX_LEAF_IDS < 2 ^ 32"
  by (simp add: MAX_LEAF_IDS_def MAX_LEAF_BYTES_def LEAF_HEADER_BYTES_def)

text \<open>The set of a slot is what its leaf holds.\<close>

lemma slot_set:
  assumes "\<forall>k < 256. slot_ids x pid d root k = Some (f k)" "S = (\<Union>k < 256. set (f k))"
  shows "{j \<in> S. snapshot_digest_bytes j ! 0 = p} = set (f (unat p))"
proof (intro set_eqI iffI)
  fix j assume "j \<in> set (f (unat p))"
  moreover have "slot_ids x pid d root (unat p) = Some (f (unat p))" using assms(1) byte_slot(1) by blast
  ultimately show "j \<in> {j \<in> S. snapshot_digest_bytes j ! 0 = p}"
    using slot_ids_sorted [of x pid d root "unat p"] assms(2) byte_slot [of p] by (auto intro!: bexI [of _ "unat p"])
next
  fix j assume "j \<in> {j \<in> S. snapshot_digest_bytes j ! 0 = p}"
  then show "j \<in> set (f (unat p))" using slot_members [OF assms(1), of j] assms(2) by auto
qed

text \<open>The leaf of a slot, or an empty one, as \<open>mutate_set\<close> reads it.\<close>

lemma slot_leaf_complete:
  fixes i :: snapshot_id
  defines "p \<equiv> snapshot_digest_bytes i ! 0"
  assumes "inventory_ready d" "slot_ids x pid d root (unat p) = Some ids"
  obtains leaf d' where
    "(case root_leaves root ! unat p of
         Some reference \<Rightarrow> load_counted_leaf x pid reference p
       | None \<Rightarrow> st_lift (Inr \<lparr>leaf_project = pid, leaf_id_prefix = p, leaf_ids = []\<rparr>)) d = (Inr leaf, d')"
    "inventory_ready d'" "leaf_ids leaf = ids" "leaf_project leaf = pid" "leaf_id_prefix leaf = p"
proof (cases "root_leaves root ! unat p")
  case None
  with assms(2,3) show ?thesis by (intro that) (auto simp: st_lift_iff slot_ids_def)
next
  case (Some r)
  with assms(3) obtain leaf where l: "set_leaf_at x pid p d (leaf_ref_id r) = Some leaf"
    "length (leaf_ids leaf) = unat (leaf_ref_count r)" "leaf_ids leaf = ids"
    by (auto simp: slot_ids_def byte_slot(2) split: option.splits if_splits)
  have f: "faultless d" using assms(2) by (simp add: inventory_ready_def)
  show ?thesis
  proof (rule that)
    show "(case root_leaves root ! unat p of
         Some reference \<Rightarrow> load_counted_leaf x pid reference p
       | None \<Rightarrow> st_lift (Inr \<lparr>leaf_project = pid, leaf_id_prefix = p, leaf_ids = []\<rparr>)) d = (Inr leaf, tick d)"
      using counted_complete(2) [OF f l(1,2)] Some by simp
  qed (use assms(2) l set_leaf_at_valid [OF l(1)] in simp_all)
qed

lemma store_leaf_ref_complete:
  assumes "inventory_ready d" "hash_length x" "set_leaf_typed l" "sorted_wrt (<) (leaf_ids l)"
    "\<forall>i \<in> set (leaf_ids l). snapshot_digest_bytes i ! 0 = leaf_id_prefix l" "length (leaf_ids l) < 2 ^ 32"
  obtains r d' where "store_leaf_ref x l d = (Inr r, d')" "inventory_ready d'"
proof (cases "leaf_ids l = []")
  case True
  with assms(1) show ?thesis by (intro that) (simp_all add: store_leaf_ref_def st_lift_iff)
next
  case False
  then have "set_leaf_valid l" using assms by (simp add: set_leaf_valid_def)
  then have "encode_set_leaf l = Inr (leaf_bytes l)" using encode_set_leaf_iff [OF assms(3)] by simp
  then obtain i d' where "store_set_leaf x l d = (Inr i, d')" "inventory_ready d'"
    using ready_stores(3) [OF assms(1,2)] by blast
  with False assms(6) show ?thesis
    by (intro that [of _ d']) (simp_all add: store_leaf_ref_def st_bind_Inr_iff st_lift_Inr_iff)
qed

lemma mutate_set_succeeds:
  assumes ready: "inventory_ready d" and hash: "hash_length x" and holds: "holds_set x pid d s S"
    and i: "snapshot_id_valid i" "applicable operation i S" "slot_room i S"
    and room: "operation = Add \<longrightarrow> card S + 1 < 2 ^ 64"
  obtains rc d' where "mutate_set x pid s operation i d = (Inr rc, d')" "inventory_ready d'"
proof -
  let ?p = "snapshot_digest_bytes i ! 0"
  from holds obtain root f where root: "set_root_at x pid d (state_set_root s) = Some root"
    "root_count root = state_count s" "\<forall>k < 256. slot_ids x pid d root k = Some (f k)"
    "S = (\<Union>k < 256. set (f k))" "card S = unat (root_count root)"
    unfolding holds_set_def holds_slots_def by blast
  have fin: "finite S" using root(4) by simp
  have f: "faultless d" using ready by (simp add: inventory_ready_def)
  note l1 = counted_complete(1) [OF f root(1,2)]
  have slot: "slot_ids x pid (tick d) root (unat ?p) = Some (f (unat ?p))"
    using root(3) byte_slot(1) by simp
  obtain leaf d1 where l2: "(case root_leaves root ! unat ?p of
         Some reference \<Rightarrow> load_counted_leaf x pid reference ?p
       | None \<Rightarrow> st_lift (Inr \<lparr>leaf_project = pid, leaf_id_prefix = ?p, leaf_ids = []\<rparr>)) (tick d) = (Inr leaf, d1)"
    and d1: "inventory_ready d1" and leaf: "leaf_ids leaf = f (unat ?p)" "leaf_project leaf = pid" "leaf_id_prefix leaf = ?p"
    by (rule slot_leaf_complete [OF ready_tick [OF ready] slot])
  note sorted = slot_ids_sorted [OF slot, unfolded byte_slot(2)]
  note ss = slot_set [OF root(3,4), of ?p]
  have "applicable operation i (set (f (unat ?p)))"
    using i(2) ss [symmetric] by (auto simp: applicable_def split: inventory_operation.splits)
  then obtain ids where ids: "mutate_ids operation i (leaf_ids leaf) = Inr ids"
    using mutate_ids_applicable [OF conjunct1 [OF sorted]] leaf(1) by metis
  note ids' = mutate_ids_result [OF conjunct1 [OF sorted] ids [unfolded leaf(1)]]
  obtain c where c: "mutate_count operation (state_count s) = Inr c"
    by (rule mutate_count_ok [OF i(2) _ fin room]) (use root in simp)
  have pid: "project_id_valid pid" "length (root_leaves root) = 256"
    using set_root_at_typed [OF root(1)] by (auto simp: set_root_typed_def)
  have ok: "\<forall>j \<in> set ids. snapshot_id_valid j \<and> snapshot_digest_bytes j ! 0 = ?p"
    using ids'(2) sorted i(1) by (auto simp: apply_operation_def split: inventory_operation.splits)
  have "length (f (unat ?p)) < MAX_LEAF_IDS"
    using i(3) sorted sorted_lt_distinct unfolding slot_room_def ss by (metis distinct_card)
  then have len: "length ids < 2 ^ 32" using ids'(3) max_leaf_ids_word by linarith
  obtain r d2 where l3: "store_leaf_ref x (leaf\<lparr>leaf_ids := ids\<rparr>) d1 = (Inr r, d2)" and d2: "inventory_ready d2"
    by (rule store_leaf_ref_complete [OF d1 hash, of "leaf\<lparr>leaf_ids := ids\<rparr>"])
      (use pid leaf ok ids'(1) len in \<open>auto simp: set_leaf_typed_def\<close>)
  obtain rbs where "encode_set_root (root\<lparr>root_count := c, root_leaves := (root_leaves root)[unat ?p := r]\<rparr>) = Inr rbs"
    using pid by (simp add: encode_set_root_def)
  then obtain rid d3 where l4: "store_set_root x (root\<lparr>root_count := c, root_leaves := (root_leaves root)[unat ?p := r]\<rparr>) d2 = (Inr rid, d3)"
    and d3: "inventory_ready d3"
    using ready_stores(2) [OF d2 hash] by blast
  show thesis
  proof (rule that [OF _ d3])
    show "mutate_set x pid s operation i d = (Inr (rid, c), d3)"
      unfolding mutate_set_def Let_def st_bind_Inr_iff st_lift_Inr_iff
      using l1 l2 ids c l3 l4 by blast
  qed
qed

definition states_kept :: "disk \<Rightarrow> disk \<Rightarrow> bool" where
  "states_kept d d' \<longleftrightarrow>
     (\<forall>i bs. file_at d (inventory_state_path i) = Some bs \<longrightarrow> file_at d' (inventory_state_path i) = Some bs)"

lemma states_kept_simps [simp]:
  "states_kept d d" "states_kept (tick d) d' = states_kept d d'" "states_kept d (tick d') = states_kept d d'"
  by (simp_all add: states_kept_def)

lemma states_kept_trans: "states_kept d d' \<Longrightarrow> states_kept d' d'' \<Longrightarrow> states_kept d d''"
  by (simp add: states_kept_def)

lemma store_sets_states_kept:
  assumes "store_content_addressed_bytes p bs d = (r, d')" "p \<notin> range inventory_state_path"
  shows "states_kept d d'"
  using assms(1) by (cases rule: store_cases) (use assms(2) in \<open>auto simp: states_kept_def files_kept_def\<close>)

lemma mutate_set_states_kept:
  assumes "mutate_set x pid s operation i d = (r, d')"
  shows "states_kept d d'"
proof -
  have root: "states_kept d d'" if "store_set_root x l d = (r, d')" for l d d' r
    using that unfolding store_set_root_def
    by (auto simp: st_lift_iff elim!: st_bindE dest!: store_sets_states_kept)
  have leaf: "states_kept d d'" if "store_set_leaf x l d = (r, d')" for l d d' r
    using that unfolding store_set_leaf_def
    by (auto simp: st_lift_iff elim!: st_bindE dest!: store_sets_states_kept)
  have ref: "states_kept d d'" if "store_leaf_ref x l d = (r, d')" for l d d' r
    using that unfolding store_leaf_ref_def
    by (auto simp: st_lift_iff elim!: st_bindE dest!: leaf split: if_splits)
  let ?slot = "\<lambda>root. case root_leaves root ! unat (snapshot_digest_bytes i ! 0) of
         Some reference \<Rightarrow> load_counted_leaf x pid reference (snapshot_digest_bytes i ! 0)
       | None \<Rightarrow> st_lift (Inr \<lparr>leaf_project = pid, leaf_id_prefix = snapshot_digest_bytes i ! 0, leaf_ids = []\<rparr>)"
  have slot: "?slot root d = (r, d') \<Longrightarrow> states_kept d d'" for root d r d'
    by (auto simp: st_lift_iff split: option.splits dest: counted_moves)
  show ?thesis using assms unfolding mutate_set_def Let_def
    by (elim st_bindE) (auto simp: st_lift_iff dest!: counted_moves slot ref root intro: states_kept_trans)
qed

lemma head_at_states_kept:
  "head_at x pid d h \<Longrightarrow> head_kept d d' \<Longrightarrow> states_kept d d' \<Longrightarrow> head_at x pid d' h"
  by (auto simp: head_at_def head_kept_def states_kept_def value_at_Some_iff)

lemma commit_succeeds:
  assumes ready: "inventory_ready d" and hash: "hash_length x" and head: "head_at x pid d h"
    and s: "state_typed s" "valid_shape s" "state_project s = pid"
    and new: "state_id (blake3 x) (encode_state s) \<noteq> Inr (head_id h)"
  obtains sid d' where "commit_state x pid (head_id h) s d = (Inr (object_as_str sid), d')"
    "inventory_ready d'" "head_at x pid d' \<lparr>head_id = sid, head_state = s\<rparr>"
proof -
  obtain d1 where h1: "inventory_head_of x pid d = (Inr h, d1)" "inventory_ready d1" "file_at d1 = file_at d"
    by (rule head_of_complete [OF ready head])
  obtain sid d2 where st: "store_state x s d1 = (Inr sid, d2)" "inventory_ready d2"
    using ready_stores(1) [OF h1(2) hash] by blast
  note S = store_state_at [OF st(1) s(1,2), unfolded s(3)]
  then have neq: "sid \<noteq> head_id h" using new by auto
  have "head_at x pid d1 h" using head head_at_same_files [OF h1(3)] by simp
  then have "head_at x pid d2 h" using S(2) neq
    by (auto simp: head_at_def files_kept_def value_at_Some_iff)
  then obtain d3 where h2: "inventory_head_of x pid d2 = (Inr h, d3)" "inventory_ready d3" "file_at d3 = file_at d2"
    by (rule head_of_complete [OF st(2)])
  obtain d4 where w: "write_bytes_atomic inventory_head_path (object_as_str sid @ [0x0A]) d3 = (Inr (), d4)"
    "inventory_ready d4" by (rule ready_write [OF h2(2) inventory_paths_simps(1)])
  have "object_id_valid sid" using S(3) content_id_valid unfolding state_id_def by blast
  note ph = parse_head_str [OF this]
  have "head_at x pid d4 \<lparr>head_id = sid, head_state = s\<rparr>"
    using write_ok [OF w(1)] ph S(1) h2(3) by (auto simp: head_at_def files_kept_def value_at_Some_iff)
  then obtain d5 where h3: "inventory_head_of x pid d4 = (Inr \<lparr>head_id = sid, head_state = s\<rparr>, d5)"
    "inventory_ready d5" "file_at d5 = file_at d4" and "head_at x pid d5 \<lparr>head_id = sid, head_state = s\<rparr>"
    using head_of_complete [OF w(2)] head_at_same_files by metis
  moreover have "commit_state x pid (head_id h) s d = (Inr (object_as_str sid), d5)"
    unfolding commit_state_def publish_state_def write_head_def st_bind_Inr_iff st_lift_Inr_iff
    using h1 S(3) neq st h2 w h3 by (auto simp: st_bind_Inr_iff st_lift_Inr_iff)
  ultimately show thesis using that by blast
qed

definition fresh_state ::
    "external \<Rightarrow> project_id \<Rightarrow> inventory_operation \<Rightarrow> snapshot_id \<Rightarrow> str \<Rightarrow> disk \<Rightarrow> inventory_head \<Rightarrow> bool" where
  "fresh_state x pid operation i operation_id d h \<longleftrightarrow>
     (\<forall>rc d'. mutate_set x pid (head_state h) operation i d = (Inr rc, d') \<longrightarrow>
        state_id (blake3 x) (encode_state (next_state x pid operation i operation_id (head_id h)
          (state_generation (head_state h) + 1) rc)) \<noteq> Inr (head_id h))"

text \<open>C20: without a fault, on a disk where the inventory can be written, an operation that
  applies to the current set is made: the transition returns the id of the new head. The state it
  makes must have another hash than the current head.\<close>

theorem transition_succeeds:
  assumes ready: "inventory_ready d" and holds: "inventory_holds x pid d h S"
    and hash: "hash_length x" "inventory_operation_id (blake3 x) operation_id \<noteq> zeros"
      "fresh_state x pid operation i operation_id d h"
    and i: "snapshot_id_valid i" "applicable operation i S" "slot_room i S" "operation_id \<noteq> []"
    and room: "card S + 1 < 2 ^ 64" "unat (state_generation (head_state h)) + 1 < 2 ^ 64"
  shows "\<exists>h' d'. transition_inventory x pid operation i (object_as_str (head_id h)) operation_id d
       = (Inr (object_as_str (head_id h')), d') \<and> inventory_ready d' \<and> head_at x pid d' h'
     \<and> made_by operation i (object_as_str (head_id h)) (head_state h')"
proof -
  have head: "head_at x pid d h" and set: "holds_set x pid d (head_state h) S" using holds by (simp_all add: inventory_holds_def)
  then have at: "state_at x pid d (head_id h) = Some h" by (simp add: head_at_def)
  have t: "tick d = d" using ready by (simp add: inventory_ready_def faultless_def tick_def)
  have valid: "object_id_valid (head_id h)" "project_id_valid pid"
    using at content_id_valid by (auto simp: value_at_Some_iff check_state_iff state_id_def state_typed_def)
  then have p: "object_id_parse (object_as_str (head_id h)) = Inr (head_id h)"
    by (auto simp: object_id_valid_def object_id_parse_def res_bind_Inr_iff object_id.expand)
  have l: "load_state x (head_id h) pid d = (Inr h, d)"
    using load_state_complete [OF _ at] ready t by (simp add: inventory_ready_def)
  obtain rc d1 where m: "mutate_set x pid (head_state h) operation i d = (Inr rc, d1)" and d1: "inventory_ready d1"
    by (rule mutate_set_succeeds [OF ready hash(1) set i(1,2,3)]) (use room in simp)
  let ?g = "state_generation (head_state h) + 1"
  have g: "checked_add (state_generation (head_state h)) 1 = Some ?g" using room(2) by (simp add: checked_add_def)
  then have g0: "0 < unat ?g" using checked_add_Some_iff [of "state_generation (head_state h)" 1 ?g] by simp
  obtain rid c where rc: "rc = (rid, c)" by (cases rc)
  from m [unfolded rc] obtain r d2 d3 where mc: "mutate_count operation (state_count (head_state h)) = Inr c"
    "store_set_root x r d2 = (Inr rid, d3)" by (rule mutate_setE)
  have "object_id_valid rid" using mc(2) content_id_valid unfolding stored_iff set_root_id_def by blast
  moreover have "operation = Add \<Longrightarrow> 0 < unat c" using mutate_count_result [OF mc(1)] by auto
  moreover have "operation \<noteq> Initialize" using i(2) by (auto simp: applicable_def)
  ultimately have ok: "state_typed (next_state x pid operation i operation_id (head_id h) ?g rc)
      \<and> valid_shape (next_state x pid operation i operation_id (head_id h) ?g rc)"
    unfolding rc using next_state_ok g0 hash(1,2) i(1) valid by blast
  have head1: "head_at x pid d1 h"
    using head_at_states_kept [OF head] mutate_set_evolves [OF m] mutate_set_states_kept [OF m] by blast
  obtain sid d' where c: "commit_state x pid (head_id h) (next_state x pid operation i operation_id (head_id h) ?g rc) d1
      = (Inr (object_as_str sid), d')" "inventory_ready d'"
    "head_at x pid d' \<lparr>head_id = sid, head_state = next_state x pid operation i operation_id (head_id h) ?g rc\<rparr>"
    by (rule commit_succeeds [OF d1 hash(1) head1 conjunct1 [OF ok] conjunct2 [OF ok]])
      (use hash(3) m in \<open>auto simp: fresh_state_def rc next_state_def\<close>)
  have "transition_inventory x pid operation i (object_as_str (head_id h)) operation_id d = (Inr (object_as_str sid), d')"
    unfolding transition_inventory_def st_bind_Inr_iff st_lift_Inr_iff if_not_P [OF i(4)]
    using p l m g c by (auto simp: st_bind_Inr_iff st_lift_Inr_iff rc)
  then show ?thesis using c
    by (intro exI [of _ "\<lparr>head_id = sid, head_state = next_state x pid operation i operation_id (head_id h) ?g rc\<rparr>"] exI [of _ d'])
      (simp add: made_by_def next_state_def rc)
qed

end
