(* ===== verification/InventoryReads.thy ===== *)
theory InventoryReads
  imports InventoryProgress
begin

text \<open>
  Reading the inventory: the listed ids are the set the state stands for, a membership test answers
  for that set, and the projected removal of a snapshot stays inside it.
\<close>

section \<open>Listing the set\<close>

lemma take_Suc_enumerate:
  "k < length xs \<Longrightarrow> take (Suc k) (enumerate 0 xs) = take k (enumerate 0 xs) @ [(k, xs ! k)]"
  by (simp add: take_Suc_conv_app_nth nth_enumerate_eq)

lemma insert_all_iff:
  "try_fold (\<lambda>ids i. if i \<in> ids then Inl e else Inr (insert i ids)) A xs = Inr B \<longleftrightarrow>
     distinct xs \<and> set xs \<inter> A = {} \<and> B = A \<union> set xs"
  by (induction xs arbitrary: A) (auto simp: res_bind_Inr_iff)

lemma unat_ucast_u32: "unat (ucast (c :: u32) :: u64) = unat c"
  by (simp add: unsigned_ucast_eq take_bit_nat_eq_self_iff) (use unsigned_less [of c, where ?'a = nat] in simp)

text \<open>One slot, in terms of the ids it holds.\<close>

lemma collect_slot_iff:
  assumes "ref = root_leaves root ! k"
  shows "collect_slot x pid (ids, n) (k, ref) d = (Inr (ids', n'), d') \<Longrightarrow>
    \<exists>xs. slot_ids x pid d root k = Some xs \<and> set xs \<inter> ids = {} \<and> ids' = ids \<union> set xs
      \<and> unat n' = unat n + length xs \<and> file_at d' = file_at d"
    and "faultless d \<Longrightarrow> slot_ids x pid d root k = Some xs \<Longrightarrow> set xs \<inter> ids = {} \<Longrightarrow>
      unat n + length xs < 2 ^ 64 \<Longrightarrow>
      \<exists>d'. collect_slot x pid (ids, n) (k, ref) d = (Inr (ids \<union> set xs, n + word_of_nat (length xs)), d')
        \<and> faultless d' \<and> file_at d' = file_at d"
proof -
  assume c: "collect_slot x pid (ids, n) (k, ref) d = (Inr (ids', n'), d')"
  show "\<exists>xs. slot_ids x pid d root k = Some xs \<and> set xs \<inter> ids = {} \<and> ids' = ids \<union> set xs
      \<and> unat n' = unat n + length xs \<and> file_at d' = file_at d"
  proof (cases ref)
    case None
    with c assms show ?thesis by (auto simp: collect_slot_def st_lift_iff slot_ids_def)
  next
    case (Some r)
    with c obtain leaf where l: "load_counted_leaf x pid r (word_of_nat k) d = (Inr leaf, d')"
      "checked_add n (ucast (leaf_ref_count r)) = Some n'"
      "set (leaf_ids leaf) \<inter> ids = {}" "ids' = ids \<union> set (leaf_ids leaf)"
      by (auto simp: collect_slot_def st_bind_Inr_iff st_lift_Inr_iff ok_or_Inr_iff insert_all_iff)
    have "unat (ucast (leaf_ref_count r) :: u64) = unat (leaf_ref_count r)" by (rule unat_ucast_u32)
    with l counted_leaf_at [OF l(1)] Some assms show ?thesis
      by (auto simp: slot_ids_def checked_add_Some_iff)
  qed
next
  assume f: "faultless d" and s: "slot_ids x pid d root k = Some xs" and disj: "set xs \<inter> ids = {}"
    and small: "unat n + length xs < 2 ^ 64"
  show "\<exists>d'. collect_slot x pid (ids, n) (k, ref) d = (Inr (ids \<union> set xs, n + word_of_nat (length xs)), d')
        \<and> faultless d' \<and> file_at d' = file_at d"
  proof (cases ref)
    case None
    with s f assms show ?thesis by (auto simp: collect_slot_def st_lift_iff slot_ids_def)
  next
    case (Some r)
    with s assms obtain leaf where l: "set_leaf_at x pid (word_of_nat k) d (leaf_ref_id r) = Some leaf"
      "length xs = unat (leaf_ref_count r)" "leaf_ids leaf = xs"
      by (auto simp: slot_ids_def split: option.splits if_splits)
    have u: "unat (ucast (leaf_ref_count r) :: u64) = length xs" using unat_ucast_u32 l(2) by simp
    then have w: "(ucast (leaf_ref_count r) :: u64) = word_of_nat (length xs)" by (simp flip: u)
    have "checked_add n (ucast (leaf_ref_count r)) = Some (n + word_of_nat (length xs))"
      using small u w by (simp add: checked_add_def)
    moreover have "load_counted_leaf x pid r (word_of_nat k) d = (Inr leaf, tick d)"
      using counted_complete(2) [OF f l(1)] l by simp
    moreover have "distinct xs" using slot_ids_sorted [OF s] sorted_lt_distinct by blast
    ultimately show ?thesis using f l(3) disj Some
      by (auto simp: collect_slot_def st_bind_Inr_iff st_lift_Inr_iff ok_or_Inr_iff insert_all_iff)
  qed
qed

lemma Union_prefix_update: "(\<Union>j < Suc k. set ((f(k := xs)) j)) = (\<Union>j < k. set (f j)) \<union> set xs"
proof -
  have "{..<Suc k} = insert k {..<k}" by auto
  then show ?thesis by auto
qed

lemma collect_prefix_sound:
  assumes "st_fold (collect_slot x pid) ({}, 0) (take k (enumerate 0 (root_leaves root))) d = (Inr (ids, n), d')"
    and "k \<le> length (root_leaves root)"
  shows "\<exists>f. (\<forall>j < k. slot_ids x pid d root j = Some (f j)) \<and> ids = (\<Union>j < k. set (f j))
    \<and> unat n = card ids \<and> file_at d' = file_at d"
  using assms
proof (induction k arbitrary: ids n d')
  case (Suc k)
  then have k: "k < length (root_leaves root)" by simp
  from Suc.prems(1) obtain ids0 n0 d0 where
    a: "st_fold (collect_slot x pid) ({}, 0) (take k (enumerate 0 (root_leaves root))) d = (Inr (ids0, n0), d0)"
    and b: "collect_slot x pid (ids0, n0) (k, root_leaves root ! k) d0 = (Inr (ids, n), d')"
    unfolding take_Suc_enumerate [OF k] st_fold_snoc_Inr_iff by auto
  from Suc.IH [OF a] k obtain f where f: "\<forall>j < k. slot_ids x pid d root j = Some (f j)"
    "ids0 = (\<Union>j < k. set (f j))" "unat n0 = card ids0" "file_at d0 = file_at d" by auto
  from collect_slot_iff(1) [OF refl b] obtain xs where xs: "slot_ids x pid d0 root k = Some xs" "set xs \<inter> ids0 = {}"
    "ids = ids0 \<union> set xs" "unat n = unat n0 + length xs" "file_at d' = file_at d0" by blast
  have "slot_ids x pid d root k = Some xs"
    using xs(1) unfolding slot_ids_def value_at_same_files [OF f(4)] .
  moreover have "distinct xs" using slot_ids_sorted [OF xs(1)] sorted_lt_distinct by blast
  moreover have "card ids = card ids0 + card (set xs)"
    using xs(2,3) f(2) by (simp add: card_Un_disjoint Int_commute)
  ultimately show ?case using f xs
    by (intro exI [of _ "f(k := xs)"], unfold Union_prefix_update) (simp add: less_Suc_eq distinct_card)
qed (simp add: exI)

lemma slots_disjoint:
  assumes "slot_ids x pid d root j = Some xs" "slot_ids x pid d root k = Some ys" "j < 256" "k < 256" "j \<noteq> k"
  shows "set ys \<inter> set xs = {}"
proof -
  have "(word_of_nat j :: byte) \<noteq> word_of_nat k" using slot_of_nat assms(3-5) by metis
  then show ?thesis using slot_ids_sorted [OF assms(1)] slot_ids_sorted [OF assms(2)] by auto
qed

lemma collect_prefix_complete:
  assumes "faultless d" "\<forall>j < 256. slot_ids x pid d root j = Some (f j)" "card (\<Union>j < 256. set (f j)) < 2 ^ 64"
    and "k \<le> 256" "length (root_leaves root) = 256"
  shows "\<exists>n d'. st_fold (collect_slot x pid) ({}, 0) (take k (enumerate 0 (root_leaves root))) d
      = (Inr (\<Union>j < k. set (f j), n), d') \<and> unat n = card (\<Union>j < k. set (f j))
    \<and> faultless d' \<and> file_at d' = file_at d"
  using assms(4)
proof (induction k)
  case (Suc k)
  then have k: "k < length (root_leaves root)" "k < 256" using assms(5) by simp_all
  from Suc obtain n d0 where a: "st_fold (collect_slot x pid) ({}, 0) (take k (enumerate 0 (root_leaves root))) d
      = (Inr (\<Union>j < k. set (f j), n), d0)" "unat n = card (\<Union>j < k. set (f j))" "faultless d0" "file_at d0 = file_at d"
    by auto
  let ?A = "\<Union>j < k. set (f j)"
  have s: "slot_ids x pid d root k = Some (f k)" using assms(2) k by simp
  then have s0: "slot_ids x pid d0 root k = Some (f k)" unfolding slot_ids_def value_at_same_files [OF a(4)] .
  have disj: "set (f k) \<inter> ?A = {}"
    using slots_disjoint [OF _ s _ k(2)] assms(2) k(2) by (simp add: Int_UN_distrib)
  have "distinct (f k)" using slot_ids_sorted [OF s] sorted_lt_distinct by blast
  then have c: "card (?A \<union> set (f k)) = unat n + length (f k)"
    using disj a(2) by (simp add: card_Un_disjoint Int_commute distinct_card)
  have U: "?A \<union> set (f k) = (\<Union>j < Suc k. set (f j))" by (auto simp: less_Suc_eq)
  have "card (?A \<union> set (f k)) \<le> card (\<Union>j < 256. set (f j))"
    unfolding U by (intro card_mono UN_mono) (use k in auto)
  then have small: "unat n + length (f k) < 2 ^ 64" using c assms(3) by simp
  from collect_slot_iff(2) [OF refl a(3) s0 disj small] obtain d' where
    "collect_slot x pid (?A, n) (k, root_leaves root ! k) d0 = (Inr (?A \<union> set (f k), n + word_of_nat (length (f k))), d')"
    "faultless d'" "file_at d' = file_at d0" by blast
  moreover have "unat (n + word_of_nat (length (f k))) = card (?A \<union> set (f k))"
    using small c by (simp add: unat_word_ariths unat_of_nat take_bit_nat_eq_self)
  ultimately show ?case using a U unfolding take_Suc_enumerate [OF k(1)] st_fold_snoc_Inr_iff
    by (intro exI [of _ "n + word_of_nat (length (f k))"] exI [of _ d']) auto
qed (use assms(1) in simp)

lemma holds_slots_unique:
  "holds_slots x pid d root S \<Longrightarrow> holds_slots x pid d root S' \<Longrightarrow> S = S'"
  unfolding holds_slots_def by (elim exE conjE) simp

lemma holds_set_unique:
  assumes "holds_set x pid d s S" "holds_set x pid d s S'"
  shows "S = S'"
proof -
  from assms obtain root root' where "set_root_at x pid d (state_set_root s) = Some root" "holds_slots x pid d root S"
    "set_root_at x pid d (state_set_root s) = Some root'" "holds_slots x pid d root' S'" by (auto simp: holds_set_def)
  then show ?thesis using holds_slots_unique by simp
qed

theorem load_ids_sound:
  assumes "load_inventory_ids x pid s d = (Inr S, d')"
  shows "holds_set x pid d s S \<and> file_at d' = file_at d"
proof -
  from assms obtain root d1 n where r: "load_counted_root x pid s d = (Inr root, d1)"
    and f: "st_fold (collect_slot x pid) ({}, 0) (enumerate 0 (root_leaves root)) d1 = (Inr (S, n), d')"
    and n: "n = root_count root" "word_of_nat (card S) = root_count root"
    by (auto simp: load_inventory_ids_def st_bind_Inr_iff st_lift_Inr_iff split: if_splits)
  note R = counted_root_at [OF r]
  then have len: "length (root_leaves root) = 256" using set_root_at_typed [of x pid d] by (auto simp: set_root_typed_def)
  have "take 256 (enumerate 0 (root_leaves root)) = enumerate 0 (root_leaves root)" using len by simp
  with collect_prefix_sound [of x pid 256 root d1 S n d'] f len obtain g where
    "\<forall>j < 256. slot_ids x pid d1 root j = Some (g j)" "S = (\<Union>j < 256. set (g j))"
    "unat n = card S" "file_at d' = file_at d1" by auto
  with R n show ?thesis unfolding holds_set_def holds_slots_def by auto
qed

theorem load_ids_complete:
  assumes "faultless d" "holds_set x pid d s S"
  shows "\<exists>d'. load_inventory_ids x pid s d = (Inr S, d')"
proof -
  from assms(2) obtain root f where root: "set_root_at x pid d (state_set_root s) = Some root"
    "root_count root = state_count s" "\<forall>k < 256. slot_ids x pid d root k = Some (f k)"
    "S = (\<Union>k < 256. set (f k))" "card S = unat (root_count root)"
    unfolding holds_set_def holds_slots_def by blast
  have len: "length (root_leaves root) = 256" using set_root_at_typed [OF root(1)] by (simp add: set_root_typed_def)
  have "card S < 2 ^ 64" using root(5) unsigned_less [of "root_count root", where ?'a = nat] by simp
  then obtain n d' where f: "st_fold (collect_slot x pid) ({}, 0) (enumerate 0 (root_leaves root)) (tick d) = (Inr (S, n), d')"
    "unat n = card S"
    using collect_prefix_complete [of "tick d" x pid root f 256] assms(1) root(3,4) len by auto
  have "n = root_count root" using f(2) root(5) by (simp add: word_unat_eq_iff)
  moreover have "word_of_nat (card S) = root_count root" using root(5) by simp
  ultimately have "load_inventory_ids x pid s d = (Inr S, d')"
    using f counted_complete(1) [OF assms(1) root(1,2)]
    by (simp add: load_inventory_ids_def st_bind_Inr_iff st_lift_Inr_iff)
  then show ?thesis by blast
qed

section \<open>Membership\<close>

lemma set_root_contains_sound:
  assumes "set_root_contains x pid root i d = (Inr b, d')" "holds_slots x pid d root S"
  shows "(b \<longleftrightarrow> i \<in> S) \<and> file_at d' = file_at d"
proof -
  let ?p = "snapshot_digest_bytes i ! 0"
  from assms(2) obtain f where f: "\<forall>k < 256. slot_ids x pid d root k = Some (f k)" "S = (\<Union>k < 256. set (f k))"
    by (auto simp: holds_slots_def)
  have s: "slot_ids x pid d root (unat ?p) = Some (f (unat ?p))" using f(1) byte_slot(1) by blast
  have m: "i \<in> S \<longleftrightarrow> i \<in> set (f (unat ?p))" unfolding f(2) by (rule slot_members [OF f(1)])
  show ?thesis
  proof (cases "root_leaves root ! unat ?p")
    case None
    with assms(1) s m show ?thesis by (auto simp: set_root_contains_def st_lift_iff slot_ids_def)
  next
    case (Some r)
    with assms(1) obtain leaf where l: "load_counted_leaf x pid r ?p d = (Inr leaf, d')"
      "b = (case binary_search (leaf_ids leaf) i of Inr _ \<Rightarrow> True | Inl _ \<Rightarrow> False)"
      by (auto simp: set_root_contains_def Let_def st_bind_Inr_iff st_lift_Inr_iff)
    with counted_leaf_at [OF l(1)] Some s have "leaf_ids leaf = f (unat ?p)" "file_at d' = file_at d"
      by (auto simp: slot_ids_def byte_slot(2))
    with l(2) m slot_ids_sorted [OF s] show ?thesis by (simp add: binary_search_found)
  qed
qed

section \<open>The lineage of a state\<close>

inductive lineage :: "external \<Rightarrow> project_id \<Rightarrow> disk \<Rightarrow> inventory_head \<Rightarrow> inventory_head \<Rightarrow> bool"
  for x pid d where
  self: "lineage x pid d h h"
| older: "state_parent (head_state h) = Some i \<Longrightarrow> state_at x pid d i = Some p \<Longrightarrow> lineage x pid d p a \<Longrightarrow>
    lineage x pid d h a"

inductive_cases lineageE: "lineage x pid d h a"

lemma lineage_same_files:
  assumes "file_at d' = file_at d"
  shows "lineage x pid d' = lineage x pid d"
proof -
  have "lineage x pid d h a \<Longrightarrow> lineage x pid d' h a" if "file_at d' = file_at d" for d d' h a
    by (induction rule: lineage.induct) (auto intro: lineage.intros simp: value_at_same_files [OF that])
  then show ?thesis using assms by (intro ext) metis
qed

lemma lineage_at:
  "lineage x pid d h a \<Longrightarrow> state_at x pid d (head_id h) = Some h \<Longrightarrow> state_at x pid d (head_id a) = Some a"
proof (induction rule: lineage.induct)
  case (older h i p a)
  then show ?case by (auto simp: value_at_Some_iff check_state_iff)
qed

lemma load_parent:
  assumes "load_state x i pid d = (Inr p, d')"
  shows "state_at x pid d i = Some p" "head_id p = i" "file_at d' = file_at d"
  using load_state_sound [OF assms] load_moves(1) [OF assms] by (auto simp: value_at_Some_iff check_state_iff)

lemma reachable_states_spec:
  assumes "reachable_states x pid visited reachable h d = (Inr R, d')"
  shows "R = reachable \<union> {inventory_state_path (head_id a) | a. lineage x pid d h a} \<and> file_at d' = file_at d"
  using assms
proof (induction x pid visited reachable h d arbitrary: d' rule: reachable_states.induct)
  case (1 x pid visited reachable h d)
  show ?case
  proof (cases "state_parent (head_state h)")
    case None
    then have "lineage x pid d h a \<longleftrightarrow> a = h" for a by (auto elim: lineageE intro: lineage.intros)
    with "1.prems" None show ?thesis by (auto split: if_splits)
  next
    case (Some i)
    with "1.prems" obtain p d1 where l: "load_state x i pid d = (Inr p, d1)"
      and rest: "reachable_states x pid (insert (head_id h) visited)
         (insert (inventory_state_path (head_id h)) reachable) p d1 = (Inr R, d')"
      and c: "head_id h \<notin> visited"
         "checked_add (state_generation (head_state p)) 1 = Some (state_generation (head_state h))"
      by (auto simp del: reachable_states.simps simp: reachable_states.simps [of x pid visited reachable h d]
          split: if_splits prod.splits sum.splits)
    note P = load_parent [OF l]
    have ih: "R = insert (inventory_state_path (head_id h)) reachable
        \<union> {inventory_state_path (head_id a) | a. lineage x pid d p a} \<and> file_at d' = file_at d"
      using "1.IH" [OF c(1) Some l [symmetric] refl] c(2) rest P(3) lineage_same_files [OF P(3)] by simp
    have "lineage x pid d h a \<longleftrightarrow> a = h \<or> lineage x pid d p a" for a
      using Some P(1) by (auto elim: lineageE intro: lineage.intros)
    with ih show ?thesis by auto
  qed
qed

section \<open>Removing a snapshot\<close>

lemma newest_surviving_add_sound:
  assumes "newest_surviving_add x pid remaining visited h d = (Inr i, d')"
  shows "i \<in> remaining \<and> file_at d' = file_at d
    \<and> (\<exists>a. lineage x pid d h a \<and> state_operation (head_state a) = Add \<and> state_snapshot (head_state a) = Some i)"
  using assms
proof (induction x pid remaining visited h d arbitrary: d' rule: newest_surviving_add.induct)
  case (1 x pid remaining visited h d)
  from "1.prems" have v: "head_id h \<notin> visited" by (auto split: if_splits)
  from "1.prems" v obtain c where c: "surviving_add remaining (head_state h) = Inr c"
    by (auto simp del: newest_surviving_add.simps simp: newest_surviving_add.simps [of x pid remaining visited h d]
        split: sum.splits)
  show ?case
  proof (cases c)
    case (Some j)
    with "1.prems" v c show ?thesis
      by (auto simp: surviving_add_def res_bind_Inr_iff ok_or_Inr_iff split: if_splits intro: lineage.self)
  next
    case None
    with "1.prems" v c obtain k p d1 where k: "state_parent (head_state h) = Some k"
      and l: "load_state x k pid d = (Inr p, d1)"
      and g: "checked_add (state_generation (head_state p)) 1 = Some (state_generation (head_state h))"
      and rest: "newest_surviving_add x pid remaining (insert (head_id h) visited) p d1 = (Inr i, d')"
      by (auto simp del: newest_surviving_add.simps simp: newest_surviving_add.simps [of x pid remaining visited h d]
          split: if_splits prod.splits sum.splits option.splits)
    note P = load_parent [OF l]
    from "1.IH" [OF v c None k l [symmetric] refl _ rest] g
    show ?thesis using P lineage_same_files [OF P(3)] k by (auto intro: lineage.older)
  qed
qed

lemma checked_sub_one: "checked_sub c 1 = Some m \<Longrightarrow> unat c = unat m + 1"
  using checked_sub_Some_iff [of c 1 m] by simp

lemma remaining_latest_spec:
  assumes hs: "holds_slots x pid d root S" "holds_set x pid d (head_state h) S"
    and m: "unat m = card (S - {removed})" and rem: "removed \<in> S"
    and r: "remaining_latest x pid removed current_latest preferred_parent h root m d = (Inr (n, latest), d')"
  shows "n = m \<and> file_at d' = file_at d
    \<and> (current_latest \<noteq> Some removed \<longrightarrow> latest = current_latest)
    \<and> (case latest of Some i \<Rightarrow> i \<in> S - {removed} | None \<Rightarrow> current_latest = None \<or> S = {removed})"
proof (cases "current_latest = Some removed")
  case False
  with r have s: "(case current_latest of
         None \<Rightarrow> st_lift (Inr True) | Some latest \<Rightarrow> set_root_contains x pid root latest) d = (Inr True, d')"
    "n = m" "latest = current_latest"
    by (auto simp: remaining_latest_def st_bind_Inr_iff st_lift_Inr_iff split: if_splits)
  show ?thesis
  proof (cases current_latest)
    case (Some l)
    with s have "set_root_contains x pid root l d = (Inr True, d')" by simp
    from set_root_contains_sound [OF this hs(1)] s Some False show ?thesis by simp
  qed (use s in \<open>simp add: st_lift_iff\<close>)
next
  case cur: True
  show ?thesis
  proof (cases "m = 0")
    case True
    with r cur have "n = 0" "latest = None" "d' = d" by (auto simp: remaining_latest_def st_lift_Inr_iff)
    moreover have "finite S" using hs(1) by (auto simp: holds_slots_def)
    then have "S - {removed} = {}" using m True
      by (simp only: unsigned_0 card_0_eq finite_Diff eq_commute [of 0])
    then have "S = {removed}" using rem by blast
    ultimately show ?thesis using cur True by simp
  next
    case False
    with r cur obtain b d4 where
      b: "(case preferred_parent of
         Some parent \<Rightarrow> if parent \<noteq> removed then set_root_contains x pid root parent else st_lift (Inr False)
       | None \<Rightarrow> st_lift (Inr False)) d = (Inr b, d4)"
      and rest: "(if b then st_lift (Inr (m, preferred_parent))
       else
       st_bind (load_inventory_ids x pid (head_state h)) (\<lambda>ids.
       st_bind (newest_surviving_add x pid (ids - {removed}) {} h) (\<lambda>candidate.
       st_lift (Inr (m, Some candidate))))) d4 = (Inr (n, latest), d')"
      by (auto simp: remaining_latest_def st_bind_Inr_iff)
    have B: "file_at d4 = file_at d \<and> (b \<longrightarrow> (\<exists>p \<in> S - {removed}. preferred_parent = Some p))"
      using b set_root_contains_sound [OF _ hs(1)] by (auto simp: st_lift_iff split: option.splits if_splits)
    show ?thesis
    proof (cases b)
      case True
      with B rest cur show ?thesis by (auto simp: st_lift_Inr_iff)
    next
      case False
      with rest obtain ids d5 j where ids: "load_inventory_ids x pid (head_state h) d4 = (Inr ids, d5)"
        "newest_surviving_add x pid (ids - {removed}) {} h d5 = (Inr j, d')" "n = m" "latest = Some j"
        by (auto simp: st_bind_Inr_iff st_lift_Inr_iff)
      have f: "file_at d4 = file_at d" using B by simp
      have "holds_set x pid d (head_state h) ids" "file_at d5 = file_at d"
        using load_ids_sound [OF ids(1)] f holds_same_files [OF f] by auto
      then have "ids = S" using holds_set_unique [OF _ hs(2)] by blast
      with newest_surviving_add_sound [OF ids(2)] ids(3,4) cur \<open>file_at d5 = _\<close> show ?thesis by simp
    qed
  qed
qed

lemma holds_slots_same_files:
  assumes "file_at d' = file_at d"
  shows "holds_slots x pid d' root S \<longleftrightarrow> holds_slots x pid d root S"
  unfolding holds_slots_def slot_ids_def value_at_same_files [OF assms] ..

text \<open>The projected removal of a snapshot stays inside the inventory: it succeeds only
  for a member, counts what remains, keeps a latest reference that is not the removed one, and
  otherwise proposes a remaining snapshot, or none exactly when the removed one was the last.\<close>

theorem removal_projection:
  assumes "inventory_holds x pid d h S"
    and "project_snapshot_removal x pid removed current_latest preferred_parent d = (Inr (n, latest), d')"
  shows "removed \<in> S \<and> unat n = card (S - {removed}) \<and> file_at d' = file_at d
    \<and> (current_latest \<noteq> Some removed \<longrightarrow> latest = current_latest)
    \<and> (case latest of Some i \<Rightarrow> i \<in> S - {removed} | None \<Rightarrow> current_latest = None \<or> S = {removed})"
proof -
  from assms(2) obtain h1 d1 root d2 d3 m where
    h1: "inventory_head_of x pid d = (Inr h1, d1)" and root: "load_counted_root x pid (head_state h1) d1 = (Inr root, d2)"
    and c: "set_root_contains x pid root removed d2 = (Inr True, d3)"
    and n: "checked_sub (state_count (head_state h1)) 1 = Some m"
    and rest: "remaining_latest x pid removed current_latest preferred_parent h1 root m d3 = (Inr (n, latest), d')"
    by (auto simp: project_snapshot_removal_def st_bind_Inr_iff st_lift_Inr_iff ok_or_Inr_iff split: if_splits)
  have "h1 = h" using head_at_unique [OF head_of_sound [OF h1]] assms(1) by (simp add: inventory_holds_def)
  note R = counted_root_at [OF root]
  have f1: "file_at d1 = file_at d" "file_at d2 = file_at d" using head_of_moves [OF h1] R by simp_all
  have hs: "holds_set x pid d (head_state h) S" using assms(1) by (simp add: inventory_holds_def)
  then obtain root' where r': "set_root_at x pid d (state_set_root (head_state h)) = Some root'"
    "holds_slots x pid d root' S" by (auto simp: holds_set_def)
  moreover have "set_root_at x pid d (state_set_root (head_state h)) = Some root"
    using R \<open>h1 = h\<close> unfolding value_at_same_files [OF f1(1)] by simp
  ultimately have slots: "holds_slots x pid d root S" by simp
  note hs2 = slots [folded holds_slots_same_files [OF f1(2)]]
  from set_root_contains_sound [OF c hs2] have rem: "removed \<in> S" and f3: "file_at d3 = file_at d" using f1 by auto
  have "card S = unat m + 1" "finite S"
    using checked_sub_one [OF n] R slots \<open>h1 = h\<close> by (auto simp: holds_slots_def)
  then have cm: "unat m = card (S - {removed})" using rem by simp
  from remaining_latest_spec [OF slots [folded holds_slots_same_files [OF f3]] hs [folded holds_same_files [OF f3]] cm rem
      rest [unfolded \<open>h1 = h\<close>]]
  show ?thesis using rem cm f3 by simp
qed

end
