(* ===== verification/InventoryGc.thy ===== *)
theory InventoryGc
  imports InventoryReads
begin

text \<open>
  The garbage of the inventory: exactly the stored files that the head does not need, so deleting
  them keeps the inventory and the states it comes from.
\<close>

section \<open>Garbage\<close>

text \<open>The files an inventory needs: its head, the states it comes from, its set root and leaves.\<close>

definition inventory_needs :: "external \<Rightarrow> project_id \<Rightarrow> disk \<Rightarrow> inventory_head \<Rightarrow> path set" where
  "inventory_needs x pid d h =
     {inventory_state_path (head_id a) | a. lineage x pid d h a}
     \<union> {inventory_set_root_path (state_set_root (head_state h))}
     \<union> {inventory_set_leaf_path (leaf_ref_id r) | r root.
          set_root_at x pid d (state_set_root (head_state h)) = Some root \<and> Some r \<in> set (root_leaves root)}"

definition in_store :: "path \<Rightarrow> bool" where
  "in_store p \<longleftrightarrow> (\<exists>store \<in> fst ` set inventory_stores. length store < length p \<and> take (length store) p = store)"

lemma reachable_leaves_spec:
  assumes "st_fold (reachable_leaf x pid) R (zip ks refs) d = (Inr R', d')" "length ks = length refs"
  shows "R' = R \<union> {inventory_set_leaf_path (leaf_ref_id r) | r. Some r \<in> set refs} \<and> file_at d' = file_at d"
  using assms
proof (induction ks refs arbitrary: R d rule: list_induct2')
  case (4 k ks ref refs)
  show ?case
  proof (cases ref)
    case None
    with 4 show ?thesis by (auto simp: reachable_leaf_def st_lift_def)
  next
    case (Some r)
    with "4.prems" obtain leaf d1 where l: "load_counted_leaf x pid r (word_of_nat k) d = (Inr leaf, d1)"
      and rest: "st_fold (reachable_leaf x pid) (insert (inventory_set_leaf_path (leaf_ref_id r)) R) (zip ks refs) d1 = (Inr R', d')"
      by (auto simp: reachable_leaf_def [of x pid R] st_bind_def st_lift_def split: prod.splits sum.splits)
    with "4.IH" [OF rest] "4.prems"(2) counted_leaf_at [OF l] Some show ?thesis by auto
  qed
qed auto

lemma gc_entry_set:
  assumes "gc_entry d R store suffix q = Inr ys"
  shows "set ys = {(p, length bs) | p bs. p = q \<and> file_at d p = Some bs \<and> p \<notin> R}"
proof -
  from assms obtain n where n: "symlink_metadata d q = Inr n" by (auto simp: gc_entry_def Let_def res_bind_Inr_iff)
  show ?thesis
  proof (cases n)
    case (RegularFile bs)
    with n have "file_at d q = Some bs" by (simp add: symlink_metadata_file)
    with assms n RegularFile show ?thesis by (auto simp: gc_entry_def Let_def res_bind_Inr_iff split: if_splits)
  next
    case Directory
    with n have "file_at d q = None" by (metis node.distinct(1) not_None_eq symlink_metadata_file sum.inject(2))
    with assms n Directory show ?thesis by (auto simp: gc_entry_def Let_def res_bind_Inr_iff split: if_splits)
  next
    case LinkNode
    with assms n show ?thesis by (simp add: gc_entry_def Let_def)
  qed
qed

lemma file_listed: "file_at d p = Some bs \<Longrightarrow> p \<in> fst ` set (disk_nodes d)"
  by (auto simp: file_at_iff open_file_iff node_at_def dest: map_of_SomeD intro: rev_image_eqI)

lemma gc_stores_set:
  assumes "gc_stores d R = Inr cs"
  shows "set cs = {(p, length bs) | p bs. file_at d p = Some bs \<and> in_store p \<and> p \<notin> R}"
proof -
  let ?walk = "\<lambda>(store, suffix). res_bind (try_map (gc_entry d R store suffix) (walk_directory d store)) (\<lambda>found. Inr (concat found))"
  from assms obtain found where f: "try_map ?walk inventory_stores = Inr found" "set cs = set (concat found)"
    by (auto simp: gc_stores_def res_bind_Inr_iff)
  have w: "(case ?walk (store, suffix) of Inr ys \<Rightarrow> set ys | Inl _ \<Rightarrow> {})
      = {(p, length bs) | p bs. file_at d p = Some bs \<and> p \<notin> R \<and> length store < length p \<and> take (length store) p = store}"
    if "(store, suffix) \<in> set inventory_stores" for store suffix
  proof -
    from try_map_each [OF f(1) that] obtain ys where ys: "?walk (store, suffix) = Inr ys" by blast
    then obtain yss where t: "try_map (gc_entry d R store suffix) (walk_directory d store) = Inr yss" "ys = concat yss"
      by (auto simp: res_bind_Inr_iff)
    have e: "gc_entry d R store suffix q = Inr zs \<Longrightarrow> set zs = {(p, length bs) | p bs. p = q \<and> file_at d p = Some bs \<and> p \<notin> R}" for q zs
      by (rule gc_entry_set)
    have ok: "\<exists>zs. gc_entry d R store suffix q = Inr zs" if "q \<in> set (walk_directory d store)" for q
      using try_map_each [OF t(1) that] .
    have "set ys = (\<Union>q \<in> set (walk_directory d store). {(p, length bs) | p bs. p = q \<and> file_at d p = Some bs \<and> p \<notin> R})"
      unfolding t(2) try_map_concat_set [OF t(1)]
    proof (intro SUP_cong refl)
      fix q assume "q \<in> set (walk_directory d store)"
      from ok [OF this] obtain zs where "gc_entry d R store suffix q = Inr zs" by blast
      with e show "(case gc_entry d R store suffix q of Inl x \<Rightarrow> {} | Inr ys \<Rightarrow> set ys)
          = {(p, length bs) | p bs. p = q \<and> file_at d p = Some bs \<and> p \<notin> R}" by simp
    qed
    also have "\<dots> = {(p, length bs) | p bs. file_at d p = Some bs \<and> p \<notin> R
        \<and> length store < length p \<and> take (length store) p = store}"
    proof -
      have "p \<in> set (walk_directory d store) \<longleftrightarrow> length store < length p \<and> take (length store) p = store"
        if "file_at d p = Some bs" for p bs
        using file_listed [OF that] by (auto simp: walk_directory_def)
      then show ?thesis by blast
    qed
    finally show ?thesis unfolding ys by simp
  qed
  have "set cs = (\<Union>y \<in> set inventory_stores. {(p, length bs) | p bs. file_at d p = Some bs \<and> p \<notin> R
      \<and> length (fst y) < length p \<and> take (length (fst y)) p = fst y})"
    unfolding f(2) try_map_concat_set [OF f(1)]
    by (intro SUP_cong refl) (simp only: w split_paired_all fst_conv)
  then show ?thesis unfolding in_store_def by auto
qed

lemma gc_exact:
  assumes "inventory_holds x pid d h S" "inventory_gc_candidates x pid d = (Inr cs, d')"
  shows "set cs = {(p, length bs) | p bs. file_at d p = Some bs \<and> in_store p \<and> p \<notin> inventory_needs x pid d h}"
    and "file_at d' = file_at d"
proof -
  from assms(2) obtain h1 d1 root d2 R d3 R' where
    h1: "inventory_head_of x pid d = (Inr h1, d1)" and root: "load_counted_root x pid (head_state h1) d1 = (Inr root, d2)"
    and R: "reachable_states x pid {} {} h1 d2 = (Inr R, d3)"
    and R': "st_fold (reachable_leaf x pid) (insert (inventory_set_root_path (state_set_root (head_state h1))) R)
         (enumerate 0 (root_leaves root)) d3 = (Inr R', d')"
    and g: "gc_stores d' R' = Inr cs"
    by (auto simp: inventory_gc_candidates_def st_bind_Inr_iff)
  have "h1 = h" using head_at_unique [OF head_of_sound [OF h1]] assms(1) by (simp add: inventory_holds_def)
  note C = counted_root_at [OF root]
  have f1: "file_at d1 = file_at d" "file_at d2 = file_at d" using head_of_moves [OF h1] C by simp_all
  have r: "set_root_at x pid d (state_set_root (head_state h)) = Some root"
    using C \<open>h1 = h\<close> unfolding value_at_same_files [OF f1(1)] by simp
  note RR = reachable_states_spec [OF R, unfolded lineage_same_files [OF f1(2)] \<open>h1 = h\<close>]
  note LL = reachable_leaves_spec [OF R' [unfolded enumerate_eq_zip]]
  show f: "file_at d' = file_at d" using RR LL f1 by simp
  have "R' = inventory_needs x pid d h"
    using RR LL r \<open>h1 = h\<close> unfolding inventory_needs_def by auto
  then show "set cs = {(p, length bs) | p bs. file_at d p = Some bs \<and> in_store p \<and> p \<notin> inventory_needs x pid d h}"
    using gc_stores_set [OF g] f by simp
qed

text \<open>Deleting regular files.\<close>

definition remove_files :: "path set \<Rightarrow> disk \<Rightarrow> disk" where
  "remove_files ps d = d\<lparr>disk_nodes := filter (\<lambda>(p, _). p \<notin> ps) (disk_nodes d)\<rparr>"

lemma file_at_remove:
  assumes "\<forall>p \<in> ps. \<exists>bs. file_at d p = Some bs"
  shows "file_at (remove_files ps d) p = (if p \<in> ps then None else file_at d p)"
proof -
  have n: "node_at (remove_files ps d) q = (if q \<in> ps then None else node_at d q)" for q
  proof -
    have "map_of (filter (\<lambda>(p, _). p \<notin> ps) ns) q = (if q \<in> ps then None else map_of ns q)" for ns :: "(path \<times> node) list"
      by (induction ns) auto
    then show ?thesis by (simp add: node_at_def remove_files_def)
  qed
  have f: "q \<in> ps \<Longrightarrow> node_at d q \<noteq> Some Directory" for q
    using assms by (fastforce simp: file_at_iff open_file_iff)
  have iff: "file_at (remove_files ps d) p = Some bs \<longleftrightarrow> p \<notin> ps \<and> file_at d p = Some bs" for bs
    unfolding file_at_iff open_file_iff n using f by auto
  show ?thesis using iff by (metis not_None_eq)
qed

lemma needed_not_head: "\<not> in_store inventory_head_path"
  by (auto simp: in_store_def inventory_stores_def inventory_root_def inventory_head_path_def)

lemma gc_preserves:
  assumes holds: "inventory_holds x pid d h S" and gc: "inventory_gc_candidates x pid d = (Inr cs, d')"
  shows "inventory_holds x pid (remove_files (fst ` set cs) d') h S"
    and "lineage x pid d h a \<Longrightarrow> state_at x pid (remove_files (fst ` set cs) d') (head_id a) = Some a"
proof -
  let ?d = "remove_files (fst ` set cs) d'"
  note E = gc_exact [OF holds gc]
  have files: "\<forall>p \<in> fst ` set cs. \<exists>bs. file_at d' p = Some bs" using E by auto
  have gone: "file_at ?d p = (if p \<in> fst ` set cs then None else file_at d p)" for p
    using file_at_remove [OF files] E(2) by simp
  have need: "file_at ?d p = file_at d p" if "p \<in> inventory_needs x pid d h \<or> \<not> in_store p" for p
    unfolding gone using that E(1) by auto
  have head: "file_at ?d inventory_head_path = file_at d inventory_head_path" using need needed_not_head by blast
  have at: "state_at x pid d (head_id h) = Some h" using holds by (simp add: inventory_holds_def head_at_def)
  have st: "state_at x pid ?d (head_id a) = Some a" if "lineage x pid d h a" for a
  proof -
    have "file_at ?d (inventory_state_path (head_id a)) = file_at d (inventory_state_path (head_id a))"
      using need that unfolding inventory_needs_def by blast
    then show ?thesis using lineage_at [OF that at] by (simp add: value_at_def)
  qed
  then show "lineage x pid d h a \<Longrightarrow> state_at x pid ?d (head_id a) = Some a" .
  have "head_at x pid ?d h" using holds head st [OF lineage.self] by (simp add: inventory_holds_def head_at_def)
  moreover have "holds_set x pid ?d (head_state h) S"
  proof -
    from holds obtain root where r: "set_root_at x pid d (state_set_root (head_state h)) = Some root"
      "root_count root = state_count (head_state h)" "holds_slots x pid d root S"
      by (auto simp: inventory_holds_def holds_set_def)
    have "file_at ?d (inventory_set_root_path (state_set_root (head_state h)))
        = file_at d (inventory_set_root_path (state_set_root (head_state h)))"
      using need unfolding inventory_needs_def by blast
    then have "set_root_at x pid ?d (state_set_root (head_state h)) = Some root"
      using r(1) by (simp add: value_at_def)
    moreover have "slot_ids x pid ?d root k = slot_ids x pid d root k" if "k < 256" for k
    proof (cases "root_leaves root ! k")
      case (Some ref)
      then have "Some ref \<in> set (root_leaves root)"
        using that set_root_at_typed [OF r(1)] by (metis nth_mem set_root_typed_def)
      then have "file_at ?d (inventory_set_leaf_path (leaf_ref_id ref)) = file_at d (inventory_set_leaf_path (leaf_ref_id ref))"
        using need r(1) unfolding inventory_needs_def by blast
      then show ?thesis using Some by (simp add: slot_ids_def value_at_def)
    qed (simp add: slot_ids_def)
    then have "holds_slots x pid ?d root S" using r(3) unfolding holds_slots_def by (simp cong: conj_cong)
    ultimately show ?thesis using r(2) unfolding holds_set_def by blast
  qed
  ultimately show "inventory_holds x pid ?d h S" by (simp add: inventory_holds_def)
qed

text \<open>C25: the candidates for garbage collection are exactly the stored states, set roots and set
  leaves that the inventory does not need, each with its size. Finding them changes no file, and
  deleting all of them leaves the head, the set it stands for and every state of its lineage.\<close>

theorem gc_sweeps_garbage:
  assumes "inventory_holds x pid d h S" "inventory_gc_candidates x pid d = (Inr cs, d')"
  shows "set cs = {(p, length bs) | p bs. file_at d p = Some bs \<and> in_store p \<and> p \<notin> inventory_needs x pid d h}
    \<and> file_at d' = file_at d
    \<and> inventory_holds x pid (remove_files (fst ` set cs) d') h S
    \<and> {a. lineage x pid d h a} \<subseteq> {a. state_at x pid (remove_files (fst ` set cs) d') (head_id a) = Some a}"
  using gc_exact [OF assms] gc_preserves [OF assms] by auto

end
