(* ===== verification/InventoryInit.thy ===== *)
theory InventoryInit
  imports InventoryGc
begin

text \<open>
  The first state of an inventory, and when it can be made.
\<close>

section \<open>The first state\<close>

definition empty_root :: "project_id \<Rightarrow> set_root" where
  "empty_root pid = \<lparr>root_project = pid, root_count = 0, root_leaves = replicate 256 None\<rparr>"

lemma empty_root_typed: "project_id_valid pid \<Longrightarrow> set_root_typed (empty_root pid)"
  by (auto simp: empty_root_def set_root_typed_def slot_ok_def)

lemma empty_root_slots: "holds_slots x pid d (empty_root pid) {}"
  by (auto simp: holds_slots_def empty_root_def slot_ids_def intro!: exI [of _ "\<lambda>_. []"])

lemma initial_state_ok:
  "project_id_valid pid \<Longrightarrow> object_id_valid rid \<Longrightarrow>
   state_typed (initial_state pid rid) \<and> valid_shape (initial_state pid rid)"
  by (simp add: initial_state_def state_typed_def valid_shape_def)

lemma create_directory_nodes:
  assumes "create_directory p d = (r, d')"
  shows "file_at d q = Some bs \<Longrightarrow> file_at d' q = Some bs"
    and "node_at d' q = Some (RegularFile bs) \<Longrightarrow> node_at d q = Some (RegularFile bs)"
proof -
  have "(file_at d q = Some bs \<longrightarrow> file_at d' q = Some bs)
      \<and> (node_at d' q = Some (RegularFile bs) \<longrightarrow> node_at d q = Some (RegularFile bs))"
  proof (cases "d' = tick d")
    case False
    with assms obtain nodes where n: "make_directories (parents p @ [p]) (disk_nodes d) = Inr nodes" "disk_nodes d' = nodes"
      by (auto simp: create_directory_def split: if_splits sum.splits)
    have m: "node_at d' r = (if node_at d r = None \<and> r \<in> set (parents p @ [p]) then Some Directory else node_at d r)" for r
      using map_of_make_directories [OF n(1), of r] n(2) by (simp add: node_at_def)
    show ?thesis by (auto simp: file_at_iff open_file_iff m split: if_splits)
  qed (auto simp: file_at_iff open_file_iff)
  then show "file_at d q = Some bs \<Longrightarrow> file_at d' q = Some bs"
    and "node_at d' q = Some (RegularFile bs) \<Longrightarrow> node_at d q = Some (RegularFile bs)" by blast+
qed

definition no_head :: "disk \<Rightarrow> bool" where
  "no_head d \<longleftrightarrow> (\<forall>bs. node_at d inventory_head_path \<noteq> Some (RegularFile bs))"

lemma no_head_file: "no_head d \<Longrightarrow> file_at d inventory_head_path \<noteq> Some bs"
  by (auto simp: no_head_def file_at_iff open_file_iff)

lemma no_head_tick [simp]: "no_head (tick d) = no_head d"
  by (simp add: no_head_def)

lemma write_no_head:
  assumes "write_bytes_atomic p bs d = (r, d')" "p \<noteq> inventory_head_path" "no_head d"
  shows "no_head d'"
proof (cases "d' = tick d")
  case False
  with write_nodes [OF assms(1)] have "node_at d' inventory_head_path =
      (if inventory_head_path = p then Some (RegularFile bs)
       else if node_at d inventory_head_path = None \<and> inventory_head_path \<in> set (parents p) then Some Directory
       else node_at d inventory_head_path)" by blast
  with assms(2,3) show ?thesis by (auto simp: no_head_def)
qed (use assms in simp)

lemma store_no_head:
  assumes "store_content_addressed_bytes p bs d = (r, d')" "p \<noteq> inventory_head_path" "no_head d"
  shows "no_head d'"
  using assms write_no_head [OF _ assms(2,3)] unfolding store_content_addressed_bytes_def
  by (auto split: if_splits)

lemma stores_no_head:
  "store_state x s d = (r, d') \<Longrightarrow> no_head d \<Longrightarrow> no_head d'"
  "store_set_root x root d = (r, d') \<Longrightarrow> no_head d \<Longrightarrow> no_head d'"
  unfolding store_state_def store_set_root_def Let_def
  by (auto simp: st_lift_iff elim!: st_bindE dest!: store_no_head)

lemma create_directories_spec:
  assumes "st_fold (\<lambda>_ p. create_directory p) u ps d = (r, d')"
  shows "(no_head d \<longrightarrow> no_head d') \<and> (\<forall>q bs. file_at d q = Some bs \<longrightarrow> file_at d' q = Some bs)"
  using assms
proof (induction ps arbitrary: u d)
  case (Cons p ps)
  obtain r1 d1 where c: "create_directory p d = (r1, d1)" by fastforce
  have 1: "(no_head d \<longrightarrow> no_head d1) \<and> (\<forall>q bs. file_at d q = Some bs \<longrightarrow> file_at d1 q = Some bs)"
    using create_directory_nodes [OF c] by (auto simp: no_head_def)
  show ?case
  proof (cases r1)
    case (Inr v)
    with Cons.prems c have "st_fold (\<lambda>_ p. create_directory p) v ps d1 = (r, d')" by simp
    with Cons.IH 1 show ?thesis by blast
  qed (use Cons.prems c 1 in auto)
qed auto

text \<open>The two outcomes of making the first state, whatever faults the disk has.\<close>

lemma initialize_outcome:
  assumes i: "initialize_snapshot_inventory x pid d = (r, d')"
    and fresh: "no_head d" and pid: "project_id_valid pid"
  shows "no_head d' \<and> r \<noteq> Inr ()
    \<or> (\<exists>rid sid. inventory_holds x pid d' \<lparr>head_id = sid, head_state = initial_state pid rid\<rparr> {})"
proof (cases "open_file d inventory_head_path = Inl (Io inventory_head_path NotFound)
    \<or> (\<exists>q. open_file d inventory_head_path = Inl (Io q NotFound))")
  case False
  have "open_file d inventory_head_path \<noteq> Inr bs" for bs
    using no_head_file [OF fresh, of bs] by (simp add: file_at_iff)
  then obtain e where e: "open_file d inventory_head_path = Inl e" by (cases "open_file d inventory_head_path") auto
  with False i have "d' = d \<and> r = Inl e"
    by (auto simp: initialize_snapshot_inventory_def split: checkpo_error.splits io_error_kind.splits)
  with fresh show ?thesis by simp
next
  case True
  then obtain q where q: "open_file d inventory_head_path = Inl (Io q NotFound)" by blast
  from i have "st_bind (require_empty_directory snapshots_dir) (\<lambda>_.
          st_bind (st_fold (\<lambda>_ p. create_directory p) () inventory_directories) (\<lambda>_.
          st_bind (store_set_root x (empty_root pid)) (\<lambda>set_root.
          st_bind (store_state x (initial_state pid set_root)) (\<lambda>i.
          write_head i)))) d = (r, d')"
    by (simp add: initialize_snapshot_inventory_def q empty_root_def)
  then show ?thesis
  proof (elim st_bindE)
    fix u d1 v d2 rid d3 sid d4
    assume e: "require_empty_directory snapshots_dir d = (Inr u, d1)"
      and c: "st_fold (\<lambda>_ p. create_directory p) () inventory_directories d1 = (Inr v, d2)"
      and s: "store_set_root x (empty_root pid) d2 = (Inr rid, d3)"
        "store_state x (initial_state pid rid) d3 = (Inr sid, d4)" and w: "write_head sid d4 = (r, d')"
    have "d1 = d" using e by (simp add: require_empty_directory_def)
    then have n: "no_head d4" using fresh create_directories_spec [OF c] stores_no_head s by blast
    note R = store_set_root_at [OF s(1) empty_root_typed [OF pid], unfolded empty_root_def set_root.simps, folded empty_root_def]
    have rv: "object_id_valid rid" using s(1) content_id_valid unfolding stored_iff set_root_id_def by blast
    note S = store_state_at [OF s(2) conjunct1 [OF initial_state_ok [OF pid rv]] conjunct2 [OF initial_state_ok [OF pid rv]]]
    have sv: "object_id_valid sid" using S(3) content_id_valid unfolding state_id_def by blast
    from w [unfolded write_head_def] show ?thesis
    proof (cases rule: write_cases)
      case (unchanged e)
      then show ?thesis using n by simp
    next
      case written
      have "state_project (initial_state pid rid) = pid" by (simp add: initial_state_def)
      with S(1) have "state_at x pid d4 sid = Some \<lparr>head_id = sid, head_state = initial_state pid rid\<rparr>" by simp
      then have "state_at x pid d' sid = Some \<lparr>head_id = sid, head_state = initial_state pid rid\<rparr>"
        using written(2) by (auto simp: value_at_Some_iff files_kept_def)
      moreover have "set_root_at x pid d' rid = Some (empty_root pid)"
        using R(1) S(2) written(2) by (auto simp: value_at_Some_iff files_kept_def)
      ultimately have "inventory_holds x pid d' \<lparr>head_id = sid, head_state = initial_state pid rid\<rparr> {}"
        using written(1) parse_head_str [OF sv] empty_root_slots
        by (auto simp: inventory_holds_def head_at_def holds_set_def initial_state_def empty_root_def)
      then show ?thesis by blast
    qed
  qed (use fresh in \<open>auto simp: require_empty_directory_def dest!: create_directories_spec stores_no_head\<close>)
qed

text \<open>C22: making the first state is atomic: whatever faults the disk has, a repository without
  a head afterwards has still none, and the call failed, or it has the inventory of the empty set.\<close>

theorem initialize_atomic:
  assumes i: "initialize_snapshot_inventory x pid d = (r, d')"
    and fresh: "no_head d" and pid: "project_id_valid pid"
  shows "no_head d' \<and> r \<noteq> Inr ()
    \<or> (\<exists>rid sid. inventory_holds x pid d' \<lparr>head_id = sid, head_state = initial_state pid rid\<rparr> {})"
  by (rule initialize_outcome [OF assms])

lemma create_directory_ok:
  assumes "faultless d" "\<forall>q \<in> set (parents p @ [p]). node_at d q \<in> {None, Some Directory}"
  obtains d' where "create_directory p d = (Inr (), d')" "faultless d'"
    "\<And>q. node_at d' q = (if node_at d q = None \<and> q \<in> set (parents p @ [p]) then Some Directory else node_at d q)"
proof -
  obtain nodes where n: "make_directories (parents p @ [p]) (disk_nodes d) = Inr nodes"
    using assms(2) by (auto simp: make_directories_spec node_at_def)
  show thesis
  proof (rule that)
    show "create_directory p d = (Inr (), (tick d)\<lparr>disk_nodes := nodes\<rparr>)"
      using n assms(1) by (simp add: create_directory_def)
    show "faultless ((tick d)\<lparr>disk_nodes := nodes\<rparr>)" using assms(1) by (simp add: faultless_def tick_def)
    show "node_at ((tick d)\<lparr>disk_nodes := nodes\<rparr>) q =
      (if node_at d q = None \<and> q \<in> set (parents p @ [p]) then Some Directory else node_at d q)" for q
      using map_of_make_directories [OF n, of q] by (simp add: node_at_def)
  qed
qed

text \<open>A place where directories can be made, apart from the files of the inventory.\<close>

definition creatable :: "disk \<Rightarrow> path \<Rightarrow> bool" where
  "creatable d p \<longleftrightarrow> (\<forall>q \<in> set (parents p @ [p]). node_at d q \<in> {None, Some Directory})"

lemma inventory_directory_apart:
  assumes "p \<in> set inventory_directories" "q \<in> inventory_paths"
  shows "q \<notin> set (parents p @ [p])"
proof
  assume "q \<in> set (parents p @ [p])"
  then have "\<exists>n. q = take n p" by (auto simp: parents_def intro: exI [of _ "length p"])
  then obtain n where "q = take n p" by blast
  moreover have "length p \<le> 4" "p ! 2 \<noteq> lit ''head''" "p ! 2 = lit ''states'' \<Longrightarrow> length p = 3" "3 \<le> length p"
    using assms(1) by (auto simp: inventory_directories_def inventory_root_def lit_def)
  moreover note inventory_path_length [OF assms(2)]
  ultimately show False by (auto simp: min_def split: if_splits)
qed

lemma create_directories_ok:
  assumes "faultless d" "\<forall>p \<in> set ps. creatable d p" "\<forall>q \<in> inventory_paths. writable d q"
    "set ps \<subseteq> set inventory_directories"
  shows "\<exists>d'. st_fold (\<lambda>_ p. create_directory p) () ps d = (Inr (), d') \<and> faultless d'
    \<and> (\<forall>q \<in> inventory_paths. writable d' q) \<and> (\<forall>q. node_at d q = Some Directory \<longrightarrow> node_at d' q = Some Directory)
    \<and> (\<forall>p \<in> set ps. open_directory d' p = Inr ())"
  using assms
proof (induction ps arbitrary: d)
  case (Cons p ps)
  then have cp: "\<forall>q \<in> set (parents p @ [p]). node_at d q \<in> {None, Some Directory}" by (simp add: creatable_def)
  obtain d1 where c: "create_directory p d = (Inr (), d1)" "faultless d1" and n: "\<And>q. node_at d1 q =
      (if node_at d q = None \<and> q \<in> set (parents p @ [p]) then Some Directory else node_at d q)"
    using create_directory_ok [OF Cons.prems(1) cp] by blast
  have "creatable d1 q" if "q \<in> set ps" for q
    using Cons.prems(2) that unfolding creatable_def n by simp
  moreover have "writable d1 q" if "q \<in> inventory_paths" for q
  proof -
    have "q \<notin> set (parents p @ [p])" using inventory_directory_apart that Cons.prems(4) by simp
    then have "node_at d1 q = node_at d q" by (simp add: n)
    then show ?thesis using Cons.prems(3) that unfolding writable_def n by (auto split: if_splits)
  qed
  ultimately obtain d' where d': "st_fold (\<lambda>_ p. create_directory p) () ps d1 = (Inr (), d')" "faultless d'"
    "\<forall>q \<in> inventory_paths. writable d' q" "\<forall>q. node_at d1 q = Some Directory \<longrightarrow> node_at d' q = Some Directory"
    "\<forall>p \<in> set ps. open_directory d' p = Inr ()"
    using Cons.IH [OF c(2)] Cons.prems(4) by auto
  have "node_at d' q = Some Directory" if "q \<in> set (parents p @ [p])" for q
    using d'(4) cp that n [of q] by (metis insert_iff singletonD)
  then have "open_directory d' p = Inr ()"
    by (simp add: open_directory_def res_bind_Inr_iff open_parents_iff open_directory_component_iff)
  with c d' n show ?case by auto
qed simp

text \<open>C23: in an empty repository whose inventory can be written, and without a fault, making the
  first state succeeds, and the repository then has an inventory: its head names the stored state
  of generation zero, without parent and operation, whose set is stored and empty.\<close>

theorem initialize_succeeds:
  assumes "faultless d" "no_head d" "hash_length x" "project_id_valid pid"
    "open_file d inventory_head_path = Inl (Io q NotFound)"
    "open_directory d snapshots_dir = Inr ()" "list_entry_names d snapshots_dir = []"
    "\<forall>p \<in> set inventory_directories. creatable d p" "\<forall>p \<in> inventory_paths. writable d p"
  shows "\<exists>d' rid sid. initialize_snapshot_inventory x pid d = (Inr (), d')
    \<and> inventory_holds x pid d' \<lparr>head_id = sid, head_state = initial_state pid rid\<rparr> {}
    \<and> file_at d' inventory_head_path = Some (object_as_str sid @ [0x0A]) \<and> inventory_ready d'"
proof -
  have e: "require_empty_directory snapshots_dir d = (Inr (), d)"
    using assms(6,7) by (simp add: require_empty_directory_def)
  from create_directories_ok [OF assms(1,8,9)] obtain d1 where
    c: "st_fold (\<lambda>_ p. create_directory p) () inventory_directories d = (Inr (), d1)" and r1: "inventory_ready d1"
    by (auto simp: inventory_ready_def try_all_Inr_iff)
  obtain rbs where "encode_set_root (empty_root pid) = Inr rbs" by (simp add: encode_set_root_def empty_root_def)
  then obtain rid d2 where s: "store_set_root x (empty_root pid) d1 = (Inr rid, d2)" "inventory_ready d2"
    using ready_stores(2) [OF r1 assms(3)] by blast
  obtain sid d3 where t: "store_state x (initial_state pid rid) d2 = (Inr sid, d3)" "inventory_ready d3"
    using ready_stores(1) [OF s(2) assms(3)] by blast
  obtain d4 where w: "write_bytes_atomic inventory_head_path (object_as_str sid @ [0x0A]) d3 = (Inr (), d4)" "inventory_ready d4"
    by (rule ready_write [OF t(2) inventory_paths_simps(1)])
  have i: "initialize_snapshot_inventory x pid d = (Inr (), d4)"
    unfolding initialize_snapshot_inventory_def assms(5)
    using e c s t w by (simp add: st_bind_Inr_iff write_head_def empty_root_def [symmetric])
  from initialize_outcome [OF i assms(2,4)] obtain rid' sid' where
    h: "inventory_holds x pid d4 \<lparr>head_id = sid', head_state = initial_state pid rid'\<rparr> {}" by blast
  have f: "file_at d4 inventory_head_path = Some (object_as_str sid @ [0x0A])"
    using write_ok [OF w(1)] by simp
  have "object_id_valid sid" using t(1) content_id_valid unfolding stored_iff state_id_def by blast
  with h f have "sid' = sid" using parse_head_str by (auto simp: inventory_holds_def head_at_def)
  with h f w(2) i show ?thesis by blast
qed

end
