(* ===== verification/InventoryReplay.thy ===== *)
theory InventoryReplay
  imports InventoryProgress
begin

text \<open>
  A transition that was made can be run again: it finds its own state at the head and succeeds, so a
  caller that crashed after the commit repeats it safely.
\<close>

section \<open>Replaying a transition\<close>

lemma replay_stores:
  assumes "inventory_ready e" "hash_length x"
  shows "store_set_root x root d = (Inr rid, d') \<Longrightarrow> \<exists>e'. store_set_root x root e = (Inr rid, e') \<and> inventory_ready e'"
    and "store_leaf_ref x leaf d = (Inr r, d') \<Longrightarrow> \<exists>e'. store_leaf_ref x leaf e = (Inr r, e') \<and> inventory_ready e'"
proof -
  assume "store_set_root x root d = (Inr rid, d')"
  then obtain bs where b: "encode_set_root root = Inr bs" "set_root_id (blake3 x) bs = Inr rid" by (auto simp: stored_iff)
  from ready_stores(2) [OF assms b(1)] obtain i e' where "store_set_root x root e = (Inr i, e')" "inventory_ready e'" by blast
  with b show "\<exists>e'. store_set_root x root e = (Inr rid, e') \<and> inventory_ready e'" by (auto simp: stored_iff)
next
  assume s: "store_leaf_ref x leaf d = (Inr r, d')"
  show "\<exists>e'. store_leaf_ref x leaf e = (Inr r, e') \<and> inventory_ready e'"
  proof (cases "leaf_ids leaf = []")
    case True
    with s assms(1) show ?thesis by (auto simp: store_leaf_ref_def st_lift_iff)
  next
    case False
    with s obtain i bs where b: "encode_set_leaf leaf = Inr bs" "set_leaf_id (blake3 x) bs = Inr i"
      "length (leaf_ids leaf) < 2 ^ 32" "r = Some \<lparr>leaf_ref_id = i, leaf_ref_count = word_of_nat (length (leaf_ids leaf))\<rparr>"
      by (auto simp: store_leaf_ref_def st_bind_Inr_iff st_lift_iff stored_iff split: if_splits)
    from ready_stores(3) [OF assms b(1)] obtain j e' where "store_set_leaf x leaf e = (Inr j, e')" "inventory_ready e'" by blast
    with b have "store_set_leaf x leaf e = (Inr i, e')" "inventory_ready e'" by (auto simp: stored_iff)
    with False b show ?thesis
      by (intro exI [of _ e']) (simp add: store_leaf_ref_def st_bind_Inr_iff st_lift_Inr_iff)
  qed
qed

lemma mutate_set_replay:
  assumes m: "mutate_set x pid s operation i d = (Inr (rid, count), d')"
    and later: "evolves x d e" "no_collision x d e"
    and ready: "inventory_ready e" and hash: "hash_length x"
  obtains e' where "mutate_set x pid s operation i e = (Inr (rid, count), e')" "inventory_ready e'"
proof -
  let ?p = "snapshot_digest_bytes i ! 0"
  from m obtain root leaf ids r d0 d2 where
    root: "set_root_at x pid d (state_set_root s) = Some root" "root_count root = state_count s"
    and slot: "slot_ids x pid d root (unat ?p) = Some (leaf_ids leaf)"
    and leaf: "leaf_project leaf = pid" "leaf_id_prefix leaf = ?p"
    and ids: "mutate_ids operation i (leaf_ids leaf) = Inr ids"
    and cnt: "mutate_count operation (state_count s) = Inr count"
    and sl: "store_leaf_ref x (leaf\<lparr>leaf_ids := ids\<rparr>) d0 = (Inr r, d2)"
    and sr: "store_set_root x (root\<lparr>root_count := count, root_leaves := (root_leaves root)[unat ?p := r]\<rparr>) d2 = (Inr rid, d')"
    by (rule mutate_setE)
  have f: "faultless e" using ready by (simp add: inventory_ready_def)
  note l1 = counted_complete(1) [OF f evolves_values(2) [OF later root(1)] root(2)]
  have slot': "slot_ids x pid (tick e) root (unat ?p) = Some (leaf_ids leaf)"
    using slot_ids_same [OF refl evolves_values(3) [OF later] slot] by simp
  obtain leaf' e1 where l2: "(case root_leaves root ! unat ?p of
         Some reference \<Rightarrow> load_counted_leaf x pid reference ?p
       | None \<Rightarrow> st_lift (Inr \<lparr>leaf_project = pid, leaf_id_prefix = ?p, leaf_ids = []\<rparr>)) (tick e) = (Inr leaf', e1)"
    and e1: "inventory_ready e1" and leaf': "leaf_ids leaf' = leaf_ids leaf" "leaf_project leaf' = pid" "leaf_id_prefix leaf' = ?p"
    by (rule slot_leaf_complete [OF ready_tick [OF ready] slot'])
  have "leaf' = leaf" using leaf leaf' by (simp add: set_leaf.equality)
  from replay_stores(2) [OF e1 hash sl] obtain e2 where
    l3: "store_leaf_ref x (leaf\<lparr>leaf_ids := ids\<rparr>) e1 = (Inr r, e2)" "inventory_ready e2" by blast
  from replay_stores(1) [OF l3(2) hash sr] obtain e3 where
    l4: "store_set_root x (root\<lparr>root_count := count, root_leaves := (root_leaves root)[unat ?p := r]\<rparr>) e2 = (Inr rid, e3)"
    "inventory_ready e3" by blast
  show thesis
  proof (rule that [OF _ l4(2)])
    show "mutate_set x pid s operation i e = (Inr (rid, count), e3)"
      unfolding mutate_set_def Let_def st_bind_Inr_iff st_lift_Inr_iff
      using l1 l2 ids cnt l3(1) l4(1) \<open>leaf' = leaf\<close> by blast
  qed
qed

lemma transition_committed:
  assumes t: "transition_inventory x pid operation i e operation_id d = (Inr s, d')"
    and holds: "inventory_holds x pid d h S"
    and hash: "hash_length x" "hash_sound x d d'" "inventory_operation_id (blake3 x) operation_id \<noteq> zeros"
    and i: "snapshot_id_valid i" "slot_room i S"
  obtains expected d0 rid count d1 g h' where
    "state_at x pid d (head_id expected) = Some expected" "object_as_str (head_id expected) = e"
    "file_at d0 = file_at d" "mutate_set x pid (head_state expected) operation i d0 = (Inr (rid, count), d1)"
    "unat g = unat (state_generation (head_state expected)) + 1"
    "head_at x pid d' h'" "s = object_as_str (head_id h')"
    "head_state h' = next_state x pid operation i operation_id (head_id expected) g (rid, count)"
    "evolves x d d'"
  using t
proof (cases rule: transition_cases)
  case early
  then show ?thesis by blast
next
  case (commit expected d0 rid count d1 g)
  let ?s = "next_state x pid operation i operation_id (head_id expected) g (rid, count)"
  have M: "evolves x d d1"
    using mutate_set_evolves [OF commit(4)] commit(3) by (auto simp: evolves_def)
  note found = that [OF commit(1-5)]
  from commit(6) show ?thesis
  proof (cases rule: commit_cases)
    case before
    obtain h' where "head_at x pid d' h'" "s = object_as_str (head_id h')" "head_state h' = ?s"
      using before(2) [OF refl] by blast
    moreover have "evolves x d d'" using before(1) M evolves_trans unfolding kept_def by blast
    ultimately show ?thesis by (rule found)
  next
    case (written cur sid d3 d4 d5 w d6)
    have w: "w = Inr ()" "s = object_as_str sid" using written(8) [OF refl] by simp_all
    note wr = write_ok [OF written(6) [unfolded write_head_def w]]
    note W = commit_written [OF holds commit(1,3,4,5) written(1,2,3,4,5,7) conjunct1 [OF wr] conjunct2 [OF wr] hash i]
    have "kept x d1 d5" using kept_trans [OF same_files_kept [OF written(3)] store_state_kept [OF written(4)]]
        kept_trans same_files_kept [OF written(5)] by blast
    then have "evolves x d1 d'" using wr written(7) unfolding kept_def evolves_def files_kept_def by metis
    then have "evolves x d d'" using M evolves_trans by blast
    moreover have "head_at x pid d' \<lparr>head_id = sid, head_state = ?s\<rparr>" using W(3) by (simp add: inventory_holds_def)
    ultimately show ?thesis using w(2) by (intro found [of "\<lparr>head_id = sid, head_state = ?s\<rparr>"]) simp_all
  qed
qed

theorem transition_replay:
  assumes t: "transition_inventory x pid operation i e operation_id d = (Inr s, d')"
    and holds: "inventory_holds x pid d h S"
    and hash: "hash_length x" "hash_sound x d d'" "inventory_operation_id (blake3 x) operation_id \<noteq> zeros"
    and i: "snapshot_id_valid i" "slot_room i S" "operation_id \<noteq> []"
    and ready: "inventory_ready d'"
  shows "\<exists>h' d''. transition_inventory x pid operation i e operation_id d' = (Inr s, d'')
     \<and> head_at x pid d' h' \<and> head_at x pid d'' h'"
proof -
  obtain expected d0 rid count d1 g h' where c:
    "state_at x pid d (head_id expected) = Some expected" "object_as_str (head_id expected) = e"
    "file_at d0 = file_at d" "mutate_set x pid (head_state expected) operation i d0 = (Inr (rid, count), d1)"
    "unat g = unat (state_generation (head_state expected)) + 1"
    "head_at x pid d' h'" "s = object_as_str (head_id h')"
    "head_state h' = next_state x pid operation i operation_id (head_id expected) g (rid, count)"
    "evolves x d d'"
    by (rule transition_committed [OF t holds hash i(1,2)])
  let ?s = "next_state x pid operation i operation_id (head_id expected) g (rid, count)"
  have nc: "no_collision x d d'" "no_collision x d0 d'" "evolves x d0 d'"
    using hash(2) c(3,9) by (simp_all add: hash_sound_def no_collision_def evolves_def)
  have tk: "tick d' = d'" using ready by (simp add: inventory_ready_def faultless_def tick_def)
  note at = evolves_values(1) [OF c(9) nc(1) c(1)]
  have "object_id_valid (head_id expected)"
    using at content_id_valid by (auto simp: value_at_Some_iff check_state_iff state_id_def)
  then have p: "object_id_parse e = Inr (head_id expected)"
    unfolding c(2) [symmetric] by (auto simp: object_id_valid_def object_id_parse_def res_bind_Inr_iff object_id.expand)
  have l: "load_state x (head_id expected) pid d' = (Inr expected, d')"
    using load_state_complete [OF _ at] ready tk by (simp add: inventory_ready_def)
  obtain e1 where m: "mutate_set x pid (head_state expected) operation i d' = (Inr (rid, count), e1)" "inventory_ready e1"
    by (rule mutate_set_replay [OF c(4) nc(3,2) ready hash(1)])
  have g: "checked_add (state_generation (head_state expected)) 1 = Some g"
    using c(5) checked_add_Some_iff [of "state_generation (head_state expected)" 1 g] by simp
  have h1: "head_at x pid e1 h'"
    using head_at_states_kept [OF c(6)] mutate_set_evolves [OF m(1)] mutate_set_states_kept [OF m(1)] by blast
  obtain e2 where h2: "inventory_head_of x pid e1 = (Inr h', e2)" "file_at e2 = file_at e1"
    by (rule head_of_complete [OF m(2) h1])
  have "state_id (blake3 x) (encode_state ?s) = Inr (head_id h')"
    using c(6,8) by (auto simp: head_at_def value_at_Some_iff check_state_iff)
  then have "commit_state x pid (head_id expected) ?s e1 = (Inr s, e2)"
    using h2(1) c(7,8) by (simp add: commit_state_def st_bind_Inr_iff st_lift_Inr_iff)
  then have "transition_inventory x pid operation i e operation_id d' = (Inr s, e2)"
    unfolding transition_inventory_def st_bind_Inr_iff st_lift_Inr_iff if_not_P [OF i(3)]
    using p l m(1) g by auto
  then show ?thesis using c(6) h1 head_at_same_files [OF h2(2)] by blast
qed

end
