(* ===== verification/SnapshotListing.thy ===== *)
theory SnapshotListing
  imports SnapshotStore
begin

text \<open>
  The listing of the snapshots is the set of ids with a root file at their path.
\<close>

section \<open>Listing the snapshots\<close>

lemma snapshot_id_parse_valid: "snapshot_id_parse s = Inr i \<longleftrightarrow> snapshot_id_valid i \<and> snapshot_as_str i = s"
  by (auto simp: snapshot_id_valid_def snapshot_id_parse_def res_bind_Inr_iff snapshot_id.expand)

lemma list_entry_names_iff: "name \<in> set (list_entry_names d p) \<longleftrightarrow> node_at d (p @ [name]) \<noteq> None"
proof -
  have "name \<in> set (list_entry_names d p) \<longleftrightarrow> p @ [name] \<in> fst ` set (disk_nodes d)"
  proof
    assume "name \<in> set (list_entry_names d p)"
    then show "p @ [name] \<in> fst ` set (disk_nodes d)"
      by (auto simp: list_entry_names_def) (metis append_butlast_last_id fst_conv image_eqI)
  next
    assume "p @ [name] \<in> fst ` set (disk_nodes d)"
    then show "name \<in> set (list_entry_names d p)"
      by (auto simp: list_entry_names_def intro!: image_eqI [of _ _ "p @ [name]"])
  qed
  then show ?thesis by (simp add: node_at_def map_of_eq_None_iff)
qed

lemma strip_suffix_append [simp]: "strip_suffix p (s @ p) = Some s"
  by simp

lemma snapshot_shards:
  assumes "snapshot_id_valid i"
  shows "is_lower_hex_shard (take 2 (snapshot_as_str i))" "is_lower_hex_shard (take 2 (drop 2 (snapshot_as_str i)))"
proof -
  have h: "is_lowercase_hex (snapshot_as_str i) (2 * 32)"
    using assms by (auto simp: snapshot_id_valid_def snapshot_id_parse_def res_bind_Inr_iff validate_lower_hex_id_iff)
  have "\<forall>b \<in> set (snapshot_as_str i). 0x30 \<le> b \<and> b \<le> 0x39 \<or> 0x61 \<le> b \<and> b \<le> 0x66"
    using h by (auto simp: is_lowercase_hex_def is_lower_hex_digit_iff)
  moreover have "length (snapshot_as_str i) = 64" using h by (simp add: is_lowercase_hex_def)
  ultimately show "is_lower_hex_shard (take 2 (snapshot_as_str i))" "is_lower_hex_shard (take 2 (drop 2 (snapshot_as_str i)))"
    unfolding is_lower_hex_shard_def by (auto dest: in_set_takeD in_set_dropD)
qed

text \<open>The three levels of the listing.\<close>

lemma root_entry_set:
  assumes "snapshot_root_entry d a b dir name = Inr ids"
  shows "set ids = {i. snapshot_id_valid i \<and> name = snapshot_as_str i @ lit ''.root''
      \<and> a = take 2 (snapshot_as_str i) \<and> b = take 2 (drop 2 (snapshot_as_str i)) \<and> (\<exists>bs. file_at d (dir @ [name]) = Some bs)}"
proof -
  from assms obtain n where n: "symlink_metadata d (dir @ [name]) = Inr n" by (auto simp: snapshot_root_entry_def res_bind_Inr_iff)
  show ?thesis
  proof (cases n)
    case (RegularFile bs)
    with n have f: "file_at d (dir @ [name]) = Some bs" by (simp add: symlink_metadata_file)
    show ?thesis
    proof (cases "strip_suffix (lit ''.root'') name")
      case None
      then have "\<And>s. name \<noteq> s @ lit ''.root''" by (metis option.distinct(1) strip_suffix_Some_iff)
      with assms n RegularFile None show ?thesis by (auto simp: snapshot_root_entry_def)
    next
      case (Some stem)
      then have nm: "name = stem @ lit ''.root''" by simp
      show ?thesis
      proof (cases "snapshot_id_parse stem")
        case (Inl e)
        then have "\<not> (\<exists>i. snapshot_id_valid i \<and> stem = snapshot_as_str i)"
          by (metis snapshot_id_parse_valid sum.distinct(1))
        with assms n RegularFile Some Inl nm show ?thesis by (auto simp: snapshot_root_entry_def)
      next
        case (Inr i)
        then have i: "snapshot_id_valid i" "stem = snapshot_as_str i" by (auto simp: snapshot_id_parse_valid)
        have u: "snapshot_as_str i = snapshot_as_str j \<longleftrightarrow> j = i" for j by (auto simp: snapshot_id.expand)
        have "ids = (if a = take 2 stem \<and> b = take 2 (drop 2 stem) then [i] else [])"
          using assms n RegularFile Inr nm by (auto simp: snapshot_root_entry_def split: if_splits)
        with i f nm show ?thesis by (auto simp: u)
      qed
    qed
  next
    case Directory
    with n have "file_at d (dir @ [name]) = None" by (metis node.distinct(1) not_None_eq symlink_metadata_file sum.inject(2))
    with assms n Directory show ?thesis by (auto simp: snapshot_root_entry_def)
  next
    case LinkNode
    with assms n show ?thesis by (simp add: snapshot_root_entry_def)
  qed
qed

lemma shard_set:
  assumes "snapshot_shard d a b = Inr ids"
  shows "set ids = {i. snapshot_id_valid i \<and> a = take 2 (snapshot_as_str i) \<and> b = take 2 (drop 2 (snapshot_as_str i))
      \<and> (\<exists>bs. file_at d (snapshots_dir @ [a, b, snapshot_as_str i @ lit ''.root'']) = Some bs)}" (is "_ = ?S")
proof (cases "is_lower_hex_shard b")
  case False
  then have "?S = {}" using snapshot_shards(2) by blast
  with False assms show ?thesis by (simp add: snapshot_shard_def Let_def)
next
  case True
  let ?dir = "snapshots_dir @ [a, b]"
  from assms True obtain yss where t: "try_map (snapshot_root_entry d a b ?dir) (list_entry_names d ?dir) = Inr yss" "ids = concat yss"
    by (auto simp: snapshot_shard_def Let_def res_bind_Inr_iff)
  let ?T = "\<lambda>name. {i. snapshot_id_valid i \<and> name = snapshot_as_str i @ lit ''.root''
      \<and> a = take 2 (snapshot_as_str i) \<and> b = take 2 (drop 2 (snapshot_as_str i)) \<and> (\<exists>bs. file_at d (?dir @ [name]) = Some bs)}"
  have "set ids = (\<Union>name \<in> set (list_entry_names d ?dir). ?T name)"
    unfolding t(2) try_map_concat_set [OF t(1)]
  proof (intro SUP_cong refl)
    fix name assume "name \<in> set (list_entry_names d ?dir)"
    from try_map_each [OF t(1) this] obtain zs where z: "snapshot_root_entry d a b ?dir name = Inr zs" by blast
    show "(case snapshot_root_entry d a b ?dir name of Inl x \<Rightarrow> {} | Inr ys \<Rightarrow> set ys) = ?T name"
      using root_entry_set [OF z] z by simp
  qed
  also have "\<dots> = ?S"
    unfolding list_entry_names_iff [abs_def] by (auto simp: list_entry_names_iff file_at_iff open_file_iff)
  finally show ?thesis .
qed

lemma directory_listed:
  assumes "file_at d (snapshots_dir @ [a, b, n]) = Some bs"
  shows "node_at d (snapshots_dir @ [a]) = Some Directory" "node_at d (snapshots_dir @ [a, b]) = Some Directory"
    "symlink_metadata d snapshots_dir = Inr Directory"
proof -
  have "parents (snapshots_dir @ [a, b, n]) = [[lit ''snapshots''], snapshots_dir, snapshots_dir @ [a], snapshots_dir @ [a, b]]"
    by (simp add: parents_def snapshots_dir_def upt_rec)
  with assms show "node_at d (snapshots_dir @ [a]) = Some Directory" "node_at d (snapshots_dir @ [a, b]) = Some Directory"
    "symlink_metadata d snapshots_dir = Inr Directory"
    by (auto simp: file_at_iff open_file_iff symlink_metadata_def res_bind_Inr_iff open_parents_iff ok_or_Inr_iff
        parents_def snapshots_dir_def upt_rec)
qed

lemma first_shard_set:
  assumes "snapshot_first_shard d a = Inr ids"
  shows "set ids = {i. snapshot_id_valid i \<and> a = take 2 (snapshot_as_str i) \<and> (\<exists>bs. file_at d (snapshot_path i) = Some bs)}"
    (is "_ = ?S")
proof (cases "is_lower_hex_shard a")
  case False
  then have "?S = {}" using snapshot_shards(1) by blast
  with False assms show ?thesis by (simp add: snapshot_first_shard_def Let_def)
next
  case True
  let ?dir = "snapshots_dir @ [a]"
  from assms True obtain yss where t: "try_map (snapshot_shard d a) (list_entry_names d ?dir) = Inr yss" "ids = concat yss"
    by (auto simp: snapshot_first_shard_def Let_def res_bind_Inr_iff)
  let ?T = "\<lambda>b. {i. snapshot_id_valid i \<and> a = take 2 (snapshot_as_str i) \<and> b = take 2 (drop 2 (snapshot_as_str i))
      \<and> (\<exists>bs. file_at d (snapshots_dir @ [a, b, snapshot_as_str i @ lit ''.root'']) = Some bs)}"
  have "set ids = (\<Union>b \<in> set (list_entry_names d ?dir). ?T b)"
    unfolding t(2) try_map_concat_set [OF t(1)]
  proof (intro SUP_cong refl)
    fix b assume "b \<in> set (list_entry_names d ?dir)"
    from try_map_each [OF t(1) this] obtain zs where z: "snapshot_shard d a b = Inr zs" by blast
    show "(case snapshot_shard d a b of Inl x \<Rightarrow> {} | Inr ys \<Rightarrow> set ys) = ?T b"
      using shard_set [OF z] z by simp
  qed
  also have "\<dots> = ?S"
    using directory_listed(2) [of d a] by (fastforce simp: list_entry_names_iff snapshot_path_def Let_def)
  finally show ?thesis .
qed

text \<open>C24: the listed snapshots are, in ascending order, exactly the ids whose root file is at
  its path.\<close>

theorem list_ids_exact:
  assumes "list_snapshot_ids d = Inr ids"
  shows "sorted_wrt (<) ids \<and> set ids = {i. snapshot_id_valid i \<and> (\<exists>bs. file_at d (snapshot_path i) = Some bs)}"
proof (cases "symlink_metadata d snapshots_dir = Inr Directory")
  case False
  have "file_at d (snapshot_path i) \<noteq> Some bs" for i bs
    using directory_listed(3) False unfolding snapshot_path_def Let_def by blast
  moreover have "ids = []"
    using assms False by (auto simp: list_snapshot_ids_def split: sum.splits checkpo_error.splits io_error_kind.splits node.splits)
  ultimately show ?thesis by simp
next
  case True
  from assms True obtain yss where t: "try_map (snapshot_first_shard d) (list_entry_names d snapshots_dir) = Inr yss"
    "ids = dedup (sort (concat yss))"
    by (auto simp: list_snapshot_ids_def res_bind_Inr_iff)
  let ?T = "\<lambda>a. {i. snapshot_id_valid i \<and> a = take 2 (snapshot_as_str i) \<and> (\<exists>bs. file_at d (snapshot_path i) = Some bs)}"
  have "set ids = set (concat yss)" by (simp add: t(2))
  also have "\<dots> = (\<Union>a \<in> set (list_entry_names d snapshots_dir). ?T a)"
    unfolding try_map_concat_set [OF t(1)]
  proof (intro SUP_cong refl)
    fix a assume "a \<in> set (list_entry_names d snapshots_dir)"
    from try_map_each [OF t(1) this] obtain zs where z: "snapshot_first_shard d a = Inr zs" by blast
    show "(case snapshot_first_shard d a of Inl x \<Rightarrow> {} | Inr ys \<Rightarrow> set ys) = ?T a"
      using first_shard_set [OF z] z by simp
  qed
  also have "\<dots> = {i. snapshot_id_valid i \<and> (\<exists>bs. file_at d (snapshot_path i) = Some bs)}"
    using directory_listed(1) [of d] by (fastforce simp: list_entry_names_iff snapshot_path_def Let_def)
  finally show ?thesis using dedup_sorted_distinct [of "sort (concat yss)"] by (simp add: t(2))
qed

end
