(* ===== verification/InventorySample.thy ===== *)
theory InventorySample
  imports InventoryInit InventoryReplay SnapshotListing "HOL-Library.Code_Target_Nat"
begin

text \<open>
  Sample repositories on which the properties of the inventory are seen to hold: a blank one, and
  one with the empty inventory, under a toy hash that separates their files.
\<close>

section \<open>A sample repository\<close>

text \<open>
  A toy hash: the length of its input and the 28 bytes from position 64 on, where a state has its
  generation and a set root its count.
\<close>

definition toy_hash :: "bytes \<Rightarrow> bytes" where
  "toy_hash bs = 1 # be_enc 3 (length bs) @ take 28 (drop 64 bs @ replicate 28 1)"

definition toy :: external where
  "toy = \<lparr>blake3 = toy_hash, nfc = (\<lambda>s. s), to_lowercase = (\<lambda>c. [c])\<rparr>"

lemma toy_blake3 [simp]: "blake3 toy = toy_hash"
  by (simp add: toy_def)

lemma toy_length: "hash_length toy"
proof -
  have "min (n - 64) 28 + (28 - (n - 64)) = (28 :: nat)" for n by arith
  then show ?thesis by (simp add: hash_length_def toy_hash_def)
qed

lemma toy_not_zeros: "toy_hash bs \<noteq> zeros"
proof
  assume "toy_hash bs = zeros"
  then have "toy_hash bs ! 0 = zeros ! 0" by simp
  then show False by (simp add: toy_hash_def zeros_def)
qed

lemma toy_collision:
  assumes "toy_hash (p @ a) = toy_hash (p @ b)" "length p + length a < 2 ^ 24" "length p + length b < 2 ^ 24"
  shows "length a = length b"
proof -
  have "take 4 (toy_hash (p @ a)) = take 4 (toy_hash (p @ b))" using assms(1) by simp
  then have "be_enc 3 (length p + length a) = be_enc 3 (length p + length b)"
    by (simp add: toy_hash_def)
  then have "(length p + length a) mod 256 ^ 3 = (length p + length b) mod 256 ^ 3" by (metis be_dec_enc)
  then show ?thesis using assms(2,3) by simp
qed

definition sample_project :: project_id where
  "sample_project = project_id_from_uuid_bytes (replicate 16 0x0A)"

definition sample_root_id :: object_id where
  "sample_root_id = object_id_from_digest_bytes
     (toy_hash (lit ''checkpo.snapshot-inventory-set-root.v2'' @ [0] @ sum.projr (encode_set_root (empty_root sample_project))))"

definition sample_state :: inventory_state where
  "sample_state = initial_state sample_project sample_root_id"

definition sample_state_id :: object_id where
  "sample_state_id = object_id_from_digest_bytes
     (toy_hash (lit ''checkpo.snapshot-inventory-state.v2'' @ [0] @ encode_state sample_state))"

definition sample_head :: inventory_head where
  "sample_head = \<lparr>head_id = sample_state_id, head_state = sample_state\<rparr>"

definition sample_head_bytes :: bytes where
  "sample_head_bytes = object_as_str sample_state_id @ [0x0A]"

definition sample_root_bytes :: bytes where
  "sample_root_bytes = sum.projr (encode_set_root (empty_root sample_project))"

definition sample_nodes :: "(path \<times> node) list" where
  "sample_nodes =
     [([lit ''snapshots''], Directory), (snapshots_dir, Directory),
      ([lit ''inventory''], Directory), (inventory_root, Directory),
      (inventory_root @ [lit ''states''], Directory),
      (inventory_root @ [lit ''states'', take 2 (object_as_str sample_state_id)], Directory),
      (inventory_state_path sample_state_id, RegularFile (encode_state sample_state)),
      (inventory_root @ [lit ''sets''], Directory),
      (inventory_root @ [lit ''sets'', lit ''roots''], Directory),
      (inventory_root @ [lit ''sets'', lit ''roots'', take 2 (object_as_str sample_root_id)], Directory),
      (inventory_set_root_path sample_root_id, RegularFile sample_root_bytes),
      (inventory_root @ [lit ''sets'', lit ''leaves''], Directory),
      (inventory_head_path, RegularFile sample_head_bytes)]"

definition sample_disk :: "fault list \<Rightarrow> disk" where
  "sample_disk faults = \<lparr>disk_nodes = sample_nodes, disk_faults = faults\<rparr>"

lemma sample_project_valid: "project_id_valid sample_project"
  by (simp add: sample_project_def)

lemma sample_root_encoded: "encode_set_root (empty_root sample_project) = Inr sample_root_bytes"
  by (simp add: sample_root_bytes_def encode_set_root_def empty_root_def)

lemma toy_digest: "length (toy_hash bs) = 32"
  using toy_length by (simp add: hash_length_def)

lemma toy_content_id: "content_id (blake3 toy) domain bs = Inr (object_id_from_digest_bytes (toy_hash (domain @ bs)))"
  using object_id_parse_iff [of "encode_lower_hex (toy_hash (domain @ bs))"] toy_digest
  by (auto simp: content_id_def object_id_from_digest_bytes_def)

lemma sample_ids:
  "set_root_id (blake3 toy) sample_root_bytes = Inr sample_root_id"
  "state_id (blake3 toy) (encode_state sample_state) = Inr sample_state_id"
  "object_id_valid sample_root_id" "object_id_valid sample_state_id"
  unfolding set_root_id_def state_id_def toy_content_id sample_root_id_def sample_state_id_def sample_root_bytes_def
  by (simp_all add: toy_digest)

lemma sample_state_ok: "state_typed sample_state" "valid_shape sample_state" "state_project sample_state = sample_project"
  using initial_state_ok [OF sample_project_valid sample_ids(3)]
  by (simp_all add: sample_state_def initial_state_def)

lemma sample_lengths:
  "length sample_root_bytes = ROOT_BYTES" "length (encode_state sample_state) = STATE_BYTES"
  "length sample_head_bytes = HEAD_BYTES_MAX"
proof -
  show "length sample_root_bytes = ROOT_BYTES"
    using decode_set_root_iff [of sample_root_bytes "empty_root sample_project"] sample_root_encoded
      empty_root_typed [OF sample_project_valid] by (auto simp: decode_set_root_def split: if_splits)
  show "length (encode_state sample_state) = STATE_BYTES" by (rule length_encode_state [OF sample_state_ok(1)])
  show "length sample_head_bytes = HEAD_BYTES_MAX"
    using parse_head_str(2) [OF sample_ids(4)] by (simp add: sample_head_bytes_def)
qed

lemma sample_files:
  "file_at (sample_disk fs) inventory_head_path = Some sample_head_bytes"
  "file_at (sample_disk fs) (inventory_state_path sample_state_id) = Some (encode_state sample_state)"
  "file_at (sample_disk fs) (inventory_set_root_path sample_root_id) = Some sample_root_bytes"
  by (simp_all add: file_at_iff open_file_iff sample_disk_def node_at_def sample_nodes_def parents_def upt_rec
      inventory_head_path_def inventory_state_path_def inventory_set_root_path_def inventory_root_def snapshots_dir_def lit_def)

lemma sample_files_hold:
  assumes "file_at d inventory_head_path = Some sample_head_bytes"
    and "file_at d (inventory_state_path sample_state_id) = Some (encode_state sample_state)"
    and "file_at d (inventory_set_root_path sample_root_id) = Some sample_root_bytes"
  shows "set_root_at toy sample_project d sample_root_id = Some (empty_root sample_project)"
    and "inventory_holds toy sample_project d sample_head {}"
proof -
  have "state_at toy sample_project d sample_state_id = Some sample_head"
    using assms(2) sample_lengths(2) sample_ids(2) sample_state_ok
    by (auto simp: value_at_Some_iff check_state_iff sample_head_def)
  moreover show r: "set_root_at toy sample_project d sample_root_id = Some (empty_root sample_project)"
    using assms(3) sample_lengths(1) sample_ids(1) sample_root_encoded empty_root_typed [OF sample_project_valid]
    by (auto simp: value_at_Some_iff check_set_root_iff empty_root_def)
  ultimately show "inventory_holds toy sample_project d sample_head {}"
    using assms(1) sample_lengths(3) parse_head_str(1) [OF sample_ids(4)] empty_root_slots
    by (auto simp: inventory_holds_def head_at_def holds_set_def sample_head_def sample_head_bytes_def
        sample_state_def initial_state_def empty_root_def)
qed

lemma sample_holds: "inventory_holds toy sample_project (sample_disk fs) sample_head {}"
  by (rule sample_files_hold(2) [OF sample_files])

lemma sample_directories_apart:
  "(q, Directory) \<in> set sample_nodes \<Longrightarrow> q \<notin> inventory_paths"
proof
  assume q: "(q, Directory) \<in> set sample_nodes" and "q \<in> inventory_paths"
  note L = inventory_path_length [OF this(2)]
  from q consider "length q < 3" | "length q < 5" "q ! 2 = lit ''states''" | "length q < 6" "q ! 2 = lit ''sets''"
    by (auto simp: sample_nodes_def snapshots_dir_def inventory_root_def)
  then show False using L by cases (auto simp: lit_def split: if_splits)
qed

lemma sample_writable:
  assumes "p \<in> inventory_paths"
  shows "writable (sample_disk fs) p"
proof -
  have n: "node_at (sample_disk fs) q = None \<or> node_at (sample_disk fs) q = Some Directory
      \<or> (q \<in> inventory_paths \<and> (\<exists>b. node_at (sample_disk fs) q = Some (RegularFile b)))" for q
  proof (cases "node_at (sample_disk fs) q")
    case (Some m)
    then have "(q, m) \<in> set sample_nodes" by (auto simp: node_at_def sample_disk_def dest: map_of_SomeD)
    then show ?thesis using Some by (auto simp: sample_nodes_def)
  qed simp
  have "node_at (sample_disk fs) p \<noteq> Some Directory"
    using sample_directories_apart [of p] assms by (auto simp: node_at_def sample_disk_def dest: map_of_SomeD)
  with n [of p] have self: "case node_at (sample_disk fs) p of None \<Rightarrow> True | Some (RegularFile _) \<Rightarrow> True | _ \<Rightarrow> False"
    by auto
  have "node_at (sample_disk fs) q \<in> {None, Some Directory}" if "q \<in> set (parents p)" for q
    using n [of q] that inventory_paths_apart assms by blast
  with self show ?thesis by (simp add: writable_def)
qed

lemma sample_ready: "inventory_ready (sample_disk [])"
proof -
  have "try_all (open_directory (sample_disk [])) inventory_directories = Inr ()"
    by (simp add: try_all_Inr_iff inventory_directories_def open_directory_def res_bind_Inr_iff open_parents_iff
        open_directory_component_iff sample_disk_def node_at_def sample_nodes_def parents_def upt_rec
        inventory_head_path_def inventory_state_path_def inventory_set_root_path_def inventory_root_def snapshots_dir_def lit_def)
  then show ?thesis using sample_writable by (simp add: inventory_ready_def faultless_def sample_disk_def)
qed

lemma sample_ran: "bs \<in> ran (file_at (sample_disk fs)) \<Longrightarrow> bs \<in> {sample_head_bytes, encode_state sample_state, sample_root_bytes}"
proof -
  assume "bs \<in> ran (file_at (sample_disk fs))"
  then obtain p where "file_at (sample_disk fs) p = Some bs" by (auto simp: ran_def)
  then have "(p, RegularFile bs) \<in> set sample_nodes"
    by (auto simp: file_at_iff open_file_iff node_at_def sample_disk_def dest: map_of_SomeD)
  then show ?thesis by (auto simp: sample_nodes_def)
qed

lemma sample_hash_sound: "hash_sound toy (sample_disk fs) (sample_disk fs')"
proof -
  have "bs = bs'" if "bs \<in> {sample_head_bytes, encode_state sample_state, sample_root_bytes}"
    "bs' \<in> {sample_head_bytes, encode_state sample_state, sample_root_bytes}"
    "domain \<in> set inventory_domains" "toy_hash (domain @ bs) = toy_hash (domain @ bs')" for bs bs' domain
  proof -
    have "length domain \<le> 40" using that(3) by (auto simp: inventory_domains_def lit_def)
    moreover have "length bs \<le> 9508" "length bs' \<le> 9508"
      using that(1,2) sample_lengths by (auto simp: inventory_constants HEAD_BYTES_MAX_def)
    ultimately have "length bs = length bs'" using toy_collision [OF that(4)] by simp
    then show ?thesis using that(1,2) sample_lengths by (auto simp: inventory_constants HEAD_BYTES_MAX_def)
  qed
  note same = this
  have "no_collision toy (sample_disk fs) (sample_disk fs')"
    unfolding no_collision_def toy_blake3
  proof (intro ballI impI)
    fix bs bs' domain
    assume "bs \<in> ran (file_at (sample_disk fs)) \<union> ran (file_at (sample_disk fs'))"
      "bs' \<in> ran (file_at (sample_disk fs)) \<union> ran (file_at (sample_disk fs'))"
    then have "bs \<in> {sample_head_bytes, encode_state sample_state, sample_root_bytes}"
      "bs' \<in> {sample_head_bytes, encode_state sample_state, sample_root_bytes}" by (metis UnE sample_ran)+
    moreover assume "domain \<in> set inventory_domains" "toy_hash (domain @ bs) = toy_hash (domain @ bs')"
    ultimately show "bs = bs'" by (rule same)
  qed
  then show ?thesis using toy_not_zeros by (simp add: hash_sound_def)
qed

text \<open>A state of another generation has another hash.\<close>

lemma toy_state_id:
  assumes "state_typed s" "state_id (blake3 toy) (encode_state s) = Inr i"
  shows "take 8 (drop 4 (object_digest_bytes i)) = word_be (state_generation s)"
proof -
  have "object_digest_bytes i = toy_hash (lit ''checkpo.snapshot-inventory-state.v2'' @ [0] @ encode_state s)"
    using content_id_digest [OF assms(2) [unfolded state_id_def]] by simp
  moreover have "drop 28 (encode_state s) = word_be (state_generation s) @ drop 36 (encode_state s)"
    using assms(1) by (simp add: encode_state_def state_typed_def)
  ultimately show ?thesis by (simp add: toy_hash_def lit_def)
qed

definition sample_snapshot :: snapshot_id where
  "sample_snapshot = snapshot_id_from_digest_bytes (replicate 32 5)"

definition sample_operation :: str where
  "sample_operation = lit ''op''"

lemma sample_snapshot_valid: "snapshot_id_valid sample_snapshot"
  by (simp add: sample_snapshot_def)

lemma sample_room: "slot_room sample_snapshot {}"
  by (simp add: slot_room_def MAX_LEAF_IDS_def MAX_LEAF_BYTES_def LEAF_HEADER_BYTES_def)

lemma sample_operation_id: "inventory_operation_id (blake3 toy) sample_operation \<noteq> zeros" "sample_operation \<noteq> []"
  using toy_not_zeros by (simp_all add: inventory_operation_id_def sample_operation_def lit_def)

lemma sample_fresh: "fresh_state toy sample_project Add sample_snapshot sample_operation (sample_disk []) sample_head"
  unfolding fresh_state_def
proof (intro allI impI notI)
  fix rc d'
  assume m: "mutate_set toy sample_project (head_state sample_head) Add sample_snapshot (sample_disk []) = (Inr rc, d')"
  let ?s = "next_state toy sample_project Add sample_snapshot sample_operation (head_id sample_head)
      (state_generation (head_state sample_head) + 1) rc"
  assume id: "state_id (blake3 toy) (encode_state ?s) = Inr (head_id sample_head)"
  obtain rid c where rc: "rc = (rid, c)" by (cases rc)
  from m [unfolded rc] obtain r d2 d3 where mc: "mutate_count Add (state_count (head_state sample_head)) = Inr c"
    "store_set_root toy r d2 = (Inr rid, d3)" by (rule mutate_setE)
  have "object_id_valid rid" using mc(2) content_id_valid unfolding stored_iff set_root_id_def by blast
  moreover have "0 < unat c" using mutate_count_result [OF mc(1)] by auto
  ultimately have "state_typed ?s" unfolding rc
    by (intro conjunct1 [OF next_state_ok])
      (simp_all add: sample_snapshot_valid sample_project_valid sample_head_def sample_ids sample_state_def
        initial_state_def toy_length sample_operation_id [simplified])
  from toy_state_id [OF this id] have "take 8 (drop 4 (object_digest_bytes sample_state_id)) = word_be (1 :: u64)"
    by (simp add: sample_head_def sample_state_def initial_state_def next_state_def rc)
  moreover have "take 8 (drop 4 (object_digest_bytes sample_state_id)) = word_be (0 :: u64)"
    using toy_state_id [OF sample_state_ok(1) sample_ids(2)] by (simp add: sample_state_def initial_state_def)
  ultimately have "be_word (word_be (1 :: u64)) = (be_word (word_be (0 :: u64)) :: u64)" by simp
  then show False by (simp add: be_word_word_be)
qed

theorem transition_succeeds_witness:
  "\<exists>h' d'. transition_inventory toy sample_project Add sample_snapshot (object_as_str (head_id sample_head))
       sample_operation (sample_disk []) = (Inr (object_as_str (head_id h')), d') \<and> inventory_ready d'
     \<and> head_at toy sample_project d' h'
     \<and> made_by Add sample_snapshot (object_as_str (head_id sample_head)) (head_state h')"
  by (rule transition_succeeds [OF sample_ready sample_holds toy_length sample_operation_id(1) sample_fresh
        sample_snapshot_valid _ sample_room sample_operation_id(2)])
    (simp_all add: applicable_def sample_head_def sample_state_def initial_state_def)

lemma sample_first_fault:
  "transition_inventory toy sample_project Add sample_snapshot (object_as_str sample_state_id) sample_operation
     (sample_disk [FaultBefore]) = (Inl (io_failed (inventory_state_path sample_state_id)), sample_disk [])"
proof -
  have p: "object_id_parse (object_as_str sample_state_id) = Inr sample_state_id"
    using sample_ids(4) by (auto simp: object_id_valid_def object_id_parse_def res_bind_Inr_iff object_id.expand)
  show ?thesis
    by (simp add: transition_inventory_def sample_operation_id(2) st_bind_def st_lift_def p load_state_def
        read_bytes_bounded_def next_fault_def sample_disk_def tick_def)
qed

theorem transition_atomic_witness:
  "\<exists>h' S'. inventory_holds toy sample_project (sample_disk []) h' S'"
  using transition_atomic [OF sample_first_fault sample_holds toy_length sample_hash_sound sample_operation_id(1)
      sample_snapshot_valid sample_room] by blast

section \<open>Blank repositories\<close>

definition blank_disk :: disk where
  "blank_disk = \<lparr>disk_nodes = [([lit ''snapshots''], Directory), (snapshots_dir, Directory)], disk_faults = []\<rparr>"

lemma blank_nodes: "node_at blank_disk q = (if q \<in> {[lit ''snapshots''], snapshots_dir} then Some Directory else None)"
  by (simp add: node_at_def blank_disk_def)

lemma blank_simps: "faultless blank_disk" "no_head blank_disk" "open_directory blank_disk snapshots_dir = Inr ()"
  "list_entry_names blank_disk snapshots_dir = []"
  "open_file blank_disk inventory_head_path = Inl (Io [lit ''inventory''] NotFound)"
proof -
  show "faultless blank_disk" by (simp add: faultless_def blank_disk_def)
  show "no_head blank_disk" by (simp add: no_head_def blank_nodes)
  show "open_directory blank_disk snapshots_dir = Inr ()"
    by (simp add: open_directory_def res_bind_Inr_iff open_parents_iff open_directory_component_iff blank_nodes
        parents_def snapshots_dir_def upt_rec)
  show "list_entry_names blank_disk snapshots_dir = []"
    by (simp add: list_entry_names_def blank_disk_def snapshots_dir_def lit_def)
  show "open_file blank_disk inventory_head_path = Inl (Io [lit ''inventory''] NotFound)"
    by (simp add: open_file_def open_parents_def parents_def inventory_head_path_def inventory_root_def upt_rec
        open_directory_component_def blank_nodes snapshots_dir_def res_bind_def lit_def)
qed

lemma blank_creatable: "\<forall>p \<in> set inventory_directories. creatable blank_disk p"
  unfolding creatable_def blank_nodes by simp

lemma blank_writable: "\<forall>p \<in> inventory_paths. writable blank_disk p"
proof
  fix p assume p: "p \<in> inventory_paths"
  have "p \<notin> {[lit ''snapshots''], snapshots_dir}"
    using inventory_path_length [OF p] by (auto simp: snapshots_dir_def)
  then show "writable blank_disk p" unfolding writable_def blank_nodes by simp
qed

theorem initialize_succeeds_witness:
  "\<exists>d' rid sid. initialize_snapshot_inventory toy sample_project blank_disk = (Inr (), d')
    \<and> inventory_holds toy sample_project d' \<lparr>head_id = sid, head_state = initial_state sample_project rid\<rparr> {}
    \<and> file_at d' inventory_head_path = Some (object_as_str sid @ [0x0A]) \<and> inventory_ready d'"
  by (rule initialize_succeeds [OF blank_simps(1,2) toy_length sample_project_valid blank_simps(5,3,4)
        blank_creatable blank_writable])

theorem initialize_atomic_witness:
  "no_head (snd (initialize_snapshot_inventory toy sample_project blank_disk))
     \<and> fst (initialize_snapshot_inventory toy sample_project blank_disk) \<noteq> Inr ()
   \<or> (\<exists>rid sid. inventory_holds toy sample_project (snd (initialize_snapshot_inventory toy sample_project blank_disk))
        \<lparr>head_id = sid, head_state = initial_state sample_project rid\<rparr> {})"
  by (rule initialize_atomic [OF surjective_pairing blank_simps(2) sample_project_valid])

text \<open>C21: without a fault, the ids of a state load as S exactly when the state stands for the
  set S: root, slots, leaves and counts all agree.\<close>

theorem load_ids_exact:
  assumes "faultless d"
  shows "(\<exists>d'. load_inventory_ids x pid s d = (Inr S, d')) \<longleftrightarrow> holds_set x pid d s S"
  using load_ids_sound load_ids_complete [OF assms] by blast

theorem load_ids_exact_witness:
  "\<exists>d'. load_inventory_ids toy sample_project sample_state (sample_disk []) = (Inr {}, d')"
proof -
  have "faultless (sample_disk [])" by (simp add: faultless_def sample_disk_def)
  from load_ids_exact [OF this, of toy sample_project sample_state "{}"] show ?thesis
    using sample_holds [of "[]"] by (simp add: inventory_holds_def sample_head_def)
qed

lemma blank_listing: "list_snapshot_ids blank_disk = Inr []"
proof -
  have "symlink_metadata blank_disk snapshots_dir = Inr Directory"
    by (simp add: symlink_metadata_def open_parents_def parents_def upt_rec snapshots_dir_def
      open_directory_component_def blank_nodes res_bind_def)
  then show ?thesis by (simp add: list_snapshot_ids_def blank_simps(4))
qed

theorem list_ids_exact_witness:
  "sorted_wrt (<) ([] :: snapshot_id list)
   \<and> set [] = {i. snapshot_id_valid i \<and> (\<exists>bs. file_at blank_disk (snapshot_path i) = Some bs)}"
  by (rule list_ids_exact [OF blank_listing])

section \<open>Garbage\<close>

text \<open>The sample with a set leaf that nothing refers to.\<close>

definition litter_path :: path where
  "litter_path = inventory_set_leaf_path sample_root_id"

definition litter_disk :: disk where
  "litter_disk = \<lparr>disk_nodes = sample_nodes @
     [(inventory_root @ [lit ''sets'', lit ''leaves'', take 2 (object_as_str sample_root_id)], Directory),
      (litter_path, RegularFile [1, 2, 3])], disk_faults = []\<rparr>"

lemma litter_files:
  "file_at litter_disk inventory_head_path = Some sample_head_bytes"
  "file_at litter_disk (inventory_state_path sample_state_id) = Some (encode_state sample_state)"
  "file_at litter_disk (inventory_set_root_path sample_root_id) = Some sample_root_bytes"
  "file_at litter_disk litter_path = Some [1, 2, 3]"
  by (simp_all add: file_at_iff open_file_iff litter_disk_def litter_path_def node_at_def sample_nodes_def parents_def upt_rec
      inventory_head_path_def inventory_state_path_def inventory_set_root_path_def inventory_set_leaf_path_def
      inventory_root_def snapshots_dir_def lit_def)

lemma litter_faultless [simp]: "faultless litter_disk" "tick litter_disk = litter_disk"
  by (simp_all add: litter_disk_def faultless_def tick_def)

lemma litter_open: "try_all (open_directory litter_disk) inventory_directories = Inr ()"
  by (simp add: try_all_Inr_iff inventory_directories_def open_directory_def res_bind_Inr_iff open_parents_iff
      open_directory_component_iff litter_disk_def litter_path_def node_at_def sample_nodes_def parents_def upt_rec
      inventory_head_path_def inventory_state_path_def inventory_set_root_path_def inventory_set_leaf_path_def
      inventory_root_def snapshots_dir_def lit_def)

lemma litter_head: "inventory_head_of toy sample_project litter_disk = (Inr sample_head, litter_disk)"
proof -
  have "state_at toy sample_project litter_disk sample_state_id = Some sample_head"
    using sample_files_hold(2) [OF litter_files(1-3)]
    by (simp add: inventory_holds_def head_at_def sample_head_def)
  then have "load_state toy sample_state_id sample_project litter_disk = (Inr sample_head, litter_disk)"
    using load_state_complete [of litter_disk] by simp
  moreover have "length sample_head_bytes \<le> HEAD_BYTES_MAX" by (simp add: sample_lengths)
  ultimately show ?thesis
    using litter_open read_faultless [OF litter_faultless(1) litter_files(1)] parse_head_str(1) [OF sample_ids(4)]
    by (simp add: head_of_iff sample_head_bytes_def)
qed

lemma no_reachable_leaves:
  "\<forall>(k, r) \<in> set slots. r = None \<Longrightarrow> st_fold (reachable_leaf x pid) reachable slots d = (Inr reachable, d)"
  by (induction slots) (auto simp: reachable_leaf_def st_lift_def)

lemma sample_shards: "is_lower_hex_shard (take 2 (object_as_str sample_state_id))"
  "is_lower_hex_shard (take 2 (object_as_str sample_root_id))"
proof -
  have "is_lower_hex_shard (take 2 (object_as_str i))" if "object_id_valid i" for i
  proof -
    have "snapshot_id_valid (SnapshotId (object_as_str i))"
      using that by (auto simp: object_id_valid_iff snapshot_id_valid_iff object_id_from_digest_bytes_def
          snapshot_id_from_digest_bytes_def)
    then show ?thesis using snapshot_shards(1) by fastforce
  qed
  then show "is_lower_hex_shard (take 2 (object_as_str sample_state_id))"
    "is_lower_hex_shard (take 2 (object_as_str sample_root_id))" using sample_ids by blast+
qed

lemma litter_metadata:
  "symlink_metadata litter_disk (inventory_root @ [lit ''states'', take 2 (object_as_str sample_state_id)]) = Inr Directory"
  "symlink_metadata litter_disk (inventory_root @ [lit ''sets'', lit ''roots'', take 2 (object_as_str sample_root_id)]) = Inr Directory"
  "symlink_metadata litter_disk (inventory_root @ [lit ''sets'', lit ''leaves'', take 2 (object_as_str sample_root_id)]) = Inr Directory"
  by (simp_all add: symlink_metadata_def res_bind_Inr_iff ok_or_Inr_iff open_parents_iff open_directory_component_iff
      litter_disk_def litter_path_def node_at_def sample_nodes_def parents_def upt_rec
      inventory_head_path_def inventory_state_path_def inventory_set_root_path_def inventory_set_leaf_path_def
      inventory_root_def snapshots_dir_def lit_def)

lemma content_path_ok:
  assumes "object_id_valid i" "is_lower_hex_shard (take 2 (object_as_str i))" "suffix \<in> snd ` set inventory_stores"
  shows "validate_inventory_content_path [take 2 (object_as_str i), object_as_str i @ suffix] suffix = Inr ()"
proof -
  have "object_id_parse (object_as_str i) = Inr i"
    using assms(1) by (auto simp: object_id_valid_def object_id_parse_def res_bind_Inr_iff object_id.expand)
  moreover have "\<forall>b \<in> set (object_as_str i). b < 0x80"
    using assms(1) by (fastforce simp: object_id_valid_def object_id_parse_def res_bind_Inr_iff
        validate_lower_hex_id_iff is_lowercase_hex_def is_lower_hex_digit_iff word_le_nat_alt word_less_nat_alt)
  then have "utf8_valid (object_as_str i @ suffix)"
    using assms(3) by (intro utf8_valid_ascii) (auto simp: inventory_stores_def lit_def)
  ultimately show ?thesis using assms(2) by (simp add: validate_inventory_content_path_def)
qed

lemma litter_walk:
  "set (walk_directory litter_disk (inventory_root @ [lit ''states''])) =
     {inventory_root @ [lit ''states'', take 2 (object_as_str sample_state_id)], inventory_state_path sample_state_id}"
  "set (walk_directory litter_disk (inventory_root @ [lit ''sets'', lit ''roots''])) =
     {inventory_root @ [lit ''sets'', lit ''roots'', take 2 (object_as_str sample_root_id)],
      inventory_set_root_path sample_root_id}"
  "set (walk_directory litter_disk (inventory_root @ [lit ''sets'', lit ''leaves''])) =
     {inventory_root @ [lit ''sets'', lit ''leaves'', take 2 (object_as_str sample_root_id)], litter_path}"
  by (auto simp: walk_directory_def litter_disk_def sample_nodes_def litter_path_def inventory_head_path_def
      inventory_state_path_def inventory_set_root_path_def inventory_set_leaf_path_def inventory_root_def
      snapshots_dir_def lit_def)

lemma gc_entry_ok:
  "symlink_metadata d q = Inr Directory \<Longrightarrow> length q = Suc (length store) \<Longrightarrow> is_lower_hex_shard (last q) \<Longrightarrow>
     is_ok (gc_entry d reachable store suffix q)"
  "symlink_metadata d q = Inr (RegularFile bs) \<Longrightarrow> validate_inventory_content_path (drop (length store) q) suffix = Inr () \<Longrightarrow>
     is_ok (gc_entry d reachable store suffix q)"
  by (simp_all add: gc_entry_def)

lemma litter_gc_stores: "\<exists>cs. gc_stores litter_disk reachable = Inr cs"
proof -
  note shard_ok = gc_entry_ok(1) [OF litter_metadata(1)] gc_entry_ok(1) [OF litter_metadata(2)]
    gc_entry_ok(1) [OF litter_metadata(3)]
  note file_ok = gc_entry_ok(2) [OF litter_files(2) [folded symlink_metadata_file]]
    gc_entry_ok(2) [OF litter_files(3) [folded symlink_metadata_file]]
    gc_entry_ok(2) [OF litter_files(4) [folded symlink_metadata_file]]
  note paths = content_path_ok [OF sample_ids(3) sample_shards(2)] content_path_ok [OF sample_ids(4) sample_shards(1)]
  have e: "is_ok (gc_entry litter_disk reachable store suffix q)"
    if "(store, suffix) \<in> set inventory_stores" "q \<in> set (walk_directory litter_disk store)" for store suffix q
    using that(1) unfolding inventory_stores_def
  proof (simp only: set_simps insert_iff empty_iff prod.inject simp_thms, elim disjE conjE)
    assume "store = inventory_root @ [lit ''states'']" "suffix = lit ''.state''"
    then show ?thesis using that(2) shard_ok(1) file_ok(1) sample_shards(1) paths(2) [of suffix] litter_walk(1)
      by (auto simp: inventory_state_path_def inventory_stores_def)
  next
    assume "store = inventory_root @ [lit ''sets'', lit ''roots'']" "suffix = lit ''.root''"
    then show ?thesis using that(2) shard_ok(2) file_ok(2) sample_shards(2) paths(1) [of suffix] litter_walk(2)
      by (auto simp: inventory_set_root_path_def inventory_stores_def)
  next
    assume "store = inventory_root @ [lit ''sets'', lit ''leaves'']" "suffix = lit ''.leaf''"
    then show ?thesis using that(2) shard_ok(3) file_ok(3) sample_shards(2) paths(1) [of suffix] litter_walk(3)
      by (auto simp: litter_path_def inventory_set_leaf_path_def inventory_stores_def)
  qed
  have w: "is_ok (res_bind (try_map (gc_entry litter_disk reachable store suffix) (walk_directory litter_disk store))
      (\<lambda>found. Inr (concat found)))" if "(store, suffix) \<in> set inventory_stores" for store suffix
  proof -
    have "\<exists>found. try_map (gc_entry litter_disk reachable store suffix) (walk_directory litter_disk store) = Inr found"
      by (rule try_map_total) (use e [OF that] in blast)
    then show ?thesis by (elim exE) (simp only: res_bind_simps, blast)
  qed
  have "\<exists>found. try_map (\<lambda>(store, suffix). res_bind (try_map (gc_entry litter_disk reachable store suffix)
      (walk_directory litter_disk store)) (\<lambda>found. Inr (concat found))) inventory_stores = Inr found"
  proof (intro try_map_total ballI)
    fix s assume s: "s \<in> set inventory_stores"
    obtain store suffix where "s = (store, suffix)" by (cases s)
    with w s show "is_ok ((\<lambda>(store, suffix). res_bind (try_map (gc_entry litter_disk reachable store suffix)
        (walk_directory litter_disk store)) (\<lambda>found. Inr (concat found))) s)"
      by (simp only: prod.case)
  qed
  then show ?thesis unfolding gc_stores_def by (elim exE) (simp only: res_bind_simps, blast)
qed

lemma litter_candidates: "\<exists>cs. inventory_gc_candidates toy sample_project litter_disk = (Inr cs, litter_disk)"
proof -
  have root: "load_counted_root toy sample_project (head_state sample_head) litter_disk = (Inr (empty_root sample_project), litter_disk)"
    using counted_complete(1) [OF litter_faultless(1)] sample_files_hold(1) [OF litter_files(1-3)]
    by (simp add: sample_head_def sample_state_def initial_state_def empty_root_def)
  have states: "reachable_states toy sample_project {} {} sample_head litter_disk
      = (Inr {inventory_state_path sample_state_id}, litter_disk)"
    by (simp add: sample_head_def sample_state_def initial_state_def)
  have leaves: "st_fold (reachable_leaf toy sample_project) R (enumerate 0 (root_leaves (empty_root sample_project))) litter_disk
      = (Inr R, litter_disk)" for R
    by (rule no_reachable_leaves) (auto simp: empty_root_def in_set_enumerate_eq)
  show ?thesis using litter_gc_stores
    by (auto simp del: reachable_states.simps simp: inventory_gc_candidates_def st_bind_Inr_iff litter_head root states leaves)
qed

lemma litter_needs:
  "inventory_needs toy sample_project litter_disk sample_head
     \<supseteq> {inventory_state_path sample_state_id, inventory_set_root_path sample_root_id}"
  "litter_path \<notin> inventory_needs toy sample_project litter_disk sample_head"
proof -
  have h: "state_set_root (head_state sample_head) = sample_root_id" "head_id sample_head = sample_state_id"
    by (simp_all add: sample_head_def sample_state_def initial_state_def)
  have "inventory_state_path (head_id sample_head)
      \<in> {inventory_state_path (head_id a) | a. lineage toy sample_project litter_disk sample_head a}"
    using lineage.self by blast
  then show "inventory_needs toy sample_project litter_disk sample_head
     \<supseteq> {inventory_state_path sample_state_id, inventory_set_root_path sample_root_id}"
    unfolding inventory_needs_def h by blast
  have "Some r \<notin> set (root_leaves (empty_root sample_project))" for r by (simp add: empty_root_def)
  moreover have "litter_path \<noteq> inventory_state_path i" "litter_path \<noteq> inventory_set_root_path i" for i
    by (simp_all add: litter_path_def inventory_set_leaf_path_def inventory_state_path_def inventory_set_root_path_def lit_def)
  ultimately show "litter_path \<notin> inventory_needs toy sample_project litter_disk sample_head"
    unfolding inventory_needs_def h sample_files_hold(1) [OF litter_files(1-3)] by auto
qed

lemma litter_garbage:
  "{(p, length bs) | p bs. file_at litter_disk p = Some bs \<and> in_store p
     \<and> p \<notin> inventory_needs toy sample_project litter_disk sample_head} = {(litter_path, 3)}"
proof -
  have "p = litter_path" if "file_at litter_disk p = Some bs" "in_store p"
    "p \<notin> inventory_needs toy sample_project litter_disk sample_head" for p bs
  proof -
    from that(1) have "(p, RegularFile bs) \<in> set (disk_nodes litter_disk)"
      by (auto simp: file_at_iff open_file_iff node_at_def dest: map_of_SomeD)
    then have "p \<in> {inventory_head_path, inventory_state_path sample_state_id, inventory_set_root_path sample_root_id, litter_path}"
      by (auto simp: litter_disk_def sample_nodes_def)
    then show ?thesis using that(2,3) needed_not_head litter_needs(1) by auto
  qed
  moreover have "in_store litter_path"
    by (auto simp: in_store_def inventory_stores_def litter_path_def inventory_set_leaf_path_def)
  ultimately show ?thesis using litter_files(4) litter_needs(2) by fastforce
qed

theorem gc_sweeps_garbage_witness:
  "\<exists>cs. inventory_gc_candidates toy sample_project litter_disk = (Inr cs, litter_disk) \<and> set cs = {(litter_path, 3)}
    \<and> inventory_holds toy sample_project (remove_files {litter_path} litter_disk) sample_head {}"
proof -
  obtain cs where cs: "inventory_gc_candidates toy sample_project litter_disk = (Inr cs, litter_disk)"
    using litter_candidates by blast
  note G = gc_sweeps_garbage [OF sample_files_hold(2) [OF litter_files(1-3)] cs, unfolded litter_garbage]
  then have "fst ` set cs = {litter_path}" by simp
  with G cs show ?thesis by auto
qed

end
