(* ===== verification/ProjectTree.thy ===== *)
theory ProjectTree
  imports SnapshotStore
begin

text \<open>
  The Unity project directory as the scanner and the transaction code see it: what
  \<open>symlink_metadata\<close> answers for a path below the project root, what \<open>WalkDir\<close> lists below a
  directory, and what opening a file without following links gives. Tracked paths and the
  inspections of single paths that planning is built from (\<open>current_path_kind\<close>,
  \<open>ensure_project_parent_is_safe\<close>, \<open>current_file_state\<close> and the Unity companion of an asset)
  are defined on it.
\<close>

section \<open>The project directory\<close>

text \<open>A file has its bytes and its modification time in the canonical rendering.\<close>

datatype project_node =
    ProjectFile bytes str
  | ProjectDirectory
  | ProjectLink
  | ProjectSpecial

text \<open>
  Paths are relative to the project root. The entries are listed in the order in which a walk of
  the directory yields them. \<open>tree_unstatable\<close> are the paths whose metadata cannot be read,
  \<open>tree_unreadable\<close> the files and directories that cannot be opened, and \<open>tree_fingerprint\<close> is the
  platform's identity of a file.
\<close>

record project_tree =
  tree_nodes :: "(path \<times> project_node) list"
  tree_unstatable :: "path list"
  tree_unreadable :: "path list"
  tree_fingerprint :: "path \<Rightarrow> str option"

definition project_node_at :: "project_tree \<Rightarrow> path \<Rightarrow> project_node option" where
  "project_node_at t = map_of (tree_nodes t)"

definition proper_prefixes :: "path \<Rightarrow> path list" where
  "proper_prefixes p = map (\<lambda>n. take n p) [1..<length p]"

definition no_directory :: "project_node option \<Rightarrow> bool" where
  "no_directory n \<longleftrightarrow> (case n of Some (ProjectFile _ _) \<Rightarrow> True | Some ProjectSpecial \<Rightarrow> True | _ \<Rightarrow> False)"

definition project_lstat :: "project_tree \<Rightarrow> path \<Rightarrow> project_node result" where
  "project_lstat t p =
     (if p \<in> set (tree_unstatable t) then Inl (Io p PermissionDenied)
      else case project_node_at t p of
        Some n \<Rightarrow> Inr n
      | None \<Rightarrow>
          if \<exists>q \<in> set (proper_prefixes p). no_directory (project_node_at t q)
          then Inl (Io p NotADirectory) else Inl (Io p NotFound))"

text \<open>
  \<open>WalkDir\<close> without following links: a directory that cannot be opened yields itself and then an
  error, and nothing below a link is yielded.
\<close>

datatype walk_entry = WalkEntry path | WalkError path

definition descends :: "project_tree \<Rightarrow> path \<Rightarrow> bool" where
  "descends t q \<longleftrightarrow> project_node_at t q = Some ProjectDirectory \<and> q \<notin> set (tree_unreadable t)"

definition walked :: "project_tree \<Rightarrow> path \<Rightarrow> path \<Rightarrow> bool" where
  "walked t root q \<longleftrightarrow>
     starts_with root q
     \<and> (\<forall>n < length q. length root \<le> n \<longrightarrow> descends t (take n q))"

definition walk_dir :: "project_tree \<Rightarrow> path \<Rightarrow> walk_entry list" where
  "walk_dir t root =
     concat (map (\<lambda>(q, n).
        if walked t root q
        then WalkEntry q
               # (if n = ProjectDirectory \<and> q \<in> set (tree_unreadable t) then [WalkError q] else [])
        else []) (tree_nodes t))"

text \<open>
  Opening without following links, on Unix: a component that is no directory gives \<open>ENOTDIR\<close>, also
  when it is a link, and a link in the last place gives \<open>ELOOP\<close>.
\<close>

definition open_project_component :: "project_tree \<Rightarrow> path \<Rightarrow> unit result" where
  "open_project_component t q =
     (case project_node_at t q of
        None \<Rightarrow> Inl (Io q NotFound)
      | Some ProjectDirectory \<Rightarrow> Inr ()
      | Some _ \<Rightarrow> Inl (Io q NotADirectory))"

definition open_project_directory :: "project_tree \<Rightarrow> path \<Rightarrow> unit result" where
  "open_project_directory t p =
     try_all (open_project_component t) (proper_prefixes p @ [p])"

definition open_project_file :: "project_tree \<Rightarrow> path \<Rightarrow> (bytes \<times> str) result" where
  "open_project_file t p =
     res_bind (try_all (open_project_component t) (proper_prefixes p)) (\<lambda>_.
     case project_node_at t p of
       None \<Rightarrow> Inl (Io p NotFound)
     | Some (ProjectFile bs m) \<Rightarrow>
         if p \<in> set (tree_unreadable t) then Inl (Io p PermissionDenied) else Inr (bs, m)
     | Some ProjectLink \<Rightarrow> Inl (Io p OtherIo)
     | Some _ \<Rightarrow> Inl (Corruption (lit ''anchored path is not a regular file'')))"

section \<open>Tracked paths in the tree\<close>

definition path_segments :: "tracked_path \<Rightarrow> path" where
  "path_segments p = split_on 0x2F (tracked_as_str p)"

definition joined :: "path \<Rightarrow> str" where
  "joined = join_with 0x2F"

text \<open>
  \<open>relative_path_from_project\<close> of an entry that a walk of the project yields: the entry's names,
  each checked to be UTF-8.
\<close>

definition relative_of_entry :: "path \<Rightarrow> str result" where
  "relative_of_entry p =
     res_bind (try_map relative_component (map NormalComp p)) (\<lambda>parts. Inr (joined parts))"

definition path_is_strict_descendant :: "tracked_path \<Rightarrow> tracked_path \<Rightarrow> bool" where
  "path_is_strict_descendant candidate root \<longleftrightarrow>
     (case strip_prefix (tracked_as_str root) (tracked_as_str candidate) of
        None \<Rightarrow> False
      | Some suffix \<Rightarrow> starts_with [0x2F] suffix)"

definition path_is_same_or_descendant :: "tracked_path \<Rightarrow> tracked_path \<Rightarrow> bool" where
  "path_is_same_or_descendant candidate root \<longleftrightarrow>
     candidate = root \<or> path_is_strict_descendant candidate root"

definition has_tracked_ancestor :: "tracked_path \<Rightarrow> tracked_path list \<Rightarrow> bool" where
  "has_tracked_ancestor p candidates \<longleftrightarrow> (\<exists>c \<in> set candidates. path_is_strict_descendant p c)"

text \<open>The Unity companion of an asset is its \<open>.meta\<close> file, and the other way round.\<close>

definition unity_asset_companion_path :: "tracked_path \<Rightarrow> tracked_path option" where
  "unity_asset_companion_path p =
     (let v = tracked_as_str p in
      if \<not> starts_with (lit ''Assets/'') v then None
      else case tracked_path_parse
             (case strip_suffix (lit ''.meta'') v of Some asset \<Rightarrow> asset | None \<Rightarrow> v @ lit ''.meta'') of
        Inr c \<Rightarrow> Some c | Inl _ \<Rightarrow> None)"

text \<open>The snapshot's files by path, as the code collects them.\<close>

definition files_by_path :: "snapshot_file \<Rightarrow> (tracked_path \<times> snapshot_entry) list" where
  "files_by_path s = btree_map (map (\<lambda>file. (snap_path file, file)) (snap_files s))"

section \<open>Inspecting one path\<close>

datatype current_path_kind = Missing | File | DirectoryKind | BlockedByFile tracked_path

text \<open>The loop over the parents of \<open>current_path_kind\<close>.\<close>

fun parents_kind :: "project_tree \<Rightarrow> tracked_path \<Rightarrow> path list \<Rightarrow> current_path_kind option result" where
  "parents_kind t p [] = Inr None"
| "parents_kind t p (q # qs) =
     (case project_lstat t q of
        Inl (Io _ NotFound) \<Rightarrow> Inr (Some Missing)
      | Inl e \<Rightarrow> Inl e
      | Inr ProjectLink \<Rightarrow>
          Inl (InvalidTrackedPath (lit ''contains a symbolic link or reparse point parent''))
      | Inr (ProjectFile _ _) \<Rightarrow>
          res_bind (tracked_path_parse (joined q)) (\<lambda>blocker. Inr (Some (BlockedByFile blocker)))
      | Inr ProjectSpecial \<Rightarrow> Inl (InvalidTrackedPath (lit ''unsafe parent component''))
      | Inr ProjectDirectory \<Rightarrow> parents_kind t p qs)"

definition current_path_kind :: "project_tree \<Rightarrow> tracked_path \<Rightarrow> current_path_kind result" where
  "current_path_kind t p =
     res_bind (parents_kind t p (proper_prefixes (path_segments p))) (\<lambda>blocked.
     case blocked of
       Some k \<Rightarrow> Inr k
     | None \<Rightarrow>
         (case project_lstat t (path_segments p) of
            Inr ProjectLink \<Rightarrow> Inl (InvalidTrackedPath (lit ''is a symbolic link or reparse point''))
          | Inr (ProjectFile _ _) \<Rightarrow> Inr File
          | Inr ProjectDirectory \<Rightarrow> Inr DirectoryKind
          | Inr ProjectSpecial \<Rightarrow> Inl (InvalidTrackedPath (lit ''is not a regular file or directory''))
          | Inl (Io _ NotFound) \<Rightarrow> Inr Missing
          | Inl e \<Rightarrow> Inl e))"

fun parent_is_safe :: "project_tree \<Rightarrow> tracked_path \<Rightarrow> path list \<Rightarrow> unit result" where
  "parent_is_safe t p [] = Inr ()"
| "parent_is_safe t p (q # qs) =
     (case project_lstat t q of
        Inl (Io _ NotFound) \<Rightarrow> Inr ()
      | Inl e \<Rightarrow> Inl e
      | Inr ProjectDirectory \<Rightarrow> parent_is_safe t p qs
      | Inr _ \<Rightarrow> Inl (InvalidTrackedPath (lit ''contains unsafe parent component'')))"

definition ensure_project_parent_is_safe :: "project_tree \<Rightarrow> tracked_path \<Rightarrow> unit result" where
  "ensure_project_parent_is_safe t p = parent_is_safe t p (proper_prefixes (path_segments p))"

record current_file_state =
  state_hash :: object_id
  state_size :: u64
  state_modified :: str

definition file_state :: "(bytes \<Rightarrow> bytes) \<Rightarrow> bytes \<Rightarrow> str \<Rightarrow> current_file_state" where
  "file_state digest bs m =
     \<lparr>state_hash = object_id_from_bytes digest bs, state_size = of_nat (length bs), state_modified = m\<rparr>"

definition current_file_state_from_anchor ::
  "(bytes \<Rightarrow> bytes) \<Rightarrow> project_tree \<Rightarrow> tracked_path \<Rightarrow> current_file_state result" where
  "current_file_state_from_anchor digest t p =
     res_bind (open_project_file t (path_segments p)) (\<lambda>(bs, m). Inr (file_state digest bs m))"

definition current_file_state ::
  "(bytes \<Rightarrow> bytes) \<Rightarrow> project_tree \<Rightarrow> tracked_path \<Rightarrow> current_file_state option result" where
  "current_file_state digest t p =
     res_bind (ensure_project_parent_is_safe t p) (\<lambda>_.
     case project_lstat t (path_segments p) of
       Inl (Io _ NotFound) \<Rightarrow> Inr None
     | Inl e \<Rightarrow> Inl e
     | Inr (ProjectFile _ _) \<Rightarrow>
         res_bind (current_file_state_from_anchor digest t p) (\<lambda>s. Inr (Some s))
     | Inr _ \<Rightarrow> Inl (InvalidTrackedPath (tracked_as_str p)))"

definition current_hash ::
  "(bytes \<Rightarrow> bytes) \<Rightarrow> project_tree \<Rightarrow> tracked_path \<Rightarrow> object_id option result" where
  "current_hash digest t p =
     res_bind (current_file_state digest t p) (\<lambda>s. Inr (map_option state_hash s))"

definition current_companion_is_regular_file :: "project_tree \<Rightarrow> tracked_path \<Rightarrow> bool result" where
  "current_companion_is_regular_file t p =
     res_bind (current_path_kind t p) (\<lambda>k. Inr (k = File))"

text \<open>A \<open>.meta\<close> file whose asset is a directory belongs to a Unity folder.\<close>

definition is_folder_meta :: "project_tree \<Rightarrow> tracked_path \<Rightarrow> bool result" where
  "is_folder_meta t p =
     (let v = tracked_as_str p in
      if \<not> starts_with (lit ''Assets/'') v then Inr False
      else case strip_suffix (lit ''.meta'') v of
        None \<Rightarrow> Inr False
      | Some asset \<Rightarrow>
          res_bind (tracked_path_parse asset) (\<lambda>a.
          res_bind (current_path_kind t a) (\<lambda>k. Inr (k = DirectoryKind))))"

definition ensure_discard_folder_meta_operation_is_safe ::
  "project_tree \<Rightarrow> tracked_path \<Rightarrow> unit result" where
  "ensure_discard_folder_meta_operation_is_safe t p =
     res_bind (is_folder_meta t p) (\<lambda>folder.
     ensure (\<not> folder)
       (WorkingTreeChanged (lit ''became a Unity folder while discard was running'')))"

definition reject_selected_directory_meta :: "project_tree \<Rightarrow> tracked_path list \<Rightarrow> unit result" where
  "reject_selected_directory_meta t selected =
     try_all (\<lambda>p.
       res_bind (is_folder_meta t p) (\<lambda>folder.
       ensure (\<not> folder) (UnsafeFolderMetaOperation (tracked_as_str p)))) selected"

section \<open>Paths and their segments\<close>

lemma path_segments_ne [simp]: "path_segments p \<noteq> []"
  by (simp add: path_segments_def)

lemma joined_segments [simp]: "joined (path_segments p) = tracked_as_str p"
  by (simp add: joined_def path_segments_def)

lemma segments_no_slash: "s \<in> set (path_segments p) \<Longrightarrow> 0x2F \<notin> set s"
  by (simp add: path_segments_def split_on_no_sep)

lemma segments_joined: "q \<noteq> [] \<Longrightarrow> \<forall>s \<in> set q. 0x2F \<notin> set s \<Longrightarrow> split_on 0x2F (joined q) = q"
  by (simp add: joined_def split_join)

lemma path_segments_inj: "path_segments p = path_segments q \<longleftrightarrow> p = q"
  by (metis joined_segments tracked_path.expand)

lemma joined_append: "a \<noteq> [] \<Longrightarrow> b \<noteq> [] \<Longrightarrow> joined (a @ b) = joined a @ 0x2F # joined b"
proof (induction a)
  case (Cons x a)
  then show ?case by (cases a; cases b) (simp_all add: joined_def)
qed simp

lemma set_proper_prefixes: "set (proper_prefixes p) = {take n p | n. 0 < n \<and> n < length p}"
  by (auto simp: proper_prefixes_def)

lemma proper_prefix_iff:
  "q \<in> set (proper_prefixes p) \<longleftrightarrow> q \<noteq> [] \<and> (\<exists>r. r \<noteq> [] \<and> p = q @ r)"
proof
  assume "q \<in> set (proper_prefixes p)"
  then obtain n where "q = take n p" "0 < n" "n < length p" by (auto simp: set_proper_prefixes)
  then show "q \<noteq> [] \<and> (\<exists>r. r \<noteq> [] \<and> p = q @ r)"
    by (auto intro!: exI [of _ "drop n p"])
next
  assume "q \<noteq> [] \<and> (\<exists>r. r \<noteq> [] \<and> p = q @ r)"
  then show "q \<in> set (proper_prefixes p)"
    by (auto simp: set_proper_prefixes intro!: exI [of _ "length q"])
qed

lemma set_tl_proper_prefixes: "set (tl (proper_prefixes p)) = {take n p | n. 1 < n \<and> n < length p}"
proof -
  have "tl (proper_prefixes p) = map (\<lambda>n. take n p) [2..<length p]"
    unfolding proper_prefixes_def by (cases "1 < length p") (simp_all add: map_tl [symmetric] upt_conv_Cons numeral_2_eq_2)
  then show ?thesis by auto
qed

lemma strict_descendant_iff:
  "path_is_strict_descendant c r \<longleftrightarrow> path_segments r \<in> set (proper_prefixes (path_segments c))"
proof
  assume "path_is_strict_descendant c r"
  then obtain s where "tracked_as_str c = tracked_as_str r @ 0x2F # s"
    by (auto simp: path_is_strict_descendant_def starts_with_iff split: option.splits)
  then have "path_segments c = path_segments r @ split_on 0x2F s"
    by (simp add: path_segments_def split_on_append)
  then show "path_segments r \<in> set (proper_prefixes (path_segments c))"
    by (auto simp: proper_prefix_iff)
next
  assume "path_segments r \<in> set (proper_prefixes (path_segments c))"
  then obtain rest where rest: "rest \<noteq> []" "path_segments c = path_segments r @ rest"
    by (auto simp: proper_prefix_iff)
  then have "joined (path_segments c) = joined (path_segments r) @ 0x2F # joined rest"
    by (simp add: joined_append)
  then have "tracked_as_str c = tracked_as_str r @ 0x2F # joined rest" by simp
  then show "path_is_strict_descendant c r"
    by (simp add: path_is_strict_descendant_def starts_with_iff)
qed

lemma strict_descendant_trans:
  "path_is_strict_descendant a b \<Longrightarrow> path_is_strict_descendant b c \<Longrightarrow> path_is_strict_descendant a c"
  by (fastforce simp: strict_descendant_iff proper_prefix_iff)

lemma not_own_descendant [simp]: "\<not> path_is_strict_descendant p p"
  by (auto simp: strict_descendant_iff proper_prefix_iff)

lemma parsed_prefix:
  assumes "tracked_path_parse (joined q) = Inr d" and "q \<noteq> []" "\<forall>s \<in> set q. 0x2F \<notin> set s"
  shows "path_segments d = q" "tracked_path_valid d"
proof -
  have "tracked_as_str d = joined q" "tracked_path_valid d"
    using tracked_path_parse_valid [OF assms(1)] by simp_all
  then show "path_segments d = q" "tracked_path_valid d"
    using segments_joined [OF assms(2,3)] by (simp_all add: path_segments_def)
qed

lemma relative_of_entry_Inr: "relative_of_entry q = Inr s \<Longrightarrow> s = joined q \<and> (\<forall>g \<in> set q. utf8_valid g)"
proof -
  assume "relative_of_entry q = Inr s"
  then obtain parts where p: "try_map relative_component (map NormalComp q) = Inr parts" "s = joined parts"
    by (auto simp: relative_of_entry_def res_simps)
  have "try_map relative_component (map NormalComp q) = Inr parts \<Longrightarrow> parts = q \<and> (\<forall>g \<in> set q. utf8_valid g)"
    by (induction q arbitrary: parts) (auto simp: res_simps relative_component_def split: if_splits)
  with p show ?thesis by simp
qed

section \<open>Well-formed project directories\<close>

text \<open>
  No path is listed twice, no name is empty or holds a separator, what lies above an entry is
  a directory or a link, and only what exists can refuse to be examined.
\<close>

definition project_tree_wf :: "project_tree \<Rightarrow> bool" where
  "project_tree_wf t \<longleftrightarrow>
     distinct (map fst (tree_nodes t))
     \<and> set (tree_unstatable t) \<subseteq> fst ` set (tree_nodes t)
     \<and> (\<forall>(q, n) \<in> set (tree_nodes t).
          q \<noteq> [] \<and> (\<forall>s \<in> set q. s \<noteq> [] \<and> 0x2F \<notin> set s)
          \<and> (\<forall>r \<in> set (proper_prefixes q).
               project_node_at t r \<in> {Some ProjectDirectory, Some ProjectLink}))"

lemma project_node_at_mem:
  "project_tree_wf t \<Longrightarrow> project_node_at t q = Some n \<longleftrightarrow> (q, n) \<in> set (tree_nodes t)"
  by (simp add: project_tree_wf_def project_node_at_def)

lemma tree_wf_names:
  "project_tree_wf t \<Longrightarrow> project_node_at t q = Some n \<Longrightarrow> q \<noteq> [] \<and> (\<forall>s \<in> set q. s \<noteq> [] \<and> 0x2F \<notin> set s)"
  unfolding project_node_at_mem by (fastforce simp: project_tree_wf_def)

lemma tree_wf_parents:
  "project_tree_wf t \<Longrightarrow> project_node_at t q = Some n \<Longrightarrow> r \<in> set (proper_prefixes q) \<Longrightarrow>
   project_node_at t r \<in> {Some ProjectDirectory, Some ProjectLink}"
  unfolding project_node_at_mem by (fastforce simp: project_tree_wf_def)

lemma tree_wf_unstatable:
  "project_tree_wf t \<Longrightarrow> q \<in> set (tree_unstatable t) \<Longrightarrow> project_node_at t q \<noteq> None"
  unfolding project_tree_wf_def project_node_at_def map_of_eq_None_iff by blast

lemma project_lstat_Inr: "project_lstat t q = Inr n \<Longrightarrow> project_node_at t q = Some n"
  by (auto simp: project_lstat_def split: if_splits option.splits)

lemma walk_entry_iff:
  assumes "project_tree_wf t"
  shows "WalkEntry q \<in> set (walk_dir t root) \<longleftrightarrow> project_node_at t q \<noteq> None \<and> walked t root q"
proof -
  have "WalkEntry q \<in> set (walk_dir t root) \<longleftrightarrow> (\<exists>n. (q, n) \<in> set (tree_nodes t) \<and> walked t root q)"
    by (auto simp: walk_dir_def split: if_splits)
  then show ?thesis by (simp add: project_node_at_mem [OF assms, symmetric])
qed

lemma walk_error_iff:
  assumes "project_tree_wf t"
  shows "WalkError q \<in> set (walk_dir t root) \<longleftrightarrow>
    project_node_at t q = Some ProjectDirectory \<and> walked t root q \<and> q \<in> set (tree_unreadable t)"
proof -
  have "WalkError q \<in> set (walk_dir t root) \<longleftrightarrow>
      (q, ProjectDirectory) \<in> set (tree_nodes t) \<and> walked t root q \<and> q \<in> set (tree_unreadable t)"
    by (auto simp: walk_dir_def split: if_splits)
  then show ?thesis by (simp add: project_node_at_mem [OF assms, symmetric])
qed

end
