(* ===== verification/OperationPlan.thy ===== *)
theory OperationPlan
  imports ProjectTree "HOL-Library.Product_Lexorder"
begin

text \<open>
  Operation plans: the data of \<open>models/transaction.rs\<close>, the construction of a plan from its
  operations, and the checks of \<open>transaction/plan.rs\<close> that every plan passes before it is applied
  and that every journal passes before it is rolled back.
\<close>

section \<open>Plans\<close>

datatype operation_plan_kind = RestoreKind | DiscardKind

datatype file_operation_type = Restore | Replace | Delete | SetMetadata

record file_operation =
  operation_type :: file_operation_type
  operation_path :: tracked_path
  before_hash :: "object_id option"
  before_size :: "u64 option"
  before_modified :: "str option"
  after_hash :: "object_id option"
  after_size :: "u64 option"
  after_modified :: "str option"

record operation_plan =
  plan_schema_version :: u32
  plan_authorization :: str
  plan_checkpoint :: snapshot_id
  plan_kind :: operation_plan_kind
  plan_selected :: "tracked_path list option"
  plan_operations :: "file_operation list"
  plan_remove :: "tracked_path list"
  plan_create :: "tracked_path list"
  plan_warnings :: "str list"
  plan_restore_count :: nat
  plan_replace_count :: nat
  plan_delete_count :: nat
  plan_metadata_count :: nat
  plan_staged_bytes :: u64
  plan_backup_bytes :: u64
  plan_temporary_bytes :: u64
  plan_has_changes :: bool

definition OPERATION_PLAN_SCHEMA_VERSION :: u32 where
  "OPERATION_PLAN_SCHEMA_VERSION = 2"

definition count_type :: "file_operation_type \<Rightarrow> file_operation list \<Rightarrow> nat" where
  "count_type k ops = length (filter (\<lambda>o'. operation_type o' = k) ops)"

text \<open>The sizes that the operations stage and back up, in order.\<close>

definition staged_sizes :: "file_operation list \<Rightarrow> u64 list" where
  "staged_sizes ops =
     List.map_filter after_size (filter (\<lambda>o'. operation_type o' \<in> {Restore, Replace}) ops)"

definition backup_sizes :: "file_operation list \<Rightarrow> u64 list" where
  "backup_sizes ops =
     List.map_filter before_size (filter (\<lambda>o'. operation_type o' \<in> {Delete, Replace}) ops)"

definition operation_plan_new ::
  "snapshot_id \<Rightarrow> operation_plan_kind \<Rightarrow> tracked_path list option \<Rightarrow> file_operation list
    \<Rightarrow> operation_plan" where
  "operation_plan_new checkpoint kind selected operations =
     (let ops = sort_key operation_path operations;
          staged = fold (\<lambda>n total. saturating_add total n) (staged_sizes ops) 0;
          backup = fold (\<lambda>n total. saturating_add total n) (backup_sizes ops) 0
      in \<lparr>plan_schema_version = OPERATION_PLAN_SCHEMA_VERSION,
          plan_authorization = [],
          plan_checkpoint = checkpoint,
          plan_kind = kind,
          plan_selected = selected,
          plan_operations = ops,
          plan_remove = [],
          plan_create = [],
          plan_warnings = [],
          plan_restore_count = count_type Restore ops,
          plan_replace_count = count_type Replace ops,
          plan_delete_count = count_type Delete ops,
          plan_metadata_count = count_type SetMetadata ops,
          plan_staged_bytes = staged,
          plan_backup_bytes = backup,
          plan_temporary_bytes = saturating_add staged backup,
          plan_has_changes = (ops \<noteq> [])\<rparr>)"

definition with_warnings :: "str list \<Rightarrow> operation_plan \<Rightarrow> operation_plan" where
  "with_warnings warnings plan = plan\<lparr>plan_warnings := warnings\<rparr>"

text \<open>Directories are removed deepest first, and created in path order.\<close>

definition slash_count :: "tracked_path \<Rightarrow> nat" where
  "slash_count p = count_list (tracked_as_str p) 0x2F"

definition deepest_first :: "tracked_path list \<Rightarrow> tracked_path list" where
  "deepest_first = sort_key (\<lambda>p. (- int (slash_count p), p))"

definition with_directory_changes ::
  "tracked_path list \<Rightarrow> tracked_path list \<Rightarrow> operation_plan \<Rightarrow> operation_plan" where
  "with_directory_changes remove create plan =
     (let remove = dedup (deepest_first remove); create = dedup (sort create) in
      plan\<lparr>plan_has_changes := (plan_has_changes plan \<or> remove \<noteq> [] \<or> create \<noteq> []),
           plan_remove := remove,
           plan_create := create\<rparr>)"

section \<open>Checking a plan\<close>

definition checked_sum :: "u64 list \<Rightarrow> u64 option" where
  "checked_sum ns = fold (\<lambda>n total. Option.bind total (\<lambda>t. checked_add t n)) ns (Some 0)"

text \<open>A normalised directory list equals its own sorting without repetitions.\<close>

definition validate_journal_directory_topology ::
  "file_operation list \<Rightarrow> tracked_path list \<Rightarrow> tracked_path list \<Rightarrow> unit result" where
  "validate_journal_directory_topology operations remove create =
     (let after_files = map operation_path (filter (\<lambda>o'. after_hash o' \<noteq> None) operations) in
      if dedup (deepest_first remove) \<noteq> remove \<or> dedup (sort create) \<noteq> create
      then Inl (Corruption (lit ''transaction directory topology is not normalized''))
      else
      res_bind (try_all (\<lambda>d. ensure (\<exists>f \<in> set after_files. path_is_same_or_descendant d f)
         (Corruption (lit ''transaction removes an unrelated directory''))) remove) (\<lambda>_.
      try_all (\<lambda>d. ensure (\<exists>f \<in> set after_files. path_is_strict_descendant f d)
         (Corruption (lit ''transaction creates an unrelated directory''))) create))"

definition no_before :: "file_operation \<Rightarrow> bool" where
  "no_before o' \<longleftrightarrow> before_hash o' = None \<and> before_size o' = None \<and> before_modified o' = None"

definition has_before :: "file_operation \<Rightarrow> bool" where
  "has_before o' \<longleftrightarrow> before_hash o' \<noteq> None \<and> before_size o' \<noteq> None \<and> before_modified o' \<noteq> None"

definition no_after :: "file_operation \<Rightarrow> bool" where
  "no_after o' \<longleftrightarrow> after_hash o' = None \<and> after_size o' = None \<and> after_modified o' = None"

definition after_is :: "snapshot_entry \<Rightarrow> file_operation \<Rightarrow> bool" where
  "after_is file o' \<longleftrightarrow>
     after_hash o' = Some (content_hash file) \<and> after_size o' = Some (content_size_bytes file)
     \<and> after_modified o' = Some (snap_modified file)"

definition validate_operation ::
  "(tracked_path \<Rightarrow> snapshot_entry option) \<Rightarrow> file_operation \<Rightarrow> unit result" where
  "validate_operation snapshot_files o' =
     (case operation_type o' of
        Restore \<Rightarrow>
          res_bind (ok_or (Corruption (lit ''restore operation missing snapshot entry''))
            (snapshot_files (operation_path o'))) (\<lambda>file.
          ensure (no_before o' \<and> after_is file o') (Corruption (lit ''invalid restore operation'')))
      | Replace \<Rightarrow>
          res_bind (ok_or (Corruption (lit ''replace operation missing snapshot entry''))
            (snapshot_files (operation_path o'))) (\<lambda>file.
          ensure (has_before o' \<and> after_is file o') (Corruption (lit ''invalid replace operation'')))
      | Delete \<Rightarrow>
          ensure (has_before o' \<and> no_after o' \<and> snapshot_files (operation_path o') = None)
            (Corruption (lit ''invalid delete operation''))
      | SetMetadata \<Rightarrow>
          res_bind (ok_or (Corruption (lit ''metadata operation missing snapshot entry''))
            (snapshot_files (operation_path o'))) (\<lambda>file.
          ensure (has_before o' \<and> before_hash o' = Some (content_hash file)
              \<and> before_size o' = Some (content_size_bytes file) \<and> after_is file o'
              \<and> before_modified o' \<noteq> after_modified o')
            (Corruption (lit ''invalid metadata operation''))))"

definition validate_journal_operations ::
  "(snapshot_id \<Rightarrow> snapshot_file result) \<Rightarrow> snapshot_id \<Rightarrow> file_operation list \<Rightarrow> unit result" where
  "validate_journal_operations load checkpoint operations =
     (if sort_key operation_path operations \<noteq> operations
      then Inl (Corruption (lit ''transaction operations are not sorted''))
      else if \<exists>(a, b) \<in> set (windows2 operations). operation_path a = operation_path b
      then Inl (Corruption (lit ''transaction operations contain duplicate paths''))
      else
      res_bind (load checkpoint) (\<lambda>snapshot.
      try_all (validate_operation (map_of (files_by_path snapshot))) operations))"

definition plan_counts_match :: "operation_plan \<Rightarrow> bool" where
  "plan_counts_match plan \<longleftrightarrow>
     plan_restore_count plan = count_type Restore (plan_operations plan)
     \<and> plan_replace_count plan = count_type Replace (plan_operations plan)
     \<and> plan_delete_count plan = count_type Delete (plan_operations plan)
     \<and> plan_metadata_count plan = count_type SetMetadata (plan_operations plan)
     \<and> plan_has_changes plan =
         (plan_operations plan \<noteq> [] \<or> plan_remove plan \<noteq> [] \<or> plan_create plan \<noteq> [])"

definition validate_plan_bytes :: "operation_plan \<Rightarrow> unit result" where
  "validate_plan_bytes plan =
     res_bind (ok_or (Corruption (lit ''operation staged byte total overflow''))
       (checked_sum (staged_sizes (plan_operations plan)))) (\<lambda>staged.
     res_bind (ok_or (Corruption (lit ''operation backup byte total overflow''))
       (checked_sum (backup_sizes (plan_operations plan)))) (\<lambda>backup.
     res_bind (ok_or (Corruption (lit ''operation temporary byte total overflow''))
       (checked_add staged backup)) (\<lambda>temporary.
     ensure (plan_staged_bytes plan = staged \<and> plan_backup_bytes plan = backup
         \<and> plan_temporary_bytes plan = temporary)
       (Corruption (lit ''operation plan byte estimates are inconsistent'')))))"

definition validate_plan_selection :: "operation_plan \<Rightarrow> unit result" where
  "validate_plan_selection plan =
     (case plan_kind plan of
        RestoreKind \<Rightarrow>
          ensure (plan_selected plan = None)
            (Corruption (lit ''restore plan must not include selected paths''))
      | DiscardKind \<Rightarrow>
          res_bind (ok_or (Corruption (lit ''discard plan requires selected paths''))
            (plan_selected plan)) (\<lambda>selected.
          if selected = [] \<or> length (btree_set selected) \<noteq> length selected
             \<or> selected \<noteq> btree_set selected
          then Inl (Corruption (lit ''discard plan selected paths are not normalized''))
          else ensure (\<forall>o' \<in> set (plan_operations plan). operation_path o' \<in> set selected)
            (Corruption (lit ''discard plan operations exceed the selected scope''))))"

definition validate_plan_shape ::
  "(snapshot_id \<Rightarrow> snapshot_file result) \<Rightarrow> operation_plan \<Rightarrow> unit result" where
  "validate_plan_shape load plan =
     (if plan_schema_version plan \<noteq> OPERATION_PLAN_SCHEMA_VERSION
      then Inl (Corruption (lit ''unsupported operation plan schema version''))
      else if plan_warnings plan \<noteq> []
      then Inl (Corruption (lit ''operation plan contains scan warnings and cannot be applied''))
      else if \<not> plan_counts_match plan
      then Inl (Corruption (lit ''operation plan counts are inconsistent''))
      else
      res_bind (validate_plan_bytes plan) (\<lambda>_.
      if dedup (deepest_first (plan_remove plan)) \<noteq> plan_remove plan
         \<or> dedup (sort (plan_create plan)) \<noteq> plan_create plan
      then Inl (Corruption (lit ''operation plan directory topology is not normalized''))
      else
      res_bind (validate_plan_selection plan) (\<lambda>_.
      res_bind (validate_journal_operations load (plan_checkpoint plan) (plan_operations plan)) (\<lambda>_.
      validate_journal_directory_topology (plan_operations plan) (plan_remove plan)
        (plan_create plan)))))"

section \<open>Disk space\<close>

definition estimated_repository_required_bytes :: "operation_plan \<Rightarrow> u64" where
  "estimated_repository_required_bytes plan =
     saturating_add (plan_staged_bytes plan) (plan_backup_bytes plan)"

definition operation_required_bytes :: "file_operation \<Rightarrow> u64" where
  "operation_required_bytes o' =
     (case operation_type o' of
        Restore \<Rightarrow> (case after_size o' of Some n \<Rightarrow> n | None \<Rightarrow> 0)
      | Replace \<Rightarrow>
          saturating_sub (case after_size o' of Some n \<Rightarrow> n | None \<Rightarrow> 0)
            (case before_size o' of Some n \<Rightarrow> n | None \<Rightarrow> 0)
      | Delete \<Rightarrow> 0
      | SetMetadata \<Rightarrow> 0)"

definition estimated_project_required_bytes :: "operation_plan \<Rightarrow> u64" where
  "estimated_project_required_bytes plan =
     sum_list (map operation_required_bytes (plan_operations plan))"

section \<open>Authorization\<close>

text \<open>The comparison of two authorization strings, by the difference of all their bytes.\<close>

definition authorization_matches :: "str \<Rightarrow> str \<Rightarrow> bool" where
  "authorization_matches actual expected \<longleftrightarrow>
     (if length actual \<noteq> length expected then False
      else fold (\<lambda>(l, r) difference. difference OR (l XOR r)) (zip actual expected) 0 = 0)"

text \<open>
  The key, a keyed BLAKE3 hash and the JSON rendering of a plan are not in the repository's
  source; the authorization of a plan is the keyed hash of the plan with an empty authorization.
\<close>

definition operation_plan_authorization ::
  "(operation_plan \<Rightarrow> bytes) \<Rightarrow> (bytes \<Rightarrow> str) \<Rightarrow> operation_plan \<Rightarrow> str" where
  "operation_plan_authorization to_json keyed_hash plan =
     keyed_hash (to_json (plan\<lparr>plan_authorization := []\<rparr>))"

definition authorize_operation_plan ::
  "(operation_plan \<Rightarrow> bytes) \<Rightarrow> (bytes \<Rightarrow> str) \<Rightarrow> operation_plan \<Rightarrow> operation_plan" where
  "authorize_operation_plan to_json keyed_hash plan =
     plan\<lparr>plan_authorization := operation_plan_authorization to_json keyed_hash plan\<rparr>"

definition validate_operation_plan_authorization ::
  "(operation_plan \<Rightarrow> bytes) \<Rightarrow> (bytes \<Rightarrow> str) \<Rightarrow> operation_plan \<Rightarrow> unit result" where
  "validate_operation_plan_authorization to_json keyed_hash plan =
     ensure (authorization_matches (plan_authorization plan)
         (operation_plan_authorization to_json keyed_hash plan))
       (Corruption (lit ''operation plan authorization is invalid; preview the operation again''))"

section \<open>What the checks establish\<close>

lemma u64_less: "unat (s :: u64) < 18446744073709551616"
  using unsigned_less [of s, where ?'a = nat] by simp

lemma byte_xor_0_iff: "l XOR r = (0 :: byte) \<longleftrightarrow> l = r"
  by (auto simp: bit_eq_iff bit_simps)

lemma fold_difference:
  "fold (\<lambda>(l, r) d. d OR (l XOR r)) xs d = (0 :: byte) \<longleftrightarrow> d = 0 \<and> (\<forall>(l, r) \<in> set xs. l = r)"
  by (induction xs arbitrary: d) (auto simp: or_eq_0_iff byte_xor_0_iff)

lemma authorization_matches_iff [simp]: "authorization_matches a e \<longleftrightarrow> a = e"
proof
  assume m: "authorization_matches a e"
  then have len: "length a = length e" by (simp add: authorization_matches_def split: if_splits)
  with m have "\<forall>(l, r) \<in> set (zip a e). l = r"
    unfolding authorization_matches_def by (simp only: fold_difference if_False simp_thms)
  with len show "a = e" by (auto simp: list_eq_iff_zip_eq)
next
  assume "a = e"
  then show "authorization_matches a e"
    unfolding authorization_matches_def by (simp only: fold_difference) (auto simp: set_zip)
qed

lemma fold_checked_None: "fold (\<lambda>n total. Option.bind total (\<lambda>t. checked_add t n)) ns None = None"
  by (induction ns) auto

lemma fold_checked_Some_iff:
  "fold (\<lambda>n total. Option.bind total (\<lambda>t. checked_add t n)) ns (Some t) = Some s \<longleftrightarrow>
     unat s = unat t + sum_list (map unat ns)" for s t :: u64
proof (induction ns arbitrary: t)
  case (Cons n ns)
  show ?case
  proof (cases "checked_add t n")
    case None
    then have "2 ^ 64 \<le> unat t + unat n"
      using checked_add_Some_iff [of t n "t + n"] unat_add_lem [of t n] by (auto simp: not_less)
    then show ?thesis
      using None u64_less [of s] by (simp add: fold_checked_None)
  next
    case (Some r)
    then have "unat r = unat t + unat n" by (simp add: checked_add_Some_iff)
    with Some Cons show ?thesis by (simp add: add.assoc)
  qed
qed (auto simp: word_unat_eq_iff)

lemma checked_sum_Some_iff: "checked_sum ns = Some s \<longleftrightarrow> unat s = sum_list (map unat ns)"
  by (simp add: checked_sum_def fold_checked_Some_iff)

lemma checked_sum_saturating:
  assumes "checked_sum ns = Some s"
  shows "fold (\<lambda>n total. saturating_add total n) ns 0 = s"
proof -
  have "unat (t :: u64) + sum_list (map unat ns) < 2 ^ 64 \<Longrightarrow>
    unat (fold (\<lambda>n total. saturating_add total n) ns t) = unat t + sum_list (map unat ns)" for t
  proof (induction ns arbitrary: t)
    case (Cons n ns)
    then have "unat t + unat n < 2 ^ LENGTH(64)" by simp
    then have "unat (saturating_add t n) = unat t + unat n"
      by (simp add: saturating_add_def checked_add_def unat_add_lem [symmetric])
    with Cons show ?case by simp
  qed simp
  from this [of 0] show ?thesis
    using assms u64_less [of s] by (simp add: checked_sum_Some_iff word_unat_eq_iff)
qed


section \<open>The effect of a plan on the tracked files\<close>

text \<open>The tracked files as a map from paths to what an operation records of a file.\<close>

type_synonym file_map = "tracked_path \<Rightarrow> current_file_state option"

definition entry_state :: "snapshot_entry \<Rightarrow> current_file_state" where
  "entry_state e =
     \<lparr>state_hash = content_hash e, state_size = content_size_bytes e, state_modified = snap_modified e\<rparr>"

definition snapshot_states :: "snapshot_file \<Rightarrow> file_map" where
  "snapshot_states s p = map_option entry_state (map_of (files_by_path s) p)"

definition state_of_parts ::
  "object_id option \<Rightarrow> u64 option \<Rightarrow> str option \<Rightarrow> current_file_state option" where
  "state_of_parts h n m =
     (case (h, n, m) of
        (Some h, Some n, Some m) \<Rightarrow> Some \<lparr>state_hash = h, state_size = n, state_modified = m\<rparr>
      | _ \<Rightarrow> None)"

definition before_state :: "file_operation \<Rightarrow> current_file_state option" where
  "before_state o' = state_of_parts (before_hash o') (before_size o') (before_modified o')"

definition after_state :: "file_operation \<Rightarrow> current_file_state option" where
  "after_state o' = state_of_parts (after_hash o') (after_size o') (after_modified o')"

definition apply_operations :: "file_operation list \<Rightarrow> file_map \<Rightarrow> file_map" where
  "apply_operations ops m = fold (\<lambda>o' m. m(operation_path o' := after_state o')) ops m"

definition operation_paths :: "file_operation list \<Rightarrow> tracked_path set" where
  "operation_paths ops = operation_path ` set ops"

lemma apply_operations_other:
  "p \<notin> operation_paths ops \<Longrightarrow> apply_operations ops m p = m p"
  by (induction ops arbitrary: m) (auto simp: apply_operations_def operation_paths_def)

lemma apply_operations_at:
  "distinct (map operation_path ops) \<Longrightarrow> o' \<in> set ops \<Longrightarrow>
   apply_operations ops m (operation_path o') = after_state o'"
proof (induction ops arbitrary: m)
  case (Cons x ops)
  have step: "apply_operations (x # ops) m = apply_operations ops (m(operation_path x := after_state x))"
    by (simp add: apply_operations_def)
  show ?case
  proof (cases "o' = x")
    case True
    with Cons.prems have "operation_path o' \<notin> operation_paths ops" by (auto simp: operation_paths_def)
    with True show ?thesis by (simp add: step apply_operations_other)
  next
    case False
    with Cons show ?thesis by (simp add: step)
  qed
qed simp

text \<open>What \<open>validate_operation\<close> accepts, by the type of the operation.\<close>

definition operation_fits :: "(tracked_path \<Rightarrow> snapshot_entry option) \<Rightarrow> file_operation \<Rightarrow> bool" where
  "operation_fits files o' \<longleftrightarrow>
     after_state o' = map_option entry_state (files (operation_path o'))
     \<and> (case operation_type o' of
          Restore \<Rightarrow> no_before o' \<and> after_state o' \<noteq> None
        | Replace \<Rightarrow> before_state o' \<noteq> None \<and> after_state o' \<noteq> None
        | Delete \<Rightarrow> before_state o' \<noteq> None \<and> no_after o'
        | SetMetadata \<Rightarrow>
            (\<exists>b a. before_state o' = Some b \<and> after_state o' = Some a
              \<and> state_hash b = state_hash a \<and> state_size b = state_size a
              \<and> state_modified b \<noteq> state_modified a))"

lemma before_state_None: "no_before o' \<Longrightarrow> before_state o' = None"
  by (simp add: no_before_def before_state_def state_of_parts_def)

lemma after_state_None: "no_after o' \<Longrightarrow> after_state o' = None"
  by (simp add: no_after_def after_state_def state_of_parts_def)

lemma has_before_iff: "has_before o' \<longleftrightarrow> before_state o' \<noteq> None"
  by (auto simp: has_before_def before_state_def state_of_parts_def split: option.splits)

lemma after_is_iff: "after_is file o' \<longleftrightarrow> after_state o' = Some (entry_state file)"
  by (auto simp: after_is_def after_state_def state_of_parts_def entry_state_def split: option.splits)

lemma before_state_Some:
  "before_state o' = Some b \<longleftrightarrow>
     before_hash o' = Some (state_hash b) \<and> before_size o' = Some (state_size b)
     \<and> before_modified o' = Some (state_modified b)"
  by (cases b) (auto simp: before_state_def state_of_parts_def split: option.splits)

lemma after_state_Some:
  "after_state o' = Some a \<longleftrightarrow>
     after_hash o' = Some (state_hash a) \<and> after_size o' = Some (state_size a)
     \<and> after_modified o' = Some (state_modified a)"
  by (cases a) (auto simp: after_state_def state_of_parts_def split: option.splits)

lemma validate_operation_iff: "validate_operation files o' = Inr u \<longleftrightarrow> operation_fits files o'"
proof (cases "operation_type o' = SetMetadata")
  case True
  show ?thesis
  proof (cases "before_state o'"; cases "files (operation_path o')")
    fix b f assume b: "before_state o' = Some b" and "files (operation_path o') = Some f"
    moreover have "before_hash o' = Some (state_hash b)" "before_size o' = Some (state_size b)"
      "before_modified o' = Some (state_modified b)" using b by (simp_all add: before_state_Some)
    ultimately show ?thesis
      using True by (auto simp: validate_operation_def operation_fits_def res_simps after_is_iff
          has_before_iff entry_state_def after_state_Some intro!: exI [of _ "entry_state f"])
  qed (use True in \<open>auto simp: validate_operation_def operation_fits_def res_simps has_before_iff\<close>)
next
  case False
  then show ?thesis
    by (cases "operation_type o'"; cases "files (operation_path o')")
      (auto simp: validate_operation_def operation_fits_def res_simps after_is_iff has_before_iff
        after_state_None)
qed

lemma strictly_sorted_operations:
  "sort_key operation_path ops = ops
    \<and> \<not> (\<exists>(a, b) \<in> set (windows2 ops). operation_path a = operation_path b) \<longleftrightarrow>
   sorted_wrt (<) (map operation_path ops)"
proof -
  have t: "transp (\<lambda>a b. operation_path a \<le> operation_path b)"
    "transp (\<lambda>a b. operation_path a < operation_path b)"
    by (auto simp: transp_def)
  have "sort_key operation_path ops = ops \<longleftrightarrow> sorted (map operation_path ops)"
    by (metis sorted_sort_key sort_key_id_if_sorted)
  also have "\<dots> \<longleftrightarrow> (\<forall>(a, b) \<in> set (windows2 ops). operation_path a \<le> operation_path b)"
    using windows2_sorted_wrt [OF t(1), of ops] by (simp add: sorted_wrt_map)
  finally show ?thesis
    using windows2_sorted_wrt [OF t(2), of ops] by (force simp: sorted_wrt_map)
qed

lemma validate_journal_operations_iff:
  "validate_journal_operations load checkpoint ops = Inr u \<longleftrightarrow>
     sorted_wrt (<) (map operation_path ops)
     \<and> (\<exists>s. load checkpoint = Inr s \<and> (\<forall>o' \<in> set ops. operation_fits (map_of (files_by_path s)) o'))"
proof -
  have "validate_journal_operations load checkpoint ops = Inr u \<longleftrightarrow>
      (sort_key operation_path ops = ops
        \<and> \<not> (\<exists>(a, b) \<in> set (windows2 ops). operation_path a = operation_path b))
      \<and> (\<exists>s. load checkpoint = Inr s \<and> (\<forall>o' \<in> set ops. operation_fits (map_of (files_by_path s)) o'))"
    by (auto simp: validate_journal_operations_def res_simps validate_operation_iff)
  then show ?thesis by (simp only: strictly_sorted_operations)
qed

lemma slash_count_segments: "Suc (slash_count p) = length (path_segments p)"
proof -
  have "Suc (count_list s 0x2F) = length (split_on 0x2F s)" for s :: str
  proof (induction s)
    case (Cons b s)
    then show ?case by (cases "split_on 0x2F s") auto
  qed simp
  then show ?thesis by (simp add: slash_count_def path_segments_def)
qed

lemma validate_journal_directory_topology_iff:
  "validate_journal_directory_topology ops remove create = Inr u \<longleftrightarrow>
     dedup (deepest_first remove) = remove \<and> dedup (sort create) = create
     \<and> (\<forall>d \<in> set remove. \<exists>o' \<in> set ops. after_hash o' \<noteq> None \<and> path_is_same_or_descendant d (operation_path o'))
     \<and> (\<forall>d \<in> set create. \<exists>o' \<in> set ops. after_hash o' \<noteq> None \<and> path_is_strict_descendant (operation_path o') d)"
  by (auto simp: validate_journal_directory_topology_def res_simps Let_def Bex_def)

lemma validate_plan_bytes_iff:
  "validate_plan_bytes plan = Inr u \<longleftrightarrow>
     unat (plan_staged_bytes plan) = sum_list (map unat (staged_sizes (plan_operations plan)))
     \<and> unat (plan_backup_bytes plan) = sum_list (map unat (backup_sizes (plan_operations plan)))
     \<and> unat (plan_temporary_bytes plan) = unat (plan_staged_bytes plan) + unat (plan_backup_bytes plan)"
  by (auto simp: validate_plan_bytes_def res_simps checked_sum_Some_iff checked_add_Some_iff)

lemma validate_plan_selection_iff:
  "validate_plan_selection plan = Inr u \<longleftrightarrow>
     (case plan_kind plan of
        RestoreKind \<Rightarrow> plan_selected plan = None
      | DiscardKind \<Rightarrow> (\<exists>selected. plan_selected plan = Some selected \<and> selected \<noteq> []
          \<and> sorted_wrt (<) selected \<and> operation_paths (plan_operations plan) \<subseteq> set selected))"
proof -
  have "selected = btree_set selected \<longleftrightarrow> sorted_wrt (<) selected" for selected :: "tracked_path list"
    by (metis btree_set_id sorted_btree_set)
  then show ?thesis
    by (cases "plan_kind plan"; cases "plan_selected plan")
      (auto simp: validate_plan_selection_def res_simps operation_paths_def btree_set_id)
qed

lemma validate_plan_shape_iff:
  "validate_plan_shape load plan = Inr u \<longleftrightarrow>
     plan_schema_version plan = OPERATION_PLAN_SCHEMA_VERSION \<and> plan_warnings plan = []
     \<and> plan_counts_match plan \<and> validate_plan_bytes plan = Inr ()
     \<and> validate_plan_selection plan = Inr ()
     \<and> validate_journal_operations load (plan_checkpoint plan) (plan_operations plan) = Inr ()
     \<and> validate_journal_directory_topology (plan_operations plan) (plan_remove plan) (plan_create plan) = Inr ()"
  by (auto simp: validate_plan_shape_def res_simps validate_journal_directory_topology_iff)

lemma operations_distinct:
  "validate_journal_operations load checkpoint ops = Inr u \<Longrightarrow> distinct (map operation_path ops)"
  by (simp add: validate_journal_operations_iff sorted_lt_distinct)

lemma validated_operations_effect:
  assumes "validate_journal_operations load checkpoint ops = Inr u" and "load checkpoint = Inr s"
  shows "apply_operations ops m = (\<lambda>p. if p \<in> operation_paths ops then snapshot_states s p else m p)"
proof
  fix p
  show "apply_operations ops m p = (if p \<in> operation_paths ops then snapshot_states s p else m p)"
  proof (cases "p \<in> operation_paths ops")
    case True
    then obtain x where x: "x \<in> set ops" "p = operation_path x" by (auto simp: operation_paths_def)
    with assms have "operation_fits (map_of (files_by_path s)) x"
      by (auto simp: validate_journal_operations_iff)
    then have "after_state x = snapshot_states s p"
      by (simp add: operation_fits_def snapshot_states_def x)
    with x True operations_distinct [OF assms(1)] show ?thesis
      by (simp add: apply_operations_at)
  qed (simp add: apply_operations_other)
qed

end
