(* ===== verification/Scanner.thy ===== *)
theory Scanner
  imports ProjectTree
begin

text \<open>
  The scanner (\<open>scanner.rs\<close>): enumerating the tracked files of a project, assessing each against
  the cached fingerprints, and hashing the others. The three phases see the project directory at
  three moments, so a file may change between them.
\<close>

section \<open>Enumeration\<close>

record scan_warning =
  warning_path :: str
  warning_reason :: str

definition format_scan_warning :: "scan_warning \<Rightarrow> str" where
  "format_scan_warning w = warning_path w @ lit '': '' @ warning_reason w"

record pending_file =
  pending_path :: tracked_path
  pending_size :: u64
  pending_modified :: str
  pending_hash :: "object_id option"
  pending_fingerprint :: "str option"

text \<open>What one entry adds: files, warnings, and whether the scan is now incomplete.\<close>

type_synonym scan_step = "pending_file list \<times> scan_warning list \<times> bool"

definition scan_warned :: "str \<Rightarrow> string \<Rightarrow> scan_step" where
  "scan_warned p reason = ([], [\<lparr>warning_path = p, warning_reason = lit reason\<rparr>], True)"

definition collect_entry :: "project_tree \<Rightarrow> str \<Rightarrow> walk_entry \<Rightarrow> scan_step" where
  "collect_entry t root e =
     (case e of
        WalkError _ \<Rightarrow> scan_warned root ''directory walk failed''
      | WalkEntry q \<Rightarrow>
          (case project_lstat t q of
             Inl _ \<Rightarrow> scan_warned (joined q) ''path metadata could not be read''
           | Inr ProjectLink \<Rightarrow>
               scan_warned (joined q) ''symbolic links and reparse points are not supported''
           | Inr ProjectDirectory \<Rightarrow> ([], [], False)
           | Inr ProjectSpecial \<Rightarrow> ([], [], False)
           | Inr (ProjectFile bs m) \<Rightarrow>
               (case relative_of_entry q of
                  Inl _ \<Rightarrow> scan_warned (joined q) ''non-UTF-8 path component is not supported''
                | Inr relative \<Rightarrow>
                    if is_checkpo_temporary_file (joined q)
                    then ([], [\<lparr>warning_path = relative,
                               warning_reason = lit ''temporary CheckPo file was skipped''\<rparr>], False)
                    else
                      (case tracked_path_parse relative of
                         Inl _ \<Rightarrow> scan_warned relative ''invalid tracked path''
                       | Inr p \<Rightarrow>
                           ([\<lparr>pending_path = p, pending_size = of_nat (length bs),
                              pending_modified = m, pending_hash = None,
                              pending_fingerprint = None\<rparr>], [], False)))))"

definition append_step :: "scan_step \<Rightarrow> scan_step \<Rightarrow> scan_step" where
  "append_step a b =
     (case (a, b) of ((fs, ws, i), (fs', ws', i')) \<Rightarrow> (fs @ fs', ws @ ws', i \<or> i'))"

text \<open>A directory whose metadata cannot be read is not descended into.\<close>

definition skips_nothing :: "project_tree \<Rightarrow> walk_entry \<Rightarrow> bool" where
  "skips_nothing t e =
     (case e of
        WalkEntry q \<Rightarrow> \<forall>r \<in> set (proper_prefixes q). r \<notin> set (tree_unstatable t)
      | WalkError q \<Rightarrow> \<forall>r \<in> set (proper_prefixes q @ [q]). r \<notin> set (tree_unstatable t))"

definition collect_root :: "project_tree \<Rightarrow> str \<Rightarrow> scan_step" where
  "collect_root t root =
     (case project_lstat t [root] of
        Inr ProjectDirectory \<Rightarrow>
          fold (\<lambda>e s. append_step s (collect_entry t root e))
            (filter (skips_nothing t) (walk_dir t [root])) ([], [], False)
      | Inr ProjectLink \<Rightarrow> scan_warned root ''tracked root is a symbolic link or reparse point''
      | Inr _ \<Rightarrow> scan_warned root ''tracked root is not a directory''
      | Inl (Io _ NotFound) \<Rightarrow> ([], [], False)
      | Inl _ \<Rightarrow> scan_warned root ''tracked root metadata could not be read'')"

definition collect_project_files :: "project_tree \<Rightarrow> scan_step" where
  "collect_project_files t =
     (case fold (\<lambda>root s. append_step s (collect_root t root)) tracked_roots ([], [], False) of
        (files, warnings, incomplete) \<Rightarrow> (sort_key pending_path files, warnings, incomplete))"

record scanned_metadata_file =
  metadata_path :: tracked_path
  metadata_size :: u64
  metadata_modified :: str

definition scan_project_metadata ::
  "project_tree \<Rightarrow> scanned_metadata_file list \<times> scan_warning list \<times> bool" where
  "scan_project_metadata t =
     (case collect_project_files t of
        (files, warnings, incomplete) \<Rightarrow>
          (map (\<lambda>f. \<lparr>metadata_path = pending_path f, metadata_size = pending_size f,
                     metadata_modified = pending_modified f\<rparr>) files, warnings, incomplete))"

section \<open>Assessment and hashing\<close>

record cached_fingerprint =
  cached_mark :: str
  cached_size :: u64
  cached_object :: object_id

type_synonym fingerprint_cache = "tracked_path \<Rightarrow> cached_fingerprint option"
type_synonym baseline = "tracked_path \<Rightarrow> snapshot_entry option"

definition file_warning :: "pending_file \<Rightarrow> string \<Rightarrow> scan_warning" where
  "file_warning f reason =
     \<lparr>warning_path = tracked_as_str (pending_path f), warning_reason = lit reason\<rparr>"

text \<open>A cached hash is used again only where the fingerprint, the sizes, the hash and the
  modification time of the cache, the baseline and the file agree.\<close>

definition reused_hash ::
  "fingerprint_cache \<Rightarrow> baseline \<Rightarrow> pending_file \<Rightarrow> object_id option" where
  "reused_hash cached base f =
     (case (cached (pending_path f), base (pending_path f)) of
        (Some r, Some e) \<Rightarrow>
          if Some (cached_mark r) = pending_fingerprint f \<and> cached_size r = pending_size f
             \<and> snap_size e = pending_size f \<and> content_size_bytes e = pending_size f
             \<and> content_hash e = cached_object r \<and> snap_modified e = pending_modified f
          then Some (cached_object r) else None
      | _ \<Rightarrow> None)"

definition assess_file ::
  "project_tree \<Rightarrow> fingerprint_cache \<Rightarrow> baseline \<Rightarrow> pending_file
    \<Rightarrow> pending_file option \<times> scan_warning option" where
  "assess_file t cached base f =
     (case project_lstat t (path_segments (pending_path f)) of
        Inl _ \<Rightarrow> (None, Some (file_warning f ''file metadata could not be read safely''))
      | Inr (ProjectFile bs m) \<Rightarrow>
          if of_nat (length bs) \<noteq> pending_size f \<or> m \<noteq> pending_modified f
          then (None, Some (file_warning f ''file changed while it was being scanned''))
          else
            let f' = f\<lparr>pending_fingerprint := tree_fingerprint t (path_segments (pending_path f))\<rparr> in
            (Some (f'\<lparr>pending_hash := reused_hash cached base f'\<rparr>), None)
      | Inr _ \<Rightarrow>
          (None, Some (file_warning f ''symbolic links and non-regular files are not supported'')))"

text \<open>The files are assessed in groups, one for each parent directory, which is opened once.\<close>

definition pending_parent :: "pending_file \<Rightarrow> path" where
  "pending_parent f = butlast (path_segments (pending_path f))"

definition assess_group ::
  "project_tree \<Rightarrow> fingerprint_cache \<Rightarrow> baseline \<Rightarrow> path \<Rightarrow> pending_file list
    \<Rightarrow> (pending_file option \<times> scan_warning option) list" where
  "assess_group t cached base parent files =
     (case open_project_directory t parent of
        Inl _ \<Rightarrow>
          map (\<lambda>f. (None, Some (file_warning f ''file parent could not be opened safely''))) files
      | Inr _ \<Rightarrow> map (assess_file t cached base) files)"

definition assess_files ::
  "project_tree \<Rightarrow> fingerprint_cache \<Rightarrow> baseline \<Rightarrow> pending_file list
    \<Rightarrow> (pending_file option \<times> scan_warning option) list" where
  "assess_files t cached base files =
     concat (map (\<lambda>parent.
         assess_group t cached base parent (filter (\<lambda>f. pending_parent f = parent) files))
       (btree_set (map pending_parent files)))"

definition hash_file ::
  "(bytes \<Rightarrow> bytes) \<Rightarrow> project_tree \<Rightarrow> pending_file \<Rightarrow> pending_file \<times> scan_warning option" where
  "hash_file digest t f =
     (if pending_hash f \<noteq> None then (f, None)
      else case open_project_file t (path_segments (pending_path f)) of
        Inl _ \<Rightarrow> (f, Some (file_warning f ''file content could not be read''))
      | Inr (bs, m) \<Rightarrow>
          if of_nat (length bs) \<noteq> pending_size f \<or> m \<noteq> pending_modified f
             \<or> tree_fingerprint t (path_segments (pending_path f)) \<noteq> pending_fingerprint f
          then (f, Some (file_warning f ''file content could not be read''))
          else (f\<lparr>pending_hash := Some (object_id_from_bytes digest bs)\<rparr>, None))"

record scanned_file =
  scanned_path :: tracked_path
  scanned_size :: u64
  scanned_modified :: str
  scanned_hash :: object_id
  scanned_fingerprint :: "str option"

definition to_scanned :: "pending_file \<Rightarrow> scanned_file list" where
  "to_scanned f =
     (case pending_hash f of
        None \<Rightarrow> []
      | Some h \<Rightarrow> [\<lparr>scanned_path = pending_path f, scanned_size = pending_size f,
                   scanned_modified = pending_modified f, scanned_hash = h,
                   scanned_fingerprint = pending_fingerprint f\<rparr>])"

text \<open>
  \<open>t1\<close>, \<open>t2\<close> and \<open>t3\<close> are the project directory at the enumeration, at the assessment and at the
  hashing. Files whose hash is missing are dropped; what is left is sorted by path.
\<close>

definition scan_project_internal ::
  "(bytes \<Rightarrow> bytes) \<Rightarrow> project_tree \<Rightarrow> project_tree \<Rightarrow> project_tree \<Rightarrow> fingerprint_cache \<Rightarrow> baseline
    \<Rightarrow> scanned_file list \<times> scan_warning list \<times> bool" where
  "scan_project_internal digest t1 t2 t3 cached base =
     (case collect_project_files t1 of
        (files, warnings, incomplete) \<Rightarrow>
          let assessed = assess_files t2 cached base files;
              lost = List.map_filter snd assessed;
              hashed = map (hash_file digest t3) (List.map_filter fst assessed);
              unread = List.map_filter snd hashed
          in (sort_key scanned_path (concat (map (to_scanned \<circ> fst) hashed)),
              warnings @ lost @ unread,
              incomplete \<or> (\<exists>(f, w) \<in> set assessed. w \<noteq> None \<and> f = None) \<or> unread \<noteq> []))"

text \<open>Without a baseline, or with an empty cache, every file is hashed.\<close>

definition scan_project_for_checkpoint_with_baseline ::
  "(bytes \<Rightarrow> bytes) \<Rightarrow> project_tree \<Rightarrow> project_tree \<Rightarrow> project_tree \<Rightarrow> fingerprint_cache option
    \<Rightarrow> snapshot_file option \<Rightarrow> scanned_file list \<times> scan_warning list \<times> bool" where
  "scan_project_for_checkpoint_with_baseline digest t1 t2 t3 cached base =
     scan_project_internal digest t1 t2 t3
       (case cached of Some c \<Rightarrow> c | None \<Rightarrow> Map.empty)
       (case base of
          Some s \<Rightarrow> map_of (files_by_path s)
        | None \<Rightarrow> Map.empty)"

definition scan_project_for_checkpoint ::
  "(bytes \<Rightarrow> bytes) \<Rightarrow> project_tree \<Rightarrow> project_tree \<Rightarrow> project_tree \<Rightarrow> fingerprint_cache option
    \<Rightarrow> scanned_file list \<times> scan_warning list \<times> bool" where
  "scan_project_for_checkpoint digest t1 t2 t3 cached =
     scan_project_for_checkpoint_with_baseline digest t1 t2 t3 cached None"

section \<open>What a scan finds\<close>

lemma fold_append_step:
  "fold (\<lambda>e s. append_step s (c e)) es (fs, ws, i) =
     (fs @ concat (map (\<lambda>e. fst (c e)) es), ws @ concat (map (\<lambda>e. fst (snd (c e))) es),
      i \<or> (\<exists>e \<in> set es. snd (snd (c e))))"
proof (induction es arbitrary: fs ws i)
  case (Cons e es)
  then show ?case by (cases "c e") (auto simp: append_step_def)
qed simp

text \<open>The files a scan should find: the regular files below real directories of a tracked root
  that have a tracked path and are not temporary files of the program.\<close>

definition scannable :: "project_tree \<Rightarrow> tracked_path \<Rightarrow> bytes \<Rightarrow> str \<Rightarrow> bool" where
  "scannable t p bs m \<longleftrightarrow>
     project_node_at t (path_segments p) = Some (ProjectFile bs m)
     \<and> (\<forall>q \<in> set (proper_prefixes (path_segments p)). project_node_at t q = Some ProjectDirectory)
     \<and> tracked_path_valid p \<and> (\<forall>g \<in> set (path_segments p). utf8_valid g)
     \<and> \<not> is_checkpo_temporary_file (tracked_as_str p)"

definition tracked_states :: "(bytes \<Rightarrow> bytes) \<Rightarrow> project_tree \<Rightarrow> tracked_path \<Rightarrow> current_file_state option" where
  "tracked_states digest t p =
     (case project_node_at t (path_segments p) of
        Some (ProjectFile bs m) \<Rightarrow> if scannable t p bs m then Some (file_state digest bs m) else None
      | _ \<Rightarrow> None)"

lemma tracked_states_Some:
  "tracked_states digest t p = Some c \<longleftrightarrow> (\<exists>bs m. scannable t p bs m \<and> c = file_state digest bs m)"
  by (auto simp: tracked_states_def scannable_def split: option.splits project_node.splits)

lemma take_prefix: "n < length q \<Longrightarrow> 0 < n \<Longrightarrow> take n q \<in> set (proper_prefixes q)"
  by (auto simp: set_proper_prefixes)

lemma walked_prefixes:
  "walked t [root] q \<longleftrightarrow> q \<noteq> [] \<and> hd q = root \<and> (\<forall>r \<in> set (proper_prefixes q). descends t r)"
proof -
  have "starts_with [root] q \<longleftrightarrow> q \<noteq> [] \<and> hd q = root" by (cases q) (auto simp: starts_with_iff)
  then show ?thesis by (auto simp: walked_def set_proper_prefixes Suc_le_eq)
qed

lemma relative_of_entry_joined: "\<forall>g \<in> set q. utf8_valid g \<Longrightarrow> relative_of_entry q = Inr (joined q)"
  by (simp add: relative_of_entry_def try_map_relative)

text \<open>The pending entry of a file.\<close>

definition pending_of :: "tracked_path \<Rightarrow> bytes \<Rightarrow> str \<Rightarrow> pending_file" where
  "pending_of p bs m = \<lparr>pending_path = p, pending_size = of_nat (length bs), pending_modified = m,
     pending_hash = None, pending_fingerprint = None\<rparr>"

lemma collect_entry_file:
  "f \<in> set (fst (collect_entry t root e)) \<longleftrightarrow>
     (\<exists>q bs m p. e = WalkEntry q \<and> project_lstat t q = Inr (ProjectFile bs m)
        \<and> (\<forall>g \<in> set q. utf8_valid g) \<and> \<not> is_checkpo_temporary_file (joined q)
        \<and> tracked_path_parse (joined q) = Inr p \<and> f = pending_of p bs m)"
proof (cases e)
  case (WalkEntry q)
  show ?thesis
  proof (cases "\<exists>bs m. project_lstat t q = Inr (ProjectFile bs m)")
    case True
    then obtain bs m where l: "project_lstat t q = Inr (ProjectFile bs m)" by blast
    show ?thesis
    proof (cases "relative_of_entry q")
      case (Inl x)
      then have "\<not> (\<forall>g \<in> set q. utf8_valid g)" using relative_of_entry_joined [of q] by auto
      with Inl l WalkEntry show ?thesis by (auto simp: collect_entry_def scan_warned_def)
    next
      case (Inr s)
      with relative_of_entry_Inr [OF this] l WalkEntry show ?thesis
        by (auto simp: collect_entry_def scan_warned_def pending_of_def split: sum.splits)
    qed
  next
    case False
    then show ?thesis using WalkEntry
      by (auto simp: collect_entry_def scan_warned_def split: sum.splits project_node.splits)
  qed
qed (auto simp: collect_entry_def scan_warned_def)

lemma collect_root_unfold:
  assumes "project_lstat t [root] = Inr ProjectDirectory"
  shows "fst (collect_root t root) = concat (map (\<lambda>e. fst (collect_entry t root e))
           (filter (skips_nothing t) (walk_dir t [root])))"
    and "snd (snd (collect_root t root)) \<longleftrightarrow>
           (\<exists>e \<in> set (filter (skips_nothing t) (walk_dir t [root])). snd (snd (collect_entry t root e)))"
  using assms by (simp_all add: collect_root_def fold_append_step)

lemma collect_unfold:
  "set (fst (collect_project_files t)) = (\<Union>root \<in> set tracked_roots. set (fst (collect_root t root)))"
  "sorted (map pending_path (fst (collect_project_files t)))"
  "snd (snd (collect_project_files t)) \<longleftrightarrow> (\<exists>root \<in> set tracked_roots. snd (snd (collect_root t root)))"
  by (simp_all add: collect_project_files_def fold_append_step case_prod_beta)

lemma collect_root_file:
  assumes "f \<in> set (fst (collect_root t root))"
  shows "\<exists>q bs m p. WalkEntry q \<in> set (walk_dir t [root]) \<and> project_lstat t q = Inr (ProjectFile bs m)
    \<and> (\<forall>g \<in> set q. utf8_valid g) \<and> \<not> is_checkpo_temporary_file (joined q)
    \<and> tracked_path_parse (joined q) = Inr p \<and> f = pending_of p bs m"
proof -
  have "project_lstat t [root] = Inr ProjectDirectory"
    using assms by (auto simp: collect_root_def scan_warned_def
        split: sum.splits project_node.splits checkpo_error.splits io_error_kind.splits)
  from collect_root_unfold(1) [OF this] assms show ?thesis
    by (auto simp: collect_entry_file)
qed

lemma collect_sound:
  assumes wf: "project_tree_wf t" and f: "f \<in> set (fst (collect_project_files t))"
  shows "\<exists>bs m. f = pending_of (pending_path f) bs m \<and> scannable t (pending_path f) bs m"
proof -
  from f obtain root where "f \<in> set (fst (collect_root t root))" by (auto simp: collect_unfold)
  then obtain q bs m p where q: "WalkEntry q \<in> set (walk_dir t [root])"
    "project_lstat t q = Inr (ProjectFile bs m)" "\<forall>g \<in> set q. utf8_valid g"
    "\<not> is_checkpo_temporary_file (joined q)" "tracked_path_parse (joined q) = Inr p" "f = pending_of p bs m"
    using collect_root_file by blast
  have w: "project_node_at t q \<noteq> None" "walked t [root] q" using q(1) by (simp_all add: walk_entry_iff [OF wf])
  then have nm: "q \<noteq> []" "\<forall>s \<in> set q. 0x2F \<notin> set s" using tree_wf_names [OF wf] by auto
  have p: "path_segments p = q" "tracked_path_valid p" by (rule parsed_prefix [OF q(5) nm])+
  have str: "tracked_as_str p = joined q" using p(1) joined_segments by metis
  have "scannable t p bs m"
    using w(2) p q(3,4) project_lstat_Inr [OF q(2)]
    by (auto simp: scannable_def walked_prefixes descends_def str)
  then show ?thesis using q(6) by (auto simp: pending_of_def)
qed

lemma tracked_root_segment:
  "tracked_path_valid p \<Longrightarrow> hd (path_segments p) \<in> set tracked_roots \<and> 2 \<le> length (path_segments p)"
  by (simp add: tracked_path_valid_iff safe_segments_def path_segments_def)

lemma complete_root:
  assumes "\<not> snd (snd (collect_project_files t))" and "root \<in> set tracked_roots"
    and "project_node_at t [root] = Some n"
  shows "project_lstat t [root] = Inr ProjectDirectory"
proof -
  have "\<not> snd (snd (collect_root t root))" using assms(1,2) by (auto simp: collect_unfold)
  then show ?thesis using assms(3)
    by (auto simp: collect_root_def scan_warned_def project_lstat_def split: if_splits project_node.splits)
qed

text \<open>A complete scan reaches everything below real directories of a tracked root.\<close>

lemma collect_reaches:
  assumes wf: "project_tree_wf t" and full: "\<not> snd (snd (collect_project_files t))"
    and len: "2 \<le> length q" and rootq: "hd q \<in> set tracked_roots"
    and dirs: "\<forall>r \<in> set (proper_prefixes q). project_node_at t r = Some ProjectDirectory"
    and node: "project_node_at t q = Some n"
  shows "project_lstat t [hd q] = Inr ProjectDirectory"
    and "WalkEntry q \<in> set (filter (skips_nothing t) (walk_dir t [hd q]))"
    and "r \<in> set (proper_prefixes q @ [q]) \<Longrightarrow> r \<notin> set (tree_unstatable t)"
    and "r \<in> set (proper_prefixes q) \<Longrightarrow> r \<notin> set (tree_unreadable t)"
proof -
  let ?root = "hd q"
  have rootp: "[?root] \<in> set (proper_prefixes q)"
    using len by (cases q) (auto simp: set_proper_prefixes intro!: exI [of _ 1])
  have fullr: "\<not> snd (snd (collect_root t ?root))" using full rootq by (auto simp: collect_unfold)
  show root: "project_lstat t [?root] = Inr ProjectDirectory"
    using complete_root [OF full rootq] dirs rootp by blast
  note fulle = fullr [unfolded collect_root_unfold(2) [OF root]]
  txt \<open>Below the root every directory can be examined and opened, the shorter ones first.\<close>
  have good: "n < length q \<Longrightarrow> 0 < n \<Longrightarrow> take n q \<notin> set (tree_unstatable t) \<and> take n q \<notin> set (tree_unreadable t)" for n
  proof (induction n rule: less_induct)
    case (less n)
    let ?r = "take n q"
    have r: "?r \<in> set (proper_prefixes q)" using less.prems by (rule take_prefix)
    have rne: "?r \<noteq> []" "hd ?r = ?root" using less.prems len by (auto simp: hd_take)
    have sub: "s \<in> set (proper_prefixes ?r) \<Longrightarrow> \<exists>k. 0 < k \<and> k < n \<and> s = take k q" for s
      using less.prems by (auto simp: set_proper_prefixes)
    have below: "\<forall>s \<in> set (proper_prefixes ?r). descends t s \<and> s \<notin> set (tree_unstatable t)"
      using sub less.IH less.prems dirs take_prefix by (fastforce simp: descends_def)
    have nd: "project_node_at t ?r = Some ProjectDirectory" using dirs r by blast
    have w: "walked t [?root] ?r" using rne below by (simp add: walked_prefixes)
    then have e: "WalkEntry ?r \<in> set (filter (skips_nothing t) (walk_dir t [?root]))"
      using nd below by (auto simp: walk_entry_iff [OF wf] skips_nothing_def)
    then have "\<not> snd (snd (collect_entry t ?root (WalkEntry ?r)))" using fulle by blast
    then have st: "?r \<notin> set (tree_unstatable t)"
      by (auto simp: collect_entry_def scan_warned_def project_lstat_def)
    have "?r \<notin> set (tree_unreadable t)"
    proof
      assume "?r \<in> set (tree_unreadable t)"
      then have "WalkError ?r \<in> set (filter (skips_nothing t) (walk_dir t [?root]))"
        using nd below w st by (auto simp: walk_error_iff [OF wf] skips_nothing_def)
      then have "\<not> snd (snd (collect_entry t ?root (WalkError ?r)))" using fulle by blast
      then show False by (simp add: collect_entry_def scan_warned_def)
    qed
    with st show ?case by blast
  qed
  have pre: "r \<notin> set (tree_unstatable t) \<and> r \<notin> set (tree_unreadable t)" if "r \<in> set (proper_prefixes q)" for r
    using that good by (auto simp: set_proper_prefixes)
  have "q \<noteq> []" using len by auto
  then have w: "walked t [?root] q" using dirs pre by (auto simp: walked_prefixes descends_def)
  show e: "WalkEntry q \<in> set (filter (skips_nothing t) (walk_dir t [?root]))"
    using node w pre by (auto simp: walk_entry_iff [OF wf] skips_nothing_def)
  then have "\<not> snd (snd (collect_entry t ?root (WalkEntry q)))" using fulle by blast
  then have st: "q \<notin> set (tree_unstatable t)"
    by (auto simp: collect_entry_def scan_warned_def project_lstat_def)
  show "r \<in> set (proper_prefixes q @ [q]) \<Longrightarrow> r \<notin> set (tree_unstatable t)" using pre st by auto
  show "r \<in> set (proper_prefixes q) \<Longrightarrow> r \<notin> set (tree_unreadable t)" using pre by auto
qed

lemma collect_complete:
  assumes wf: "project_tree_wf t" and full: "\<not> snd (snd (collect_project_files t))"
    and p: "scannable t p bs m"
  shows "pending_of p bs m \<in> set (fst (collect_project_files t))"
    and "project_lstat t (path_segments p) = Inr (ProjectFile bs m)"
proof -
  let ?q = "path_segments p"
  have v: "hd ?q \<in> set tracked_roots" "2 \<le> length ?q" using p tracked_root_segment by (auto simp: scannable_def)
  have dirs: "\<forall>r \<in> set (proper_prefixes ?q). project_node_at t r = Some ProjectDirectory"
    and node: "project_node_at t ?q = Some (ProjectFile bs m)" using p by (auto simp: scannable_def)
  note reach = collect_reaches [OF wf full v(2,1) dirs node]
  show l: "project_lstat t ?q = Inr (ProjectFile bs m)" using node reach(3) [of ?q] by (simp add: project_lstat_def)
  have "tracked_path_parse (joined ?q) = Inr p"
    using p by (auto simp: scannable_def tracked_path_valid_iff tracked_path_parse_iff_segments)
  then have "pending_of p bs m \<in> set (fst (collect_entry t (hd ?q) (WalkEntry ?q)))"
    using p l by (simp add: collect_entry_file scannable_def)
  then have "pending_of p bs m \<in> set (fst (collect_root t (hd ?q)))"
    using reach(2) unfolding collect_root_unfold(1) [OF reach(1)] by auto
  then show "pending_of p bs m \<in> set (fst (collect_project_files t))"
    using v(1) by (auto simp: collect_unfold)
qed

text \<open>An incomplete scan warns, and so does one that meets a temporary file of the program.\<close>

lemma incomplete_entry: "snd (snd (collect_entry t root e)) \<Longrightarrow> fst (snd (collect_entry t root e)) \<noteq> []"
  by (cases e) (auto simp: collect_entry_def scan_warned_def split: sum.splits project_node.splits if_splits)

lemma incomplete_root: "snd (snd (collect_root t root)) \<Longrightarrow> fst (snd (collect_root t root)) \<noteq> []"
proof (cases "project_lstat t [root] = Inr ProjectDirectory")
  case True
  assume "snd (snd (collect_root t root))"
  then obtain e where "e \<in> set (filter (skips_nothing t) (walk_dir t [root]))"
    "fst (snd (collect_entry t root e)) \<noteq> []"
    using incomplete_entry unfolding collect_root_unfold(2) [OF True] by blast
  then show ?thesis using True by (auto simp: collect_root_def fold_append_step)
next
  case False
  assume "snd (snd (collect_root t root))"
  with False show ?thesis
    by (auto simp: collect_root_def scan_warned_def
        split: sum.splits project_node.splits checkpo_error.splits io_error_kind.splits)
qed

lemma collect_warnings:
  "fst (snd (collect_project_files t)) = concat (map (\<lambda>root. fst (snd (collect_root t root))) tracked_roots)"
  by (simp add: collect_project_files_def fold_append_step case_prod_beta)

lemma incomplete_collect: "snd (snd (collect_project_files t)) \<Longrightarrow> fst (snd (collect_project_files t)) \<noteq> []"
  using incomplete_root unfolding collect_unfold(3) collect_warnings by fastforce

lemma temporary_warns:
  assumes wf: "project_tree_wf t" and full: "\<not> snd (snd (collect_project_files t))"
    and p: "tracked_path_valid p" "\<forall>g \<in> set (path_segments p). utf8_valid g"
    and dirs: "\<forall>r \<in> set (proper_prefixes (path_segments p)). project_node_at t r = Some ProjectDirectory"
    and node: "project_node_at t (path_segments p) = Some (ProjectFile bs m)"
    and tmp: "is_checkpo_temporary_file (tracked_as_str p)"
  shows "fst (snd (collect_project_files t)) \<noteq> []"
proof -
  let ?q = "path_segments p"
  have v: "hd ?q \<in> set tracked_roots" "2 \<le> length ?q" using p(1) tracked_root_segment by auto
  note reach = collect_reaches [OF wf full v(2,1) dirs node]
  have "project_lstat t ?q = Inr (ProjectFile bs m)" using node reach(3) [of ?q] by (simp add: project_lstat_def)
  then have "fst (snd (collect_entry t (hd ?q) (WalkEntry ?q))) \<noteq> []"
    using relative_of_entry_joined [OF p(2)] tmp by (simp add: collect_entry_def)
  then have "fst (snd (collect_root t (hd ?q))) \<noteq> []"
    using reach(1,2) by (auto simp: collect_root_def fold_append_step)
  then show ?thesis using v(1) unfolding collect_warnings by auto
qed

lemma parent_segments: "butlast (path_segments p) = take (length (path_segments p) - 1) (path_segments p)"
  by (simp add: butlast_conv_take)

text \<open>What assessment makes of one file, its parent directory included.\<close>

definition assess_one ::
  "project_tree \<Rightarrow> fingerprint_cache \<Rightarrow> baseline \<Rightarrow> pending_file
    \<Rightarrow> pending_file option \<times> scan_warning option" where
  "assess_one t cached base f =
     (if is_ok (open_project_directory t (pending_parent f)) then assess_file t cached base f
      else (None, Some (file_warning f ''file parent could not be opened safely'')))"

lemma set_assess_files: "set (assess_files t cached base fs) = assess_one t cached base ` set fs"
proof -
  have g: "assess_group t cached base parent gs = map (assess_one t cached base) gs"
    if "\<forall>f \<in> set gs. pending_parent f = parent" for parent gs
    using that by (auto simp: assess_group_def assess_one_def split: sum.splits)
  have "assess_group t cached base parent (filter (\<lambda>f. pending_parent f = parent) fs)
      = map (assess_one t cached base) (filter (\<lambda>f. pending_parent f = parent) fs)" for parent
    by (rule g) simp
  then show ?thesis unfolding assess_files_def by auto
qed

lemma assess_file_cases:
  obtains (good) bs where "project_lstat t (path_segments (pending_path f)) = Inr (ProjectFile bs (pending_modified f))"
      "of_nat (length bs) = pending_size f"
      "assess_file t cached base f =
        (let f' = f\<lparr>pending_fingerprint := tree_fingerprint t (path_segments (pending_path f))\<rparr> in
         (Some (f'\<lparr>pending_hash := reused_hash cached base f'\<rparr>), None))"
  | (bad) w where "assess_file t cached base f = (None, Some w)"
proof (cases "project_lstat t (path_segments (pending_path f))")
  case (Inr n)
  show thesis
  proof (cases "\<exists>bs. n = ProjectFile bs (pending_modified f) \<and> of_nat (length bs) = pending_size f")
    case True
    then obtain bs where "n = ProjectFile bs (pending_modified f)" "of_nat (length bs) = pending_size f" by blast
    with Inr show thesis by (intro good [of bs]) (simp_all add: assess_file_def)
  next
    case False
    then have "\<exists>w. assess_file t cached base f = (None, Some w)"
      using Inr by (cases n) (auto simp: assess_file_def)
    then show thesis using bad by blast
  qed
qed (use bad in \<open>simp add: assess_file_def\<close>)

text \<open>The cache is honest for a tree when a file that matches a record has the recorded hash.\<close>

definition cache_honest :: "(bytes \<Rightarrow> bytes) \<Rightarrow> project_tree \<Rightarrow> fingerprint_cache \<Rightarrow> bool" where
  "cache_honest digest t cached \<longleftrightarrow>
     (\<forall>p r bs m. cached p = Some r \<longrightarrow> project_lstat t (path_segments p) = Inr (ProjectFile bs m)
        \<longrightarrow> tree_fingerprint t (path_segments p) = Some (cached_mark r)
        \<longrightarrow> of_nat (length bs) = cached_size r
        \<longrightarrow> cached_object r = object_id_from_bytes digest bs)"

lemma reused_hash_Some:
  "reused_hash cached base f = Some h \<Longrightarrow>
     \<exists>r. cached (pending_path f) = Some r \<and> pending_fingerprint f = Some (cached_mark r)
       \<and> cached_size r = pending_size f \<and> cached_object r = h"
  by (auto simp: reused_hash_def split: option.splits if_splits)

lemma reused_hash_honest:
  assumes "cache_honest digest t cached"
    and "project_lstat t (path_segments (pending_path f)) = Inr (ProjectFile bs m)"
    and "of_nat (length bs) = pending_size f"
    and "pending_fingerprint f = tree_fingerprint t (path_segments (pending_path f))"
    and "reused_hash cached base f = Some h"
  shows "h = object_id_from_bytes digest bs"
  using reused_hash_Some [OF assms(5)] assms(1-4) unfolding cache_honest_def by metis

text \<open>What becomes of one enumerated file.\<close>

definition scanned_as ::
  "(bytes \<Rightarrow> bytes) \<Rightarrow> project_tree \<Rightarrow> project_tree \<Rightarrow> fingerprint_cache \<Rightarrow> baseline \<Rightarrow> pending_file
    \<Rightarrow> scanned_file \<Rightarrow> bool" where
  "scanned_as digest t2 t3 cached base f x \<longleftrightarrow>
     (\<exists>f'. fst (assess_one t2 cached base f) = Some f' \<and> to_scanned (fst (hash_file digest t3 f')) = [x])"

lemma set_scan:
  assumes "scan_project_internal digest t1 t2 t3 cached base = (files, ws, inc)"
  shows "x \<in> set files \<longleftrightarrow> (\<exists>f \<in> set (fst (collect_project_files t1)). scanned_as digest t2 t3 cached base f x)"
    and "sorted (map scanned_path files)"
    and "\<not> inc \<Longrightarrow> \<not> snd (snd (collect_project_files t1))"
    and "\<not> inc \<Longrightarrow> f \<in> set (fst (collect_project_files t1)) \<Longrightarrow> \<exists>x. scanned_as digest t2 t3 cached base f x"
proof -
  obtain fs w0 i0 where c: "collect_project_files t1 = (fs, w0, i0)" by (cases "collect_project_files t1") auto
  let ?as = "assess_files t2 cached base fs"
  let ?hs = "map (hash_file digest t3) (List.map_filter fst ?as)"
  have files: "files = sort_key scanned_path (concat (map (to_scanned \<circ> fst) ?hs))"
    and inc: "inc \<longleftrightarrow> i0 \<or> (\<exists>(f, w) \<in> set ?as. w \<noteq> None \<and> f = None) \<or> List.map_filter snd ?hs \<noteq> []"
    using assms by (auto simp: scan_project_internal_def c Let_def)
  have one: "to_scanned g = [] \<or> (\<exists>y. to_scanned g = [y])" for g
    by (auto simp: to_scanned_def split: option.splits)
  have mem: "f' \<in> set (List.map_filter fst ?as) \<longleftrightarrow>
      (\<exists>f \<in> set fs. fst (assess_one t2 cached base f) = Some f')" for f'
    by (simp only: mem_map_filter_iff set_assess_files bex_simps image_iff Bex_def) blast
  have "x \<in> set files \<longleftrightarrow> (\<exists>f' \<in> set (List.map_filter fst ?as). x \<in> set (to_scanned (fst (hash_file digest t3 f'))))"
    by (simp add: files image_iff)
  also have "\<dots> \<longleftrightarrow> (\<exists>f' \<in> set (List.map_filter fst ?as). to_scanned (fst (hash_file digest t3 f')) = [x])"
    using one by (metis empty_iff empty_set list.set_intros(1) set_ConsD)
  finally show "x \<in> set files \<longleftrightarrow> (\<exists>f \<in> set (fst (collect_project_files t1)). scanned_as digest t2 t3 cached base f x)"
    unfolding c fst_conv scanned_as_def using mem by blast
  show "sorted (map scanned_path files)" by (simp add: files)
  show "\<not> snd (snd (collect_project_files t1))" if "\<not> inc" using that inc c by simp
  show "\<exists>x. scanned_as digest t2 t3 cached base f x"
    if ni: "\<not> inc" and f: "f \<in> set (fst (collect_project_files t1))"
  proof -
    let ?x = "assess_one t2 cached base f"
    have "?x \<in> set ?as" using f c by (simp add: set_assess_files)
    then have nn: "snd ?x = None \<or> fst ?x \<noteq> None" using ni inc by (cases ?x) auto
    obtain f' where f': "fst ?x = Some f'"
      using nn by (cases rule: assess_file_cases [of t2 f cached base]) (auto simp: Let_def assess_one_def split: if_splits)
    then have "f' \<in> set (List.map_filter fst ?as)" using mem f c by auto
    then have "snd (hash_file digest t3 f') = None" using ni inc by (auto simp: map_filter_def filter_empty_conv)
    then have "pending_hash (fst (hash_file digest t3 f')) \<noteq> None"
      by (auto simp: hash_file_def split: if_splits sum.splits)
    then obtain y where "to_scanned (fst (hash_file digest t3 f')) = [y]" by (auto simp: to_scanned_def)
    then show ?thesis using f' unfolding scanned_as_def by blast
  qed
qed

text \<open>A reported file has the state it had at the assessment or at the hashing.\<close>

definition observed :: "(bytes \<Rightarrow> bytes) \<Rightarrow> project_tree \<Rightarrow> scanned_file \<Rightarrow> bool" where
  "observed digest t x \<longleftrightarrow>
     (\<exists>bs. project_node_at t (path_segments (scanned_path x)) = Some (ProjectFile bs (scanned_modified x))
        \<and> of_nat (length bs) = scanned_size x \<and> scanned_hash x = object_id_from_bytes digest bs)"

lemma scanned_as_observed:
  assumes hon: "cache_honest digest t2 cached" and s: "scanned_as digest t2 t3 cached base f x"
    and f: "f = pending_of p bs m"
  shows "scanned_path x = p \<and> scanned_size x = of_nat (length bs) \<and> scanned_modified x = m
    \<and> (observed digest t2 x \<or> observed digest t3 x)"
proof -
  from s obtain f' where f': "fst (assess_file t2 cached base f) = Some f'"
    "to_scanned (fst (hash_file digest t3 f')) = [x]"
    by (auto simp: scanned_as_def assess_one_def split: if_splits)
  show ?thesis
  proof (cases rule: assess_file_cases [of t2 f cached base])
    case (good bs')
    let ?f = "f\<lparr>pending_fingerprint := tree_fingerprint t2 (path_segments (pending_path f))\<rparr>"
    have ff: "f' = ?f\<lparr>pending_hash := reused_hash cached base ?f\<rparr>"
      using f'(1) good(3) by (simp add: Let_def)
    show ?thesis
    proof (cases "reused_hash cached base ?f")
      case (Some h)
      have "h = object_id_from_bytes digest bs'"
        by (rule reused_hash_honest [OF hon, of ?f]) (use good Some in auto)
      then show ?thesis
        using Some f'(2) good(1,2) project_lstat_Inr [OF good(1)] f
        by (auto simp: ff hash_file_def to_scanned_def observed_def pending_of_def)
    next
      case None
      then show ?thesis
        using f'(2) f
        by (auto simp: ff hash_file_def to_scanned_def observed_def pending_of_def open_project_file_def
            res_simps split: sum.splits if_splits option.splits project_node.splits)
    qed
  qed (use f' in simp)
qed

lemma scan_observed:
  assumes wf: "project_tree_wf t1" and hon: "cache_honest digest t2 cached"
    and scan: "scan_project_internal digest t1 t2 t3 cached base = (files, ws, inc)"
    and x: "x \<in> set files"
  shows "\<exists>bs. scannable t1 (scanned_path x) bs (scanned_modified x) \<and> scanned_size x = of_nat (length bs)
    \<and> (observed digest t2 x \<or> observed digest t3 x)"
proof -
  obtain f where f: "f \<in> set (fst (collect_project_files t1))" "scanned_as digest t2 t3 cached base f x"
    using x set_scan(1) [OF scan] by blast
  obtain bs m where bs: "f = pending_of (pending_path f) bs m" "scannable t1 (pending_path f) bs m"
    using collect_sound [OF wf f(1)] by blast
  with scanned_as_observed [OF hon f(2) bs(1)] show ?thesis by auto
qed

text \<open>On a directory that stays still, a complete scan reports exactly the scannable files.\<close>

lemma scan_still:
  assumes wf: "project_tree_wf t" and hon: "cache_honest digest t cached"
    and scan: "scan_project_internal digest t t t cached base = (files, ws, False)"
  shows "x \<in> set files \<Longrightarrow> \<exists>bs m. scannable t (scanned_path x) bs m
      \<and> \<lparr>state_hash = scanned_hash x, state_size = scanned_size x, state_modified = scanned_modified x\<rparr>
          = file_state digest bs m"
    and "scannable t p bs m \<Longrightarrow> \<exists>x \<in> set files. scanned_path x = p"
proof -
  show "\<exists>bs m. scannable t (scanned_path x) bs m
      \<and> \<lparr>state_hash = scanned_hash x, state_size = scanned_size x, state_modified = scanned_modified x\<rparr>
          = file_state digest bs m" if "x \<in> set files"
    using scan_observed [OF wf hon scan that]
    by (auto simp: observed_def scannable_def file_state_def)
  show "\<exists>x \<in> set files. scanned_path x = p" if p: "scannable t p bs m"
  proof -
    have full: "\<not> snd (snd (collect_project_files t))" using set_scan(3) [OF scan] by simp
    have f: "pending_of p bs m \<in> set (fst (collect_project_files t))" by (rule collect_complete(1) [OF wf full p])
    then obtain x where x: "scanned_as digest t t cached base (pending_of p bs m) x"
      using set_scan(4) [OF scan] by blast
    then have "x \<in> set files" using f set_scan(1) [OF scan] by blast
    then show ?thesis using scanned_as_observed [OF hon x refl] by blast
  qed
qed


lemma scan_warnings:
  assumes "scan_project_internal digest t1 t2 t3 cached base = (files, ws, inc)" and "ws = []"
  shows "\<not> inc" "fst (snd (collect_project_files t1)) = []"
proof -
  obtain fs w0 i0 where c: "collect_project_files t1 = (fs, w0, i0)" by (cases "collect_project_files t1") auto
  let ?as = "assess_files t2 cached base fs"
  let ?hs = "map (hash_file digest t3) (List.map_filter fst ?as)"
  have ws: "w0 = []" "List.map_filter snd ?as = []" "List.map_filter snd ?hs = []"
    and inc: "inc \<longleftrightarrow> i0 \<or> (\<exists>(f, w) \<in> set ?as. w \<noteq> None \<and> f = None) \<or> List.map_filter snd ?hs \<noteq> []"
    using assms by (auto simp: scan_project_internal_def c Let_def)
  have "\<not> (\<exists>(f, w) \<in> set ?as. w \<noteq> None \<and> f = None)"
    using ws(2) mem_map_filter_iff [of _ snd ?as] by fastforce
  then show "\<not> inc" using inc ws incomplete_collect [of t1] c by auto
  show "fst (snd (collect_project_files t1)) = []" using ws c by simp
qed

text \<open>C30: A scan of a project that others change meanwhile reports only what was there. Every reported
  file was a tracked regular file when the directory was listed, with the reported size and time,
  and its hash is the hash of bytes that the file had, with the same size and time, at the
  assessment or at the hashing. The reported paths are sorted.\<close>

theorem scan_reports_observed:
  assumes "project_tree_wf t1" and "cache_honest digest t2 cached"
    and "scan_project_internal digest t1 t2 t3 cached base = (files, warnings, incomplete)"
  shows "sorted (map scanned_path files)
    \<and> (\<forall>x \<in> set files. (\<exists>bs. scannable t1 (scanned_path x) bs (scanned_modified x)
            \<and> scanned_size x = of_nat (length bs))
          \<and> (observed digest t2 x \<or> observed digest t3 x))"
  using set_scan(2) [OF assms(3)] scan_observed [OF assms] by blast

end
