(* ===== verification/PlanBuild.thy ===== *)
theory PlanBuild
  imports OperationPlan Scanner
begin

text \<open>
  Planning (\<open>transaction/plan.rs\<close>): the operations that take the working tree to a checkpoint, the
  directories to remove and to create for them, the normalisation of a discard selection, and the
  checks against the working tree just before a plan is applied.
\<close>

section \<open>The operations of a plan\<close>

definition restore_operation :: "snapshot_entry \<Rightarrow> file_operation" where
  "restore_operation file =
     \<lparr>operation_type = Restore, operation_path = snap_path file,
      before_hash = None, before_size = None, before_modified = None,
      after_hash = Some (content_hash file), after_size = Some (content_size_bytes file),
      after_modified = Some (snap_modified file)\<rparr>"

definition change_operation ::
  "file_operation_type \<Rightarrow> current_file_state \<Rightarrow> snapshot_entry \<Rightarrow> file_operation" where
  "change_operation k current file =
     (restore_operation file)\<lparr>operation_type := k,
      before_hash := Some (state_hash current), before_size := Some (state_size current),
      before_modified := Some (state_modified current)\<rparr>"

definition delete_operation :: "tracked_path \<Rightarrow> current_file_state \<Rightarrow> file_operation" where
  "delete_operation p current =
     \<lparr>operation_type = Delete, operation_path = p,
      before_hash = Some (state_hash current), before_size = Some (state_size current),
      before_modified = Some (state_modified current),
      after_hash = None, after_size = None, after_modified = None\<rparr>"

text \<open>The operation for one file of the snapshot, if it needs any.\<close>

definition operation_for ::
  "snapshot_entry \<Rightarrow> current_file_state option \<Rightarrow> file_operation list" where
  "operation_for file current =
     (case current of
        None \<Rightarrow> [restore_operation file]
      | Some c \<Rightarrow>
          if state_hash c \<noteq> content_hash file then [change_operation Replace c file]
          else if state_modified c \<noteq> snap_modified file then [change_operation SetMetadata c file]
          else [])"

definition working_map :: "scanned_file list \<Rightarrow> (tracked_path \<times> current_file_state) list" where
  "working_map working =
     btree_map (map (\<lambda>f. (scanned_path f,
       \<lparr>state_hash = scanned_hash f, state_size = scanned_size f,
        state_modified = scanned_modified f\<rparr>)) working)"

definition restore_operations ::
  "snapshot_file \<Rightarrow> scanned_file list \<Rightarrow> file_operation list" where
  "restore_operations snapshot working =
     concat (map (\<lambda>file. operation_for file (map_of (working_map working) (snap_path file)))
       (snap_files snapshot))
     @ concat (map (\<lambda>(p, c).
         if map_of (files_by_path snapshot) p = None then [delete_operation p c] else [])
       (working_map working))"

definition current_file_state_for_discard ::
  "(bytes \<Rightarrow> bytes) \<Rightarrow> project_tree \<Rightarrow> tracked_path \<Rightarrow> bool \<Rightarrow> tracked_path list
    \<Rightarrow> current_file_state option result" where
  "current_file_state_for_discard digest t p exists_in_snapshot selected =
     res_bind (current_path_kind t p) (\<lambda>k.
     case k of
       Missing \<Rightarrow> Inr None
     | File \<Rightarrow> current_file_state digest t p
     | BlockedByFile blocker \<Rightarrow>
         if blocker \<in> set selected \<or> exists_in_snapshot then Inr None
         else Inl (InvalidTrackedPath (tracked_as_str p))
     | DirectoryKind \<Rightarrow>
         if \<not> exists_in_snapshot \<and> (\<exists>c \<in> set selected. path_is_strict_descendant c p)
            \<or> exists_in_snapshot
         then Inr None
         else Inl (InvalidTrackedPath (tracked_as_str p)))"

definition discard_operation ::
  "(bytes \<Rightarrow> bytes) \<Rightarrow> project_tree \<Rightarrow> snapshot_file \<Rightarrow> tracked_path list \<Rightarrow> tracked_path
    \<Rightarrow> file_operation list result" where
  "discard_operation digest t snapshot selected p =
     (let file = map_of (files_by_path snapshot) p in
      res_bind (current_file_state_for_discard digest t p (file \<noteq> None) selected) (\<lambda>current.
      Inr (case file of
             Some file \<Rightarrow> operation_for (file\<lparr>snap_path := p\<rparr>) current
           | None \<Rightarrow> (case current of Some c \<Rightarrow> [delete_operation p c] | None \<Rightarrow> []))))"

definition discard_operations ::
  "(bytes \<Rightarrow> bytes) \<Rightarrow> project_tree \<Rightarrow> snapshot_file \<Rightarrow> tracked_path list
    \<Rightarrow> file_operation list result" where
  "discard_operations digest t snapshot selected =
     res_bind (try_map (discard_operation digest t snapshot (btree_set selected)) (btree_set selected))
       (\<lambda>ops. Inr (concat ops))"

section \<open>Directories to remove and to create\<close>

text \<open>What a planned file finds at its own path: a directory must hold only files that go away.\<close>

definition blocker_entry ::
  "project_tree \<Rightarrow> tracked_path list \<Rightarrow> walk_entry \<Rightarrow> tracked_path list result" where
  "blocker_entry t deleted_files e =
     (case e of
        WalkError q \<Rightarrow> Inl (Corruption (lit ''directory walk failed''))
      | WalkEntry q \<Rightarrow>
          res_bind (project_lstat t q) (\<lambda>n.
          case n of
            ProjectLink \<Rightarrow>
              Inl (InvalidTrackedPath (lit ''directory topology contains a symbolic link or reparse point''))
          | ProjectDirectory \<Rightarrow>
              res_bind (relative_of_entry q) (\<lambda>relative.
              res_bind (tracked_path_parse relative) (\<lambda>p. Inr [p]))
          | ProjectFile _ _ \<Rightarrow>
              res_bind (relative_of_entry q) (\<lambda>relative.
              res_bind (tracked_path_parse relative) (\<lambda>p.
              if p \<in> set deleted_files then Inr []
              else Inl (WorkingTreeChanged (lit ''directory blocker contains an unplanned file''))))
          | ProjectSpecial \<Rightarrow>
              Inl (InvalidTrackedPath (lit ''directory topology contains a non-regular entry''))))"

definition directories_blocking ::
  "project_tree \<Rightarrow> tracked_path list \<Rightarrow> tracked_path \<Rightarrow> tracked_path list result" where
  "directories_blocking t deleted_files p =
     (case project_lstat t (path_segments p) of
        Inr ProjectLink \<Rightarrow> Inl (InvalidTrackedPath (lit ''is a symbolic link or reparse point''))
      | Inr ProjectDirectory \<Rightarrow>
          res_bind (try_map (blocker_entry t deleted_files) (walk_dir t (path_segments p)))
            (\<lambda>ps. Inr (concat ps))
      | Inr (ProjectFile _ _) \<Rightarrow> Inr []
      | Inr ProjectSpecial \<Rightarrow> Inl (InvalidTrackedPath (lit ''is not a regular file or directory''))
      | Inl (Io _ NotFound) \<Rightarrow> Inr []
      | Inl (Io _ NotADirectory) \<Rightarrow> Inr []
      | Inl e \<Rightarrow> Inl e)"

text \<open>
  The loop over the parents of a planned file, the tracked root excepted: from the first one that
  is missing, or is a file that goes away, on, all of them are to be created.
\<close>

fun directories_missing ::
  "project_tree \<Rightarrow> tracked_path list \<Rightarrow> bool \<Rightarrow> path list \<Rightarrow> tracked_path list result" where
  "directories_missing t before_files missing [] = Inr []"
| "directories_missing t before_files missing (q # qs) =
     res_bind (tracked_path_parse (joined q)) (\<lambda>d.
     if missing
     then res_bind (directories_missing t before_files True qs) (\<lambda>ds. Inr (d # ds))
     else case project_lstat t q of
       Inr ProjectLink \<Rightarrow>
         Inl (InvalidTrackedPath (lit ''contains a symbolic link or reparse point parent''))
     | Inr ProjectDirectory \<Rightarrow> directories_missing t before_files False qs
     | Inr (ProjectFile _ _) \<Rightarrow>
         if d \<in> set before_files
         then res_bind (directories_missing t before_files True qs) (\<lambda>ds. Inr (d # ds))
         else Inl (InvalidTrackedPath (lit ''unsafe parent component''))
     | Inr ProjectSpecial \<Rightarrow> Inl (InvalidTrackedPath (lit ''unsafe parent component''))
     | Inl (Io _ NotFound) \<Rightarrow>
         res_bind (directories_missing t before_files True qs) (\<lambda>ds. Inr (d # ds))
     | Inl e \<Rightarrow> Inl e)"

definition plan_directory_topology_changes ::
  "project_tree \<Rightarrow> file_operation list \<Rightarrow> (tracked_path list \<times> tracked_path list) result" where
  "plan_directory_topology_changes t operations =
     (let before_files = map operation_path (filter (\<lambda>o'. before_hash o' \<noteq> None) operations);
          deleted_files = map operation_path (filter (\<lambda>o'. operation_type o' = Delete) operations);
          after_files = map operation_path (filter (\<lambda>o'. after_hash o' \<noteq> None) operations)
      in
      res_bind (try_map (\<lambda>p.
          res_bind (directories_blocking t deleted_files p) (\<lambda>remove.
          res_bind (directories_missing t before_files False (tl (proper_prefixes (path_segments p))))
            (\<lambda>create. Inr (remove, create)))) after_files) (\<lambda>changes.
      Inr (deepest_first (btree_set (concat (map fst changes))),
           btree_set (concat (map snd changes)))))"

section \<open>The selection of a discard\<close>

definition discard_topology_entry ::
  "project_tree \<Rightarrow> walk_entry \<Rightarrow> tracked_path list result" where
  "discard_topology_entry t e =
     (case e of
        WalkError q \<Rightarrow> Inl (WorkingTreeChanged (lit ''directory walk failed''))
      | WalkEntry q \<Rightarrow>
          res_bind (project_lstat t q) (\<lambda>n.
          case n of
            ProjectLink \<Rightarrow>
              Inl (InvalidTrackedPath (lit ''discard topology contains a symbolic link or reparse point''))
          | ProjectDirectory \<Rightarrow> Inr []
          | ProjectSpecial \<Rightarrow>
              Inl (InvalidTrackedPath (lit ''discard topology contains a non-regular entry''))
          | ProjectFile _ _ \<Rightarrow>
              res_bind (relative_of_entry q) (\<lambda>relative.
              res_bind (tracked_path_parse relative) (\<lambda>p. Inr [p]))))"

text \<open>\<open>min_depth(1)\<close> leaves out the directory itself.\<close>

definition add_required_discard_topology_paths ::
  "project_tree \<Rightarrow> tracked_path \<Rightarrow> tracked_path list result" where
  "add_required_discard_topology_paths t p =
     res_bind (current_path_kind t p) (\<lambda>k.
     case k of
       BlockedByFile blocker \<Rightarrow> Inr [blocker]
     | DirectoryKind \<Rightarrow>
         res_bind (try_map (discard_topology_entry t)
           (filter (\<lambda>e. e \<noteq> WalkEntry (path_segments p)) (walk_dir t (path_segments p))))
           (\<lambda>ps. Inr (concat ps))
     | Missing \<Rightarrow> Inr []
     | File \<Rightarrow> Inr [])"

definition companions_of ::
  "project_tree \<Rightarrow> tracked_path list \<Rightarrow> tracked_path \<Rightarrow> tracked_path list result" where
  "companions_of t snapshot_paths p =
     (case unity_asset_companion_path p of
        None \<Rightarrow> Inr []
      | Some c \<Rightarrow>
          if c \<in> set snapshot_paths then Inr [c]
          else res_bind (current_companion_is_regular_file t c) (\<lambda>regular.
               Inr (if regular then [c] else [])))"

text \<open>One round of the loop: companions first, then what blocks the files of the snapshot.\<close>

definition discard_round ::
  "project_tree \<Rightarrow> tracked_path list \<Rightarrow> tracked_path list \<Rightarrow> tracked_path list result" where
  "discard_round t snapshot_paths effective =
     res_bind (try_map (companions_of t snapshot_paths) effective) (\<lambda>companions.
     let effective = btree_set (effective @ concat companions) in
     res_bind (try_map (add_required_discard_topology_paths t)
       (filter (\<lambda>p. p \<in> set snapshot_paths) effective)) (\<lambda>required.
     Inr (btree_set (effective @ concat required))))"

section \<open>The operations of a restore\<close>

section \<open>Building a restore plan\<close>

definition working_states :: "scanned_file list \<Rightarrow> file_map" where
  "working_states working = map_of (working_map working)"

text \<open>Files with the same hash have the same size.\<close>

definition sizes_agree :: "snapshot_file \<Rightarrow> file_map \<Rightarrow> bool" where
  "sizes_agree s m \<longleftrightarrow>
     (\<forall>p a b. snapshot_states s p = Some a \<longrightarrow> m p = Some b \<longrightarrow> state_hash a = state_hash b
        \<longrightarrow> state_size a = state_size b)"

lemma sizes_agreeD:
  assumes "sizes_agree s m" "map_of (files_by_path s) p = Some f" "m p = Some b"
    "state_hash b = content_hash f"
  shows "state_size b = content_size_bytes f"
proof -
  have "snapshot_states s p = Some (entry_state f)" using assms(2) by (simp add: snapshot_states_def)
  then have "state_hash (entry_state f) = state_hash b \<longrightarrow> state_size (entry_state f) = state_size b"
    using assms(1,3) unfolding sizes_agree_def by blast
  then show ?thesis using assms(4) by (simp add: entry_state_def)
qed

lemma distinct_concat_keys:
  assumes "distinct (map k xs)" "\<And>x y. x \<in> set xs \<Longrightarrow> y \<in> set (f x) \<Longrightarrow> g y = k x"
    "\<And>x. f x = [] \<or> (\<exists>y. f x = [y])"
  shows "distinct (map g (concat (map f xs)))"
  using assms(1,2)
proof (induction xs)
  case (Cons x xs)
  have head: "distinct (map g (f x))" using assms(3) [of x] by auto
  have "g ` set (f x) \<subseteq> {k x}" "g ` set (concat (map f xs)) \<subseteq> k ` set xs"
    using Cons.prems(2) by fastforce+
  then have "g ` set (f x) \<inter> g ` set (concat (map f xs)) \<subseteq> {k x} \<inter> k ` set xs" by (rule Int_mono)
  also have "\<dots> = {}" using Cons.prems(1) by simp
  finally have "g ` set (f x) \<inter> g ` set (concat (map f xs)) = {}" by simp
  moreover have "distinct (map g (concat (map f xs)))" using Cons by simp
  ultimately show ?case
    using head by (simp only: list.map concat.simps map_append distinct_append set_map simp_thms)
qed simp

lemma map_of_files_by_path:
  assumes "distinct (map snap_path (snap_files s))"
  shows "map_of (files_by_path s) p = Some f \<longleftrightarrow> f \<in> set (snap_files s) \<and> snap_path f = p"
proof -
  have d: "distinct (map fst (map (\<lambda>f. (snap_path f, f)) (snap_files s)))"
    using assms by (simp add: o_def)
  show ?thesis
    by (auto simp: files_by_path_def map_of_rev_distinct [OF d] map_of_eq_Some_iff [OF d])
qed

lemma operation_for_cases:
  assumes "x \<in> set (operation_for f c)"
  shows "operation_path x = snap_path f" "after_state x = Some (entry_state f)" "before_state x = c"
    "operation_type x = Restore \<longleftrightarrow> c = None" "operation_type x \<noteq> Delete"
    "operation_type x = SetMetadata \<Longrightarrow>
       \<exists>b. c = Some b \<and> state_hash b = content_hash f \<and> state_modified b \<noteq> snap_modified f"
    "c = None \<Longrightarrow> no_before x"
  using assms
  by (auto simp: operation_for_def restore_operation_def change_operation_def after_state_Some
      entry_state_def before_state_def state_of_parts_def no_before_def split: option.splits if_splits)

lemma operation_for_none:
  "operation_for f c = [] \<longleftrightarrow>
     (\<exists>b. c = Some b \<and> state_hash b = content_hash f \<and> state_modified b = snap_modified f)"
  by (auto simp: operation_for_def split: option.splits)

lemma operation_for_one: "operation_for f c = [] \<or> (\<exists>x. operation_for f c = [x])"
  by (auto simp: operation_for_def split: option.splits)

lemma set_restore_operations:
  "set (restore_operations s w) =
     (\<Union>f \<in> set (snap_files s). set (operation_for f (working_states w (snap_path f))))
     \<union> {delete_operation p c | p c. (p, c) \<in> set (working_map w) \<and> map_of (files_by_path s) p = None}"
  by (auto simp: restore_operations_def working_states_def split: if_splits)

lemma working_map_distinct: "distinct (map fst (working_map w))"
  by (simp add: working_map_def sorted_lt_distinct)

lemma working_states_Some: "working_states w p = Some c \<longleftrightarrow> (p, c) \<in> set (working_map w)"
  by (simp add: working_states_def working_map_distinct)

lemma distinct_restore_operations:
  assumes "distinct (map snap_path (snap_files s))"
  shows "distinct (map operation_path (restore_operations s w))"
proof -
  let ?A = "concat (map (\<lambda>f. operation_for f (map_of (working_map w) (snap_path f))) (snap_files s))"
  let ?B = "concat (map (\<lambda>(p, c). if map_of (files_by_path s) p = None then [delete_operation p c] else [])
    (working_map w))"
  have "distinct (map operation_path ?A)"
    by (rule distinct_concat_keys [OF assms operation_for_cases(1) operation_for_one])
  moreover have "distinct (map operation_path ?B)"
    by (rule distinct_concat_keys [OF working_map_distinct])
      (auto simp: delete_operation_def split: if_splits)
  moreover have "map_of (files_by_path s) p \<noteq> None" if "p \<in> operation_path ` set ?A" for p
  proof -
    from that obtain f x where "f \<in> set (snap_files s)" "p = snap_path f"
      by (auto dest: operation_for_cases(1))
    then show ?thesis using map_of_files_by_path [OF assms, of p f] by simp
  qed
  moreover have "map_of (files_by_path s) p = None" if "p \<in> operation_path ` set ?B" for p
    using that by (auto simp: delete_operation_def split: if_splits)
  ultimately have "operation_path ` set ?A \<inter> operation_path ` set ?B = {}" by blast
  with \<open>distinct (map operation_path ?A)\<close> \<open>distinct (map operation_path ?B)\<close> show ?thesis
    unfolding restore_operations_def map_append distinct_append set_map by blast
qed

lemma restore_operation_fits:
  assumes d: "distinct (map snap_path (snap_files s))" and sz: "sizes_agree s (working_states w)"
    and x: "x \<in> set (restore_operations s w)"
  shows "operation_fits (map_of (files_by_path s)) x \<and> before_state x = working_states w (operation_path x)"
proof -
  consider f where "f \<in> set (snap_files s)" "x \<in> set (operation_for f (working_states w (snap_path f)))"
    | p c where "(p, c) \<in> set (working_map w)" "map_of (files_by_path s) p = None" "x = delete_operation p c"
    using x by (auto simp: set_restore_operations)
  then show ?thesis
  proof cases
    case 1
    note oc = operation_for_cases [OF 1(2)]
    have f: "map_of (files_by_path s) (operation_path x) = Some f"
      using 1(1) by (simp add: map_of_files_by_path [OF d] oc(1))
    have meta: "state_size b = content_size_bytes f"
      if "working_states w (snap_path f) = Some b" "state_hash b = content_hash f" for b
      using sizes_agreeD [OF sz f, unfolded oc(1)] that by blast
    have "case operation_type x of
          Restore \<Rightarrow> no_before x \<and> after_state x \<noteq> None
        | Replace \<Rightarrow> before_state x \<noteq> None \<and> after_state x \<noteq> None
        | Delete \<Rightarrow> before_state x \<noteq> None \<and> no_after x
        | SetMetadata \<Rightarrow> (\<exists>b a. before_state x = Some b \<and> after_state x = Some a
            \<and> state_hash b = state_hash a \<and> state_size b = state_size a
            \<and> state_modified b \<noteq> state_modified a)"
    proof (cases "operation_type x")
      case SetMetadata
      then obtain b where "before_state x = Some b" "state_hash b = content_hash f"
        "state_modified b \<noteq> snap_modified f" "state_size b = content_size_bytes f"
        using oc(3,6) meta by auto
      with SetMetadata oc(2) show ?thesis by (simp add: entry_state_def)
    qed (use oc(2,3,4,5,7) in auto)
    with oc(2,3) oc(1) f show ?thesis by (simp add: operation_fits_def)
  next
    case 2
    then have "working_states w p = Some c" by (simp add: working_states_Some)
    with 2 show ?thesis
      by (auto simp: operation_fits_def delete_operation_def before_state_def after_state_def
          state_of_parts_def no_after_def)
  qed
qed

lemma restore_operations_reach:
  assumes d: "distinct (map snap_path (snap_files s))" and sz: "sizes_agree s (working_states w)"
    and ops: "set ops = set (restore_operations s w)" "distinct (map operation_path ops)"
  shows "apply_operations ops (working_states w) = snapshot_states s"
proof
  fix p
  show "apply_operations ops (working_states w) p = snapshot_states s p"
  proof (cases "p \<in> operation_paths ops")
    case True
    then obtain x where x: "x \<in> set ops" "p = operation_path x" by (auto simp: operation_paths_def)
    then have "after_state x = snapshot_states s p"
      using restore_operation_fits [OF d sz, of x] ops(1) by (simp add: operation_fits_def snapshot_states_def)
    then show ?thesis using x ops(2) by (simp add: apply_operations_at)
  next
    case False
    have none: "operation_for f (working_states w p) = []" if "f \<in> set (snap_files s)" "snap_path f = p" for f
    proof (rule ccontr)
      assume "\<not> ?thesis"
      then obtain x where x: "x \<in> set (operation_for f (working_states w p))" by fastforce
      then have "x \<in> set ops" using that ops(1) by (auto simp: set_restore_operations)
      then show False using False operation_for_cases(1) [OF x] that by (auto simp: operation_paths_def)
    qed
    show ?thesis
    proof (cases "map_of (files_by_path s) p")
      case None
      have "working_states w p = None"
      proof (rule ccontr)
        assume "working_states w p \<noteq> None"
        then obtain c where "(p, c) \<in> set (working_map w)" by (auto simp: working_states_Some)
        then have "delete_operation p c \<in> set ops" using None ops(1) by (auto simp: set_restore_operations)
        then show False using False by (force simp: operation_paths_def delete_operation_def)
      qed
      with None False show ?thesis by (simp add: apply_operations_other snapshot_states_def)
    next
      case (Some f)
      then have f: "f \<in> set (snap_files s)" "snap_path f = p" by (auto simp: map_of_files_by_path [OF d])
      with none obtain b where b: "working_states w p = Some b" "state_hash b = content_hash f"
        "state_modified b = snap_modified f" by (auto simp: operation_for_none)
      then have "state_size b = content_size_bytes f"
        using sizes_agreeD [OF sz Some] by blast
      with b Some False show ?thesis
        by (simp add: apply_operations_other snapshot_states_def entry_state_def)
    qed
  qed
qed

section \<open>The directory changes of a plan\<close>

lemma deepest_first_props [simp]:
  "set (deepest_first xs) = set xs" "distinct (deepest_first xs) \<longleftrightarrow> distinct xs"
  "deepest_first (deepest_first xs) = deepest_first xs"
proof -
  show "deepest_first (deepest_first xs) = deepest_first xs"
    unfolding deepest_first_def by (rule sort_key_id_if_sorted) simp
qed (simp_all add: deepest_first_def)

lemma normalized_remove: "dedup (deepest_first (deepest_first (btree_set xs))) = deepest_first (btree_set xs)"
  by (simp add: dedup_distinct sorted_lt_distinct)

lemma normalized_create: "dedup (sort (btree_set xs)) = btree_set xs"
  by (simp add: dedup_distinct_id btree_set_def sorted_sort_id strict_sorted_iff)

lemma walked_prefix: "walked t root q \<Longrightarrow> q = root \<or> (\<exists>r. r \<noteq> [] \<and> q = root @ r)"
  by (auto simp: walked_def starts_with_iff)

text \<open>A directory that a plan removes lies at, or below, a file that the plan writes.\<close>

lemma blocker_entry_dir:
  assumes wf: "project_tree_wf t" and e: "e \<in> set (walk_dir t (path_segments p))"
    and b: "blocker_entry t deleted e = Inr ps" and d: "d \<in> set ps"
  shows "project_lstat t (path_segments d) = Inr ProjectDirectory \<and> path_is_same_or_descendant d p
    \<and> tracked_path_valid d \<and> walked t (path_segments p) (path_segments d)"
proof -
  from b obtain q n where en: "e = WalkEntry q" "project_lstat t q = Inr n"
    by (cases e) (auto simp: blocker_entry_def res_simps)
  have q: "e = WalkEntry q" "project_lstat t q = Inr ProjectDirectory" "tracked_path_parse (joined q) = Inr d"
    using b d en by (cases n; auto simp: blocker_entry_def res_simps split: if_splits dest!: relative_of_entry_Inr)+
  have w: "project_node_at t q \<noteq> None" "walked t (path_segments p) q"
    using e by (simp_all add: q(1) walk_entry_iff [OF wf])
  then have nm: "q \<noteq> []" "\<forall>s \<in> set q. 0x2F \<notin> set s" using tree_wf_names [OF wf] by auto
  have seg: "path_segments d = q" "tracked_path_valid d" by (rule parsed_prefix [OF q(3) nm])+
  have "path_is_same_or_descendant d p"
    using walked_prefix [OF w(2)] seg
    by (auto simp: path_is_same_or_descendant_def strict_descendant_iff proper_prefix_iff path_segments_inj [symmetric])
  with q(2) seg w(2) show ?thesis by simp
qed

lemma blocker_entry_file:
  assumes wf: "project_tree_wf t" and e: "WalkEntry q \<in> set (walk_dir t (path_segments p))"
    and b: "blocker_entry t deleted (WalkEntry q) = Inr ps"
  shows "(\<exists>d. path_segments d = q \<and> d \<in> set ps \<and> project_lstat t q = Inr ProjectDirectory)
    \<or> (\<exists>f bs m. path_segments f = q \<and> f \<in> set deleted \<and> project_lstat t q = Inr (ProjectFile bs m))"
proof -
  have "project_node_at t q \<noteq> None" using e by (simp add: walk_entry_iff [OF wf])
  then have nm: "q \<noteq> []" "\<forall>s \<in> set q. 0x2F \<notin> set s" using tree_wf_names [OF wf] by auto
  from b obtain n where n: "project_lstat t q = Inr n" by (auto simp: blocker_entry_def res_simps)
  show ?thesis
  proof (cases n)
    case (ProjectFile bs m)
    with b n obtain f where "tracked_path_parse (joined q) = Inr f" "f \<in> set deleted"
      by (auto simp: blocker_entry_def res_simps split: if_splits dest!: relative_of_entry_Inr)
    moreover from this have "path_segments f = q" using parsed_prefix [OF _ nm] by blast
    ultimately show ?thesis using n ProjectFile by blast
  next
    case ProjectDirectory
    with b n obtain d where "tracked_path_parse (joined q) = Inr d" "d \<in> set ps"
      by (auto simp: blocker_entry_def res_simps dest!: relative_of_entry_Inr)
    moreover from this have "path_segments d = q" using parsed_prefix [OF _ nm] by blast
    ultimately show ?thesis using n ProjectDirectory by blast
  qed (use b n in \<open>auto simp: blocker_entry_def res_simps\<close>)
qed

lemma directories_blocking_sound:
  assumes wf: "project_tree_wf t" and "directories_blocking t deleted p = Inr ds" and "d \<in> set ds"
  shows "project_lstat t (path_segments d) = Inr ProjectDirectory \<and> path_is_same_or_descendant d p
    \<and> tracked_path_valid d"
proof -
  from assms(2,3) obtain pss where
    "try_map (blocker_entry t deleted) (walk_dir t (path_segments p)) = Inr pss" "ds = concat pss"
    by (auto simp: directories_blocking_def res_simps
        split: sum.splits project_node.splits checkpo_error.splits io_error_kind.splits)
  then obtain e ps where "e \<in> set (walk_dir t (path_segments p))" "blocker_entry t deleted e = Inr ps"
    "d \<in> set ps"
    using assms(3) by (auto simp: try_map_concat_mem simp del: set_concat)
  then show ?thesis using blocker_entry_dir [OF wf] by blast
qed

lemma directories_blocking_walked:
  assumes wf: "project_tree_wf t" and "directories_blocking t deleted p = Inr ds" and "d \<in> set ds"
  shows "project_lstat t (path_segments p) = Inr ProjectDirectory \<and> walked t (path_segments p) (path_segments d)
    \<and> project_node_at t (path_segments d) = Some ProjectDirectory"
proof -
  from assms(2,3) have dir: "project_lstat t (path_segments p) = Inr ProjectDirectory"
    by (auto simp: directories_blocking_def split: sum.splits project_node.splits checkpo_error.splits
        io_error_kind.splits)
  with assms(2) obtain pss where
    "try_map (blocker_entry t deleted) (walk_dir t (path_segments p)) = Inr pss" "ds = concat pss"
    by (auto simp: directories_blocking_def res_simps)
  then obtain e ps where "e \<in> set (walk_dir t (path_segments p))" "blocker_entry t deleted e = Inr ps"
    "d \<in> set ps"
    using assms(3) by (auto simp: try_map_concat_mem simp del: set_concat)
  then show ?thesis using blocker_entry_dir [OF wf] dir project_lstat_Inr by blast
qed

text \<open>The parents a plan creates are the proper prefixes of a planned file from some point on.\<close>

lemma directories_missing_set:
  assumes "directories_missing t before missing qs = Inr ds"
    and "\<forall>q \<in> set qs. q \<noteq> [] \<and> (\<forall>s \<in> set q. 0x2F \<notin> set s)"
  shows "\<exists>as bs. qs = as @ bs \<and> map path_segments ds = bs
    \<and> (\<forall>q \<in> set as. \<not> missing \<and> project_lstat t q = Inr ProjectDirectory)
    \<and> (missing \<or> bs = [] \<or> project_lstat t (hd bs) \<noteq> Inr ProjectDirectory)
    \<and> (missing \<or> bs = [] \<or> (\<exists>p. project_lstat t (hd bs) = Inl (Io p NotFound))
        \<or> (\<exists>d f m. d \<in> set before \<and> path_segments d = hd bs \<and> project_lstat t (hd bs) = Inr (ProjectFile f m)))"
  using assms
proof (induction qs arbitrary: missing ds)
  case (Cons q qs)
  from Cons.prems(1) obtain d where d: "tracked_path_parse (joined q) = Inr d"
    by (auto simp: res_simps)
  then have seg: "path_segments d = q" using parsed_prefix(1) [OF d] Cons.prems(2) by auto
  have rest: "\<forall>q \<in> set qs. q \<noteq> [] \<and> (\<forall>s \<in> set q. 0x2F \<notin> set s)" using Cons.prems(2) by simp
  show ?case
  proof (cases "missing \<or> project_lstat t q \<noteq> Inr ProjectDirectory")
    case True
    then obtain ds' where ds': "directories_missing t before True qs = Inr ds'" "ds = d # ds'"
      using Cons.prems(1) d
      by (auto simp: res_simps split: if_splits sum.splits project_node.splits checkpo_error.splits
          io_error_kind.splits)
    have "missing \<or> (\<exists>p. project_lstat t q = Inl (Io p NotFound))
        \<or> (\<exists>d f m. d \<in> set before \<and> path_segments d = q \<and> project_lstat t q = Inr (ProjectFile f m))"
      using Cons.prems(1) d seg True
      by (auto simp: res_simps split: if_splits sum.splits project_node.splits checkpo_error.splits
          io_error_kind.splits)
    with Cons.IH [OF ds'(1) rest] seg True ds'(2) show ?thesis
      by (intro exI [of _ "[]"] exI [of _ "q # qs"]) auto
  next
    case False
    then have "directories_missing t before False qs = Inr ds" using Cons.prems(1) d by simp
    from Cons.IH [OF this rest] obtain as bs where "qs = as @ bs" "map path_segments ds = bs"
      "\<forall>q \<in> set as. project_lstat t q = Inr ProjectDirectory"
      "bs = [] \<or> project_lstat t (hd bs) \<noteq> Inr ProjectDirectory"
      "bs = [] \<or> (\<exists>p. project_lstat t (hd bs) = Inl (Io p NotFound))
        \<or> (\<exists>d f m. d \<in> set before \<and> path_segments d = hd bs \<and> project_lstat t (hd bs) = Inr (ProjectFile f m))"
      unfolding simp_thms by (elim exE conjE) (rule that; assumption)
    with False show ?thesis by (intro exI [of _ "q # as"] exI [of _ bs]) auto
  qed
qed simp


lemma directories_blocking_complete:
  assumes wf: "project_tree_wf t" and b: "directories_blocking t deleted p = Inr ds"
    and dir: "project_lstat t (path_segments p) = Inr ProjectDirectory"
    and q: "project_node_at t q \<noteq> None" "walked t (path_segments p) q"
  shows "(\<exists>d \<in> set ds. path_segments d = q \<and> project_lstat t q = Inr ProjectDirectory)
    \<or> (\<exists>f \<in> set deleted. \<exists>bs m. path_segments f = q \<and> project_lstat t q = Inr (ProjectFile bs m))"
proof -
  from b dir obtain pss where pss:
    "try_map (blocker_entry t deleted) (walk_dir t (path_segments p)) = Inr pss" "ds = concat pss"
    by (auto simp: directories_blocking_def res_simps)
  have e: "WalkEntry q \<in> set (walk_dir t (path_segments p))" using q by (simp add: walk_entry_iff [OF wf])
  then obtain ps where "ps \<in> set pss" "blocker_entry t deleted (WalkEntry q) = Inr ps"
    using try_map_mem [OF pss(1)] by blast
  with blocker_entry_file [OF wf e] pss(2) show ?thesis by fastforce
qed

text \<open>What the directory changes of a set of operations should be.\<close>

definition written_paths :: "file_operation list \<Rightarrow> tracked_path set" where
  "written_paths ops = {operation_path o' | o'. o' \<in> set ops \<and> after_hash o' \<noteq> None}"

definition blocking_directories :: "project_tree \<Rightarrow> file_operation list \<Rightarrow> path set" where
  "blocking_directories t ops =
     {q. \<exists>p \<in> written_paths ops. project_lstat t (path_segments p) = Inr ProjectDirectory
         \<and> walked t (path_segments p) q \<and> project_node_at t q = Some ProjectDirectory}"

definition missing_below_roots :: "project_tree \<Rightarrow> file_operation list \<Rightarrow> path set" where
  "missing_below_roots t ops =
     {q. \<exists>p \<in> written_paths ops. q \<in> set (tl (proper_prefixes (path_segments p)))
         \<and> (\<exists>n. 1 < n \<and> n \<le> length q \<and> project_lstat t (take n q) \<noteq> Inr ProjectDirectory)}"

definition topology_step ::
  "project_tree \<Rightarrow> file_operation list \<Rightarrow> tracked_path \<Rightarrow> (tracked_path list \<times> tracked_path list) result" where
  "topology_step t ops p =
     res_bind (directories_blocking t (map operation_path (filter (\<lambda>o'. operation_type o' = Delete) ops)) p) (\<lambda>remove.
     res_bind (directories_missing t (map operation_path (filter (\<lambda>o'. before_hash o' \<noteq> None) ops)) False
       (tl (proper_prefixes (path_segments p)))) (\<lambda>create. Inr (remove, create)))"

lemma topology_changes_unfold:
  "plan_directory_topology_changes t ops = Inr (rm, cr) \<longleftrightarrow>
     (\<exists>changes. try_map (topology_step t ops) (map operation_path (filter (\<lambda>o'. after_hash o' \<noteq> None) ops)) = Inr changes
       \<and> deepest_first (btree_set (concat (map fst changes))) = rm
       \<and> btree_set (concat (map snd changes)) = cr)"
proof -
  have "plan_directory_topology_changes t ops =
      res_bind (try_map (topology_step t ops) (map operation_path (filter (\<lambda>o'. after_hash o' \<noteq> None) ops)))
        (\<lambda>changes. Inr (deepest_first (btree_set (concat (map fst changes))),
          btree_set (concat (map snd changes))))"
    by (simp only: plan_directory_topology_changes_def topology_step_def [abs_def] Let_def)
  then show ?thesis by (simp only: res_bind_Inr_iff sum.inject prod.inject)
qed

lemma prefix_names:
  "q \<in> set (tl (proper_prefixes (path_segments p))) \<Longrightarrow> q \<noteq> [] \<and> (\<forall>s \<in> set q. 0x2F \<notin> set s)"
  by (auto simp: set_tl_proper_prefixes dest!: in_set_takeD segments_no_slash)

lemma directories_missing_exact:
  assumes m: "directories_missing t before False (tl (proper_prefixes (path_segments p))) = Inr ds"
  shows "path_segments ` set ds =
    {q \<in> set (tl (proper_prefixes (path_segments p))).
      \<exists>n. 1 < n \<and> n \<le> length q \<and> project_lstat t (take n q) \<noteq> Inr ProjectDirectory}"
proof -
  let ?P = "path_segments p"
  let ?L = "tl (proper_prefixes ?P)"
  have tl: "?L = map (\<lambda>n. take n ?P) [2..<length ?P]"
    unfolding proper_prefixes_def by (cases "1 < length ?P") (simp_all add: map_tl [symmetric] upt_conv_Cons numeral_2_eq_2)
  have L: "q \<in> set ?L \<longleftrightarrow> (\<exists>n. 1 < n \<and> n < length ?P \<and> q = take n ?P)" for q
    by (auto simp: set_tl_proper_prefixes)
  have mono: "sorted_wrt (\<lambda>a b. length a < length b) ?L"
    unfolding tl by (auto simp: sorted_wrt_iff_nth_less)
  obtain as bs where ab: "?L = as @ bs" "map path_segments ds = bs"
    "\<forall>q \<in> set as. project_lstat t q = Inr ProjectDirectory"
    "bs = [] \<or> project_lstat t (hd bs) \<noteq> Inr ProjectDirectory"
    using directories_missing_set [OF m] prefix_names by blast
  have less: "length a < length b" if "a \<in> set as" "b \<in> set bs" for a b
    using mono that unfolding ab(1) by (simp add: sorted_wrt_append)
  have first: "length (hd bs) \<le> length b" if "b \<in> set bs" for b
    using mono that unfolding ab(1) by (cases bs) (auto simp: sorted_wrt_append)
  have eq: "q \<in> set bs \<longleftrightarrow> q \<in> set ?L
      \<and> (\<exists>n. 1 < n \<and> n \<le> length q \<and> project_lstat t (take n q) \<noteq> Inr ProjectDirectory)" for q
  proof
    assume q: "q \<in> set bs"
    then have hd: "hd bs \<in> set bs" "bs \<noteq> []" by (cases bs; simp)+
    obtain i j where ij: "1 < i" "i < length ?P" "q = take i ?P" "1 < j" "j < length ?P" "hd bs = take j ?P"
      using q hd(1) L ab(1) by (metis Un_iff set_append)
    then have "take (length (hd bs)) q = hd bs" using first [OF q] by simp
    moreover have "1 < length (hd bs)" using ij by simp
    ultimately show "q \<in> set ?L
      \<and> (\<exists>n. 1 < n \<and> n \<le> length q \<and> project_lstat t (take n q) \<noteq> Inr ProjectDirectory)"
      using ab(1,4) q hd(2) first [OF q] by (intro conjI exI [of _ "length (hd bs)"]) auto
  next
    assume q: "q \<in> set ?L
      \<and> (\<exists>n. 1 < n \<and> n \<le> length q \<and> project_lstat t (take n q) \<noteq> Inr ProjectDirectory)"
    then obtain n i where n: "1 < n" "n \<le> length q" "project_lstat t (take n q) \<noteq> Inr ProjectDirectory"
      "i < length ?P" "q = take i ?P" using L by auto
    then have "take n q \<in> set ?L" using L by (auto intro!: exI [of _ n])
    then have "take n q \<in> set bs" using ab(1,3) n(3) by auto
    then show "q \<in> set bs" using less [of q "take n q"] q ab(1) by fastforce
  qed
  have "path_segments ` set ds = set bs" using ab(2) by (metis set_map)
  then show ?thesis using eq by blast
qed


lemma directory_topology:
  assumes wf: "project_tree_wf t" and topo: "plan_directory_topology_changes t ops = Inr (rm, cr)"
  shows "validate_journal_directory_topology ops rm cr = Inr ()"
    and "path_segments ` set rm = blocking_directories t ops"
    and "path_segments ` set cr = missing_below_roots t ops"
    and "p \<in> written_paths ops \<Longrightarrow> \<exists>ds ms.
      directories_blocking t (map operation_path (filter (\<lambda>o'. operation_type o' = Delete) ops)) p = Inr ds
      \<and> directories_missing t (map operation_path (filter (\<lambda>o'. before_hash o' \<noteq> None) ops)) False
          (tl (proper_prefixes (path_segments p))) = Inr ms"
    and "d \<in> set rm \<Longrightarrow> project_lstat t (path_segments d) = Inr ProjectDirectory"
    and "\<lbrakk>p \<in> written_paths ops; project_lstat t (path_segments p) = Inr ProjectDirectory;
      project_node_at t q = Some n; walked t (path_segments p) q; n \<noteq> ProjectDirectory\<rbrakk>
      \<Longrightarrow> \<exists>o' \<in> set ops. operation_type o' = Delete \<and> path_segments (operation_path o') = q"
proof -
  let ?D = "map operation_path (filter (\<lambda>o'. operation_type o' = Delete) ops)"
  let ?B = "map operation_path (filter (\<lambda>o'. before_hash o' \<noteq> None) ops)"
  let ?A = "map operation_path (filter (\<lambda>o'. after_hash o' \<noteq> None) ops)"
  have A: "set ?A = written_paths ops" by (auto simp: written_paths_def)
  from topo obtain ch where ch: "try_map (topology_step t ops) ?A = Inr ch"
    "deepest_first (btree_set (concat (map fst ch))) = rm" "btree_set (concat (map snd ch)) = cr"
    unfolding topology_changes_unfold by blast
  have step: "\<exists>ds ms. directories_blocking t ?D p = Inr ds
      \<and> directories_missing t ?B False (tl (proper_prefixes (path_segments p))) = Inr ms
      \<and> (ds, ms) \<in> set ch" if "p \<in> written_paths ops" for p
    using try_map_mem [OF ch(1), of p] that A by (fastforce simp: topology_step_def res_bind_Inr_iff)
  have origin: "\<exists>p \<in> written_paths ops. directories_blocking t ?D p = Inr ds
      \<and> directories_missing t ?B False (tl (proper_prefixes (path_segments p))) = Inr ms"
    if "(ds, ms) \<in> set ch" for ds ms
    using try_map_mem_rev [OF ch(1) that] A by (auto simp: topology_step_def res_bind_Inr_iff)
  have rm_mem: "d \<in> set rm \<longleftrightarrow> (\<exists>p \<in> written_paths ops. \<exists>ds. directories_blocking t ?D p = Inr ds \<and> d \<in> set ds)" for d
    proof -
    have mem: "d \<in> set rm \<longleftrightarrow> (\<exists>ds ms. (ds, ms) \<in> set ch \<and> d \<in> set ds)"
      unfolding ch(2) [symmetric] by force
    show ?thesis
    proof
      assume "d \<in> set rm"
      then show "\<exists>p \<in> written_paths ops. \<exists>ds. directories_blocking t ?D p = Inr ds \<and> d \<in> set ds"
        using mem origin by blast
    next
      assume "\<exists>p \<in> written_paths ops. \<exists>ds. directories_blocking t ?D p = Inr ds \<and> d \<in> set ds"
      then obtain p ds where p: "p \<in> written_paths ops" "directories_blocking t ?D p = Inr ds" "d \<in> set ds" by blast
      obtain ds' ms' where "directories_blocking t ?D p = Inr ds'"
        "directories_missing t ?B False (tl (proper_prefixes (path_segments p))) = Inr ms'" "(ds', ms') \<in> set ch"
        using step [OF p(1)] by blast
      with p show "d \<in> set rm" unfolding mem by (intro exI conjI) simp_all
    qed
  qed
  have cr_mem: "d \<in> set cr \<longleftrightarrow> (\<exists>p \<in> written_paths ops. \<exists>ms.
      directories_missing t ?B False (tl (proper_prefixes (path_segments p))) = Inr ms \<and> d \<in> set ms)" for d
    proof -
    have mem: "d \<in> set cr \<longleftrightarrow> (\<exists>ds ms. (ds, ms) \<in> set ch \<and> d \<in> set ms)"
      unfolding ch(3) [symmetric] by force
    show ?thesis
    proof
      assume "d \<in> set cr"
      then show "\<exists>p \<in> written_paths ops. \<exists>ms. directories_missing t ?B False (tl (proper_prefixes (path_segments p))) = Inr ms \<and> d \<in> set ms"
        using mem origin by blast
    next
      assume "\<exists>p \<in> written_paths ops. \<exists>ms. directories_missing t ?B False (tl (proper_prefixes (path_segments p))) = Inr ms \<and> d \<in> set ms"
      then obtain p ms where p: "p \<in> written_paths ops" "directories_missing t ?B False (tl (proper_prefixes (path_segments p))) = Inr ms" "d \<in> set ms" by blast
      obtain ds' ms' where "directories_blocking t ?D p = Inr ds'"
        "directories_missing t ?B False (tl (proper_prefixes (path_segments p))) = Inr ms'" "(ds', ms') \<in> set ch"
        using step [OF p(1)] by blast
      with p show "d \<in> set cr" unfolding mem by (intro exI conjI) simp_all
    qed
  qed
  have miss: "path_segments ` set ms = {q \<in> set (tl (proper_prefixes (path_segments p))).
      \<exists>n. 1 < n \<and> n \<le> length q \<and> project_lstat t (take n q) \<noteq> Inr ProjectDirectory}"
    if "directories_missing t ?B False (tl (proper_prefixes (path_segments p))) = Inr ms" for p ms
    by (rule directories_missing_exact [OF that])
  show cr': "path_segments ` set cr = missing_below_roots t ops"
  proof (intro set_eqI iffI)
    fix q assume "q \<in> path_segments ` set cr"
    then obtain d p ms where "q = path_segments d" "p \<in> written_paths ops" "d \<in> set ms"
      "directories_missing t ?B False (tl (proper_prefixes (path_segments p))) = Inr ms"
      using cr_mem by blast
    moreover from this have "q \<in> path_segments ` set ms" by simp
    ultimately show "q \<in> missing_below_roots t ops"
      unfolding miss [OF \<open>directories_missing t ?B False (tl (proper_prefixes (path_segments p))) = Inr ms\<close>]
        missing_below_roots_def by blast
  next
    fix q assume "q \<in> missing_below_roots t ops"
    then obtain p where p: "p \<in> written_paths ops" "q \<in> set (tl (proper_prefixes (path_segments p)))"
      "\<exists>n. 1 < n \<and> n \<le> length q \<and> project_lstat t (take n q) \<noteq> Inr ProjectDirectory"
      by (auto simp: missing_below_roots_def)
    then obtain ds ms where "directories_missing t ?B False (tl (proper_prefixes (path_segments p))) = Inr ms"
      using step by blast
    moreover from this p have "q \<in> path_segments ` set ms" using miss [of p ms] by blast
    ultimately show "q \<in> path_segments ` set cr" using p(1) cr_mem by blast
  qed
  show "path_segments ` set rm = blocking_directories t ops"
  proof (intro set_eqI iffI)
    fix q assume "q \<in> path_segments ` set rm"
    then obtain d p ds where d: "q = path_segments d" "p \<in> written_paths ops" "d \<in> set ds"
      "directories_blocking t ?D p = Inr ds"
      using rm_mem by blast
    then show "q \<in> blocking_directories t ops"
      using directories_blocking_walked [OF wf d(4,3)] by (auto simp: blocking_directories_def)
  next
    fix q assume "q \<in> blocking_directories t ops"
    then obtain p where p: "p \<in> written_paths ops" "project_lstat t (path_segments p) = Inr ProjectDirectory"
      "walked t (path_segments p) q" "project_node_at t q = Some ProjectDirectory"
      by (auto simp: blocking_directories_def)
    obtain ds ms where ds: "directories_blocking t ?D p = Inr ds" using step [OF p(1)] by blast
    have "\<not> (\<exists>bs m. project_lstat t q = Inr (ProjectFile bs m))"
      using p(4) project_lstat_Inr [of t q] by auto
    then have "q \<in> path_segments ` set ds"
      using directories_blocking_complete [OF wf ds p(2) _ p(3)] p(4) by fastforce
    then show "q \<in> path_segments ` set rm" using ds p(1) rm_mem by blast
  qed
  show "\<exists>ds ms. directories_blocking t ?D p = Inr ds
      \<and> directories_missing t ?B False (tl (proper_prefixes (path_segments p))) = Inr ms"
    if "p \<in> written_paths ops" using step [OF that] by blast
  show "project_lstat t (path_segments d) = Inr ProjectDirectory" if d: "d \<in> set rm"
  proof -
    obtain p ds where "directories_blocking t ?D p = Inr ds" "d \<in> set ds" using d unfolding rm_mem by blast
    then show ?thesis using directories_blocking_sound [OF wf] by blast
  qed
  show "\<exists>o' \<in> set ops. operation_type o' = Delete \<and> path_segments (operation_path o') = q"
    if p: "p \<in> written_paths ops" "project_lstat t (path_segments p) = Inr ProjectDirectory"
      "project_node_at t q = Some n" "walked t (path_segments p) q" "n \<noteq> ProjectDirectory"
  proof -
    obtain ds ms where ds: "directories_blocking t ?D p = Inr ds" using step [OF p(1)] by blast
    have "project_lstat t q \<noteq> Inr ProjectDirectory" using p(3,5) project_lstat_Inr [of t q] by auto
    then show ?thesis
      using directories_blocking_complete [OF wf ds p(2) _ p(4)] p(3) by fastforce
  qed
  have "\<exists>o' \<in> set ops. after_hash o' \<noteq> None \<and> path_is_same_or_descendant d (operation_path o')"
    if d: "d \<in> set rm" for d
  proof -
    obtain p ds where p: "p \<in> written_paths ops" "directories_blocking t ?D p = Inr ds" "d \<in> set ds"
      using d unfolding rm_mem by blast
    then have "path_is_same_or_descendant d p" using directories_blocking_sound [OF wf p(2,3)] by blast
    then show ?thesis using p(1) unfolding written_paths_def by blast
  qed
  moreover have "\<exists>o' \<in> set ops. after_hash o' \<noteq> None \<and> path_is_strict_descendant (operation_path o') d"
    if d: "d \<in> set cr" for d
  proof -
    obtain p where "p \<in> written_paths ops" "path_segments d \<in> set (tl (proper_prefixes (path_segments p)))"
      using d cr' by (auto simp: missing_below_roots_def)
    then have "path_is_strict_descendant p d"
      unfolding strict_descendant_iff set_tl_proper_prefixes set_proper_prefixes by auto
    then show ?thesis using \<open>p \<in> written_paths ops\<close> unfolding written_paths_def by blast
  qed
  ultimately show "validate_journal_directory_topology ops rm cr = Inr ()"
    unfolding validate_journal_directory_topology_iff ch(2,3) [symmetric] normalized_remove normalized_create
    by blast
qed

lemma restore_operations_settled:
  assumes d: "distinct (map snap_path (snap_files s))" and "working_states w = snapshot_states s"
  shows "restore_operations s w = []"
proof -
  have "operation_for f (working_states w (snap_path f)) = []" if "f \<in> set (snap_files s)" for f
  proof -
    have "map_of (files_by_path s) (snap_path f) = Some f" using that by (simp add: map_of_files_by_path [OF d])
    then show ?thesis using assms(2) by (simp add: operation_for_none snapshot_states_def entry_state_def)
  qed
  moreover have "map_of (files_by_path s) p \<noteq> None" if "(p, c) \<in> set (working_map w)" for p c
    using that assms(2) working_states_Some [of w p c] by (auto simp: snapshot_states_def)
  ultimately have "set (restore_operations s w) = {}" unfolding set_restore_operations by auto
  then show ?thesis by simp
qed

lemma lstat_missing:
  assumes "project_tree_wf t" "project_node_at t q = None"
  shows "project_lstat t q = (if \<exists>r \<in> set (proper_prefixes q). no_directory (project_node_at t r)
    then Inl (Io q NotADirectory) else Inl (Io q NotFound))"
  using assms tree_wf_unstatable [OF assms(1), of q] by (auto simp: project_lstat_def)

lemma lstat_not_found:
  "project_lstat t q = Inl (Io p NotFound) \<Longrightarrow>
     project_node_at t q = None \<and> (\<forall>r \<in> set (proper_prefixes q). \<not> no_directory (project_node_at t r))"
  by (auto simp: project_lstat_def split: if_splits option.splits)

lemma take_in_prefixes:
  "0 < i \<Longrightarrow> i < j \<Longrightarrow> j \<le> length p \<Longrightarrow> take i p \<in> set (proper_prefixes (take j p))"
  by (auto simp: set_proper_prefixes intro!: exI [of _ i])

lemma prefix_trans:
  "r \<in> set (proper_prefixes q) \<Longrightarrow> q \<in> set (proper_prefixes p) \<Longrightarrow> r \<in> set (proper_prefixes p)"
  by (fastforce simp: proper_prefix_iff)

lemma prefix_total:
  "q \<in> set (proper_prefixes p) \<Longrightarrow> r \<in> set (proper_prefixes p) \<Longrightarrow>
     q = r \<or> q \<in> set (proper_prefixes r) \<or> r \<in> set (proper_prefixes q)"
proof -
  assume "q \<in> set (proper_prefixes p)" "r \<in> set (proper_prefixes p)"
  then obtain i j where ij: "q = take i p" "r = take j p" "0 < i" "i < length p" "0 < j" "j < length p"
    by (auto simp: set_proper_prefixes)
  consider "i = j" | "i < j" | "j < i" by linarith
  then show ?thesis
  proof cases
    case 2
    then have "q = take i r" "i < length r" using ij by simp_all
    then show ?thesis using ij(3) by (auto simp: set_proper_prefixes)
  next
    case 3
    then have "r = take j q" "j < length q" using ij by simp_all
    then show ?thesis using ij(5) by (auto simp: set_proper_prefixes)
  qed (use ij in simp)
qed

text \<open>
  What the planned parents of a written file look like: directories down to some point, and from
  there on nothing, or a file of the plan and then nothing.
\<close>

lemma missing_parents:
  assumes wf: "project_tree_wf t"
    and m: "directories_missing t before False (tl (proper_prefixes (path_segments p))) = Inr ds"
  shows "(\<forall>q \<in> set (tl (proper_prefixes (path_segments p))). project_lstat t q = Inr ProjectDirectory)
    \<or> (\<exists>b \<in> set (tl (proper_prefixes (path_segments p))).
        (\<forall>q \<in> set (tl (proper_prefixes (path_segments p))). q \<in> set (proper_prefixes b) \<longrightarrow> project_lstat t q = Inr ProjectDirectory)
        \<and> ((\<exists>e. project_lstat t b = Inl (Io e NotFound))
           \<or> (\<exists>d f n. d \<in> set before \<and> path_segments d = b \<and> project_lstat t b = Inr (ProjectFile f n)))
        \<and> (\<forall>d \<in> set ds. path_segments d = b \<or> b \<in> set (proper_prefixes (path_segments d))))"
proof -
  let ?P = "path_segments p" and ?L = "tl (proper_prefixes (path_segments p))"
  obtain as bs where ab: "?L = as @ bs" "map path_segments ds = bs"
    "\<forall>q \<in> set as. project_lstat t q = Inr ProjectDirectory"
    "bs = [] \<or> (\<exists>e. project_lstat t (hd bs) = Inl (Io e NotFound))
      \<or> (\<exists>d f n. d \<in> set before \<and> path_segments d = hd bs \<and> project_lstat t (hd bs) = Inr (ProjectFile f n))"
    using directories_missing_set [OF m] prefix_names by blast
  show ?thesis
  proof (cases "bs = []")
    case True
    then show ?thesis using ab(1,3) by simp
  next
    case False
    then obtain b bs' where bs: "bs = b # bs'" by (cases bs) auto
    have L: "?L = map (\<lambda>n. take n ?P) [2..<length ?P]"
      unfolding proper_prefixes_def by (cases "1 < length ?P") (simp_all add: map_tl [symmetric] upt_conv_Cons numeral_2_eq_2)
    have inc: "sorted_wrt (\<lambda>a b. a \<in> set (proper_prefixes b)) ?L"
      unfolding L by (auto simp: sorted_wrt_iff_nth_less intro!: take_in_prefixes)
    have "\<forall>x \<in> set as. x \<in> set (proper_prefixes b)" "\<forall>x \<in> set bs'. b \<in> set (proper_prefixes x)"
      using inc unfolding ab(1) bs by (auto simp: sorted_wrt_append)
    moreover have "b \<notin> set (proper_prefixes b)" by (auto simp: proper_prefix_iff)
    moreover have "b \<in> set ?L" using ab(1) bs by simp
    moreover have "q \<in> set as" if "q \<in> set ?L" "q \<in> set (proper_prefixes b)" for q
      using that calculation(2,3) ab(1) bs prefix_trans by auto
    moreover have "path_segments d = b \<or> path_segments d \<in> set bs'" if "d \<in> set ds" for d
      using that ab(2) bs by (metis image_eqI image_set set_ConsD)
    ultimately show ?thesis using ab(3,4) bs by (intro disjI2 bexI [of _ b]) auto
  qed
qed

lemma proper_prefix_cases:
  assumes "q \<in> set (proper_prefixes p)"
  shows "q = [hd p] \<or> q \<in> set (tl (proper_prefixes p))"
proof -
  obtain n where n: "q = take n p" "0 < n" "n < length p" using assms by (auto simp: set_proper_prefixes)
  show ?thesis
  proof (cases "n = 1")
    case True
    then show ?thesis using n by (cases p) auto
  next
    case False
    then show ?thesis using n by (auto simp: set_tl_proper_prefixes)
  qed
qed

lemma tl_proper_prefixes_subset: "q \<in> set (tl (proper_prefixes p)) \<Longrightarrow> q \<in> set (proper_prefixes p)"
  by (auto simp: set_tl_proper_prefixes set_proper_prefixes)

text \<open>The directories above a written file that are not there, the tracked root among them.\<close>

definition missing_directories :: "project_tree \<Rightarrow> file_operation list \<Rightarrow> path set" where
  "missing_directories t ops =
     {q. \<exists>p \<in> written_paths ops. q \<in> set (proper_prefixes (path_segments p))
         \<and> project_node_at t q \<noteq> Some ProjectDirectory}"

text \<open>
  Below a parent that does not exist, or is a file, there is nothing: what is created is all that is
  missing, except for the first segment, which is never looked at.
\<close>

lemma missing_segments_exact:
  assumes wf: "project_tree_wf t"
    and m: "directories_missing t before False (tl (proper_prefixes (path_segments p))) = Inr ds"
  shows "{q \<in> set (tl (proper_prefixes (path_segments p))).
      \<exists>n. 1 < n \<and> n \<le> length q \<and> project_lstat t (take n q) \<noteq> Inr ProjectDirectory}
    = {q \<in> set (proper_prefixes (path_segments p)). project_node_at t q \<noteq> Some ProjectDirectory} - {q. length q = 1}"
  (is "?L = ?R")
proof (intro set_eqI iffI)
  fix q assume "q \<in> ?R"
  then have q: "q \<in> set (tl (proper_prefixes (path_segments p)))" "1 < length q" "project_node_at t q \<noteq> Some ProjectDirectory"
    by (auto simp: set_proper_prefixes set_tl_proper_prefixes)
  then have "project_lstat t q \<noteq> Inr ProjectDirectory" using project_lstat_Inr by blast
  with q show "q \<in> ?L" by (auto intro!: exI [of _ "length q"])
next
  fix q assume "q \<in> ?L"
  then have q: "q \<in> path_segments ` set ds" and l: "q \<in> set (tl (proper_prefixes (path_segments p)))"
    "\<exists>r \<in> set (tl (proper_prefixes (path_segments p))). project_lstat t r \<noteq> Inr ProjectDirectory"
    unfolding directories_missing_exact [OF m]
    by (auto simp: set_tl_proper_prefixes) (metis le_trans less_le_not_le linorder_le_less_linear min.absorb1 take_take)
  from missing_parents [OF wf m] l(2) q obtain b where b: "q = b \<or> b \<in> set (proper_prefixes q)"
    "(\<exists>e. project_lstat t b = Inl (Io e NotFound)) \<or> (\<exists>f n. project_lstat t b = Inr (ProjectFile f n))"
    by blast
  then have n: "project_node_at t b = None \<or> (\<exists>f n. project_node_at t b = Some (ProjectFile f n))"
    using lstat_not_found project_lstat_Inr by blast
  then have "project_node_at t q \<noteq> Some ProjectDirectory"
    using b(1) tree_wf_parents [OF wf] by fastforce
  moreover have "length q \<noteq> 1" "q \<in> set (proper_prefixes (path_segments p))"
    using l(1) tl_proper_prefixes_subset by (auto simp: set_tl_proper_prefixes)
  ultimately show "q \<in> ?R" by simp
qed

lemma missing_below_roots_exact:
  assumes "project_tree_wf t" and "plan_directory_topology_changes t ops = Inr (rm, cr)"
  shows "missing_below_roots t ops = missing_directories t ops - {q. length q = 1}"
proof -
  have "{q \<in> set (tl (proper_prefixes (path_segments p))).
      \<exists>n. 1 < n \<and> n \<le> length q \<and> project_lstat t (take n q) \<noteq> Inr ProjectDirectory}
    = {q \<in> set (proper_prefixes (path_segments p)). project_node_at t q \<noteq> Some ProjectDirectory} - {q. length q = 1}"
    if "p \<in> written_paths ops" for p
    using directory_topology(4) [OF assms that] missing_segments_exact [OF assms(1)] by blast
  then show ?thesis unfolding missing_below_roots_def missing_directories_def by blast
qed

text \<open>C34: The directories of a plan are exact. It removes the directories that stand where it writes a
  file, with all below, and only when every file in them is one that the plan deletes. It creates the
  directories above the files it writes that are not there, except for the tracked roots: a root
  that is missing itself is not among them, though what is missing below it is.\<close>

theorem plan_directories_exact:
  assumes "project_tree_wf t" and "plan_directory_topology_changes t ops = Inr (remove, create)"
  shows "path_segments ` set remove = blocking_directories t ops
    \<and> path_segments ` set create = missing_directories t ops - {q. length q = 1}
    \<and> (\<forall>d \<in> set remove. project_lstat t (path_segments d) = Inr ProjectDirectory)
    \<and> (\<forall>p \<in> written_paths ops. project_lstat t (path_segments p) = Inr ProjectDirectory \<longrightarrow>
        (\<forall>q n. walked t (path_segments p) q \<and> project_node_at t q = Some n \<and> n \<noteq> ProjectDirectory \<longrightarrow>
          (\<exists>o' \<in> set ops. operation_type o' = Delete \<and> path_segments (operation_path o') = q)))"
proof -
  have "path_segments ` set create = missing_directories t ops - {q. length q = 1}"
    using directory_topology(3) [OF assms] missing_below_roots_exact [OF assms] by simp
  then show ?thesis using directory_topology(2,5,6) [OF assms] by blast
qed

end
