(* ===== verification/PlanSelect.thy ===== *)
theory PlanSelect
  imports PlanBuild
begin

text \<open>
  The selection of a discard. A selection is extended by what its paths need, round by round, to a
  least closed set (\<open>normalize_discard_selection_with_snapshot\<close>); a plan that is submitted for a
  selection may only touch what some selected path authorizes (\<open>validate_discard_request_scope\<close>).
  Both loops end: each round adds a path of a finite set.
\<close>

section \<open>The selection of a discard: the loop\<close>

text \<open>Everything a selection can grow to: the files of the snapshot and the paths of the tree.\<close>

definition selection_universe :: "project_tree \<Rightarrow> tracked_path list \<Rightarrow> tracked_path set" where
  "selection_universe t snapshot_paths =
     set snapshot_paths \<union> (\<lambda>q. TrackedPath (joined q)) ` fst ` set (tree_nodes t)"

lemma finite_universe [simp]: "finite (selection_universe t snapshot_paths)"
  by (simp add: selection_universe_def)

lemma lstat_in_universe:
  "project_lstat t q = Inr n \<Longrightarrow> TrackedPath (joined q) \<in> selection_universe t snapshot_paths"
proof -
  assume "project_lstat t q = Inr n"
  then have "(q, n) \<in> set (tree_nodes t)"
    using project_lstat_Inr by (fastforce simp: project_node_at_def dest: map_of_SomeD)
  then show ?thesis unfolding selection_universe_def by force
qed

lemma parents_kind_blocked:
  "parents_kind t p qs = Inr (Some (BlockedByFile b)) \<Longrightarrow>
     \<exists>q bs m. q \<in> set qs \<and> project_lstat t q = Inr (ProjectFile bs m) \<and> tracked_path_parse (joined q) = Inr b"
proof (induction qs)
  case (Cons q qs)
  then show ?case
    by (cases "project_lstat t q")
      (auto simp: res_simps split: project_node.splits checkpo_error.splits io_error_kind.splits)
qed simp

lemma parents_kind_cases:
  "parents_kind t p qs = Inr (Some k) \<Longrightarrow> k = Missing \<or> (\<exists>b. k = BlockedByFile b)"
proof (induction qs)
  case (Cons q qs)
  then show ?case
    by (cases "project_lstat t q")
      (auto simp: res_simps split: project_node.splits checkpo_error.splits io_error_kind.splits)
qed simp

lemma current_path_kind_File:
  "current_path_kind t p = Inr File \<Longrightarrow> \<exists>bs m. project_lstat t (path_segments p) = Inr (ProjectFile bs m)"
  by (auto simp: current_path_kind_def res_simps dest!: parents_kind_cases
      split: option.splits sum.splits project_node.splits checkpo_error.splits io_error_kind.splits)

lemma current_path_kind_Directory:
  "current_path_kind t p = Inr DirectoryKind \<Longrightarrow> project_lstat t (path_segments p) = Inr ProjectDirectory"
  by (auto simp: current_path_kind_def res_simps dest!: parents_kind_cases
      split: option.splits sum.splits project_node.splits checkpo_error.splits io_error_kind.splits)

lemma current_path_kind_Blocked:
  "current_path_kind t p = Inr (BlockedByFile b) \<Longrightarrow>
     \<exists>q bs m. q \<in> set (proper_prefixes (path_segments p)) \<and> project_lstat t q = Inr (ProjectFile bs m)
       \<and> tracked_path_parse (joined q) = Inr b"
proof -
  assume "current_path_kind t p = Inr (BlockedByFile b)"
  then have "parents_kind t p (proper_prefixes (path_segments p)) = Inr (Some (BlockedByFile b))"
    by (auto simp: current_path_kind_def res_simps
      split: option.splits sum.splits project_node.splits checkpo_error.splits io_error_kind.splits)
  then show ?thesis by (rule parents_kind_blocked)
qed

lemma parsed_path: "tracked_path_parse s = Inr d \<Longrightarrow> d = TrackedPath s"
  by (simp add: tracked_path_parse_iff_segments)

lemma companions_bounded:
  assumes "companions_of t snapshot_paths p = Inr cs"
  shows "set cs \<subseteq> selection_universe t snapshot_paths"
proof
  fix c assume "c \<in> set cs"
  with assms have "c \<in> set snapshot_paths \<or> current_path_kind t c = Inr File"
    by (auto simp: companions_of_def current_companion_is_regular_file_def res_simps
        split: option.splits if_splits)
  then show "c \<in> selection_universe t snapshot_paths"
  proof
    assume "current_path_kind t c = Inr File"
    then obtain bs m where "project_lstat t (path_segments c) = Inr (ProjectFile bs m)"
      using current_path_kind_File by blast
    from lstat_in_universe [OF this] show ?thesis by simp
  qed (simp add: selection_universe_def)
qed

lemma required_bounded:
  assumes "add_required_discard_topology_paths t p = Inr rs"
  shows "set rs \<subseteq> selection_universe t snapshot_paths"
proof
  fix r assume r: "r \<in> set rs"
  from assms obtain k where k: "current_path_kind t p = Inr k"
    by (auto simp: add_required_discard_topology_paths_def res_simps)
  show "r \<in> selection_universe t snapshot_paths"
  proof (cases k)
    case (BlockedByFile b)
    with assms k r obtain q bs m where "project_lstat t q = Inr (ProjectFile bs m)"
      "tracked_path_parse (joined q) = Inr r"
      using current_path_kind_Blocked [of t p b] by (auto simp: add_required_discard_topology_paths_def)
    then show ?thesis using lstat_in_universe parsed_path by metis
  next
    case DirectoryKind
    with assms k obtain pss where pss: "try_map (discard_topology_entry t)
        (filter (\<lambda>e. e \<noteq> WalkEntry (path_segments p)) (walk_dir t (path_segments p))) = Inr pss" "rs = concat pss"
      by (auto simp: add_required_discard_topology_paths_def res_simps)
    then obtain e ps where "discard_topology_entry t e = Inr ps" "r \<in> set ps"
      using r by (auto simp: try_map_concat_mem simp del: set_concat)
    moreover from this obtain q n where qn: "e = WalkEntry q" "project_lstat t q = Inr n"
      by (cases e) (auto simp: discard_topology_entry_def res_simps)
    ultimately have "tracked_path_parse (joined q) = Inr r"
      by (cases n) (auto simp: discard_topology_entry_def res_simps dest!: relative_of_entry_Inr)
    then show ?thesis using lstat_in_universe [OF qn(2)] parsed_path by metis
  qed (use assms k r in \<open>auto simp: add_required_discard_topology_paths_def\<close>)
qed

text \<open>What a path of the selection asks for.\<close>

definition asks_for :: "project_tree \<Rightarrow> tracked_path list \<Rightarrow> tracked_path \<Rightarrow> tracked_path set" where
  "asks_for t snapshot_paths p =
     (case companions_of t snapshot_paths p of Inr cs \<Rightarrow> set cs | Inl _ \<Rightarrow> {})
     \<union> (if p \<in> set snapshot_paths
        then (case add_required_discard_topology_paths t p of Inr rs \<Rightarrow> set rs | Inl _ \<Rightarrow> {}) else {})"

definition asking :: "project_tree \<Rightarrow> tracked_path list \<Rightarrow> (tracked_path \<times> tracked_path) set" where
  "asking t snapshot_paths = {(p, q). q \<in> asks_for t snapshot_paths p}"

lemma discard_round_unfold:
  assumes "discard_round t snapshot_paths effective = Inr effective'"
  obtains mid where "mid = set effective \<union> (\<Union>p \<in> set effective.
        case companions_of t snapshot_paths p of Inr cs \<Rightarrow> set cs | Inl _ \<Rightarrow> {})"
    and "set effective' = mid \<union> (\<Union>p \<in> mid \<inter> set snapshot_paths.
        case add_required_discard_topology_paths t p of Inr rs \<Rightarrow> set rs | Inl _ \<Rightarrow> {})"
    and "sorted_wrt (<) effective'"
    and "\<forall>p \<in> set effective. is_ok (companions_of t snapshot_paths p)"
    and "\<forall>p \<in> mid \<inter> set snapshot_paths. is_ok (add_required_discard_topology_paths t p)"
proof -
  from assms obtain css rss where c: "try_map (companions_of t snapshot_paths) effective = Inr css"
    and r: "try_map (add_required_discard_topology_paths t)
        (filter (\<lambda>p. p \<in> set snapshot_paths) (btree_set (effective @ concat css))) = Inr rss"
    and e: "effective' = btree_set (btree_set (effective @ concat css) @ concat rss)"
    by (auto simp: discard_round_def res_simps Let_def)
  define mid where "mid = set effective \<union> set (concat css)"
  show thesis
  proof (rule that [of mid])
    show "mid = set effective \<union> (\<Union>p \<in> set effective.
        case companions_of t snapshot_paths p of Inr cs \<Rightarrow> set cs | Inl _ \<Rightarrow> {})"
      unfolding mid_def try_map_concat_set [OF c] by (auto split: sum.splits)
    have "set effective' = mid \<union> set (concat rss)" by (simp add: e mid_def)
    also have "set (concat rss) = (\<Union>p \<in> mid \<inter> set snapshot_paths.
        case add_required_discard_topology_paths t p of Inr rs \<Rightarrow> set rs | Inl _ \<Rightarrow> {})"
      unfolding try_map_concat_set [OF r] by (auto simp: mid_def split: sum.splits)
    finally show "set effective' = mid \<union> (\<Union>p \<in> mid \<inter> set snapshot_paths.
        case add_required_discard_topology_paths t p of Inr rs \<Rightarrow> set rs | Inl _ \<Rightarrow> {})" .
    show "sorted_wrt (<) effective'" by (simp add: e)
    show "\<forall>p \<in> set effective. is_ok (companions_of t snapshot_paths p)" using try_map_mem [OF c] by force
    show "\<forall>p \<in> mid \<inter> set snapshot_paths. is_ok (add_required_discard_topology_paths t p)"
      using try_map_mem [OF r] by (force simp: mid_def)
  qed
qed

lemma discard_round_within:
  assumes "discard_round t snapshot_paths effective = Inr effective'"
  shows "set effective' \<subseteq> (asking t snapshot_paths)\<^sup>* `` set effective"
proof -
  let ?R = "asking t snapshot_paths"
  from assms obtain mid where m: "mid = set effective \<union> (\<Union>p \<in> set effective.
        case companions_of t snapshot_paths p of Inr cs \<Rightarrow> set cs | Inl _ \<Rightarrow> {})"
    "set effective' = mid \<union> (\<Union>p \<in> mid \<inter> set snapshot_paths.
        case add_required_discard_topology_paths t p of Inr rs \<Rightarrow> set rs | Inl _ \<Rightarrow> {})"
    by (rule discard_round_unfold)
  have "mid \<subseteq> set effective \<union> ?R `` set effective" unfolding m(1) by (auto simp: asking_def asks_for_def)
  then have mid: "mid \<subseteq> ?R\<^sup>* `` set effective" by blast
  have "set effective' \<subseteq> mid \<union> ?R `` mid" unfolding m(2) by (auto simp: asking_def asks_for_def)
  also have "\<dots> \<subseteq> ?R\<^sup>* `` set effective" using mid by (auto intro: rtrancl_into_rtrancl)
  finally show ?thesis .
qed

lemma discard_round_grows:
  assumes "discard_round t snapshot_paths effective = Inr effective'"
  shows "set effective \<subseteq> set effective'"
    and "set effective' \<subseteq> set effective \<union> selection_universe t snapshot_paths"
    and "length effective' = card (set effective')"
proof -
  from assms obtain mid where m: "mid = set effective \<union> (\<Union>p \<in> set effective.
        case companions_of t snapshot_paths p of Inr cs \<Rightarrow> set cs | Inl _ \<Rightarrow> {})"
    "set effective' = mid \<union> (\<Union>p \<in> mid \<inter> set snapshot_paths.
        case add_required_discard_topology_paths t p of Inr rs \<Rightarrow> set rs | Inl _ \<Rightarrow> {})"
    "sorted_wrt (<) effective'"
    by (rule discard_round_unfold)
  show "set effective \<subseteq> set effective'" unfolding m(1,2) by blast
  have "mid \<subseteq> set effective \<union> selection_universe t snapshot_paths"
    using companions_bounded unfolding m(1) by (fastforce split: sum.splits)
  moreover have "(case add_required_discard_topology_paths t p of Inr rs \<Rightarrow> set rs | Inl _ \<Rightarrow> {})
      \<subseteq> selection_universe t snapshot_paths" for p
    using required_bounded by (auto split: sum.splits)
  ultimately show "set effective' \<subseteq> set effective \<union> selection_universe t snapshot_paths"
    unfolding m(2) by blast
  show "length effective' = card (set effective')"
    using sorted_lt_distinct [OF m(3)] by (simp add: distinct_card)
qed

lemma length_btree_set: "length (btree_set xs) = card (set xs)"
  using distinct_card [OF sorted_lt_distinct [OF sorted_btree_set, of xs]] by simp

function normalize_loop ::
  "project_tree \<Rightarrow> tracked_path list \<Rightarrow> tracked_path list \<Rightarrow> tracked_path list result" where
  "normalize_loop t snapshot_paths effective =
     (case discard_round t snapshot_paths effective of
        Inl e \<Rightarrow> Inl e
      | Inr effective' \<Rightarrow>
          if length effective' = length (btree_set effective) then Inr effective'
          else normalize_loop t snapshot_paths effective')"
  by pat_completeness auto

termination
proof (relation "measure (\<lambda>(t, s, e). card (selection_universe t s - set e))")
  fix t snapshot_paths effective effective'
  assume r: "discard_round t snapshot_paths effective = Inr effective'"
    and ne: "length effective' \<noteq> length (btree_set effective)"
  note g = discard_round_grows [OF r]
  have "set effective \<noteq> set effective'" using g(3) ne length_btree_set by metis
  then obtain x where "x \<in> set effective'" "x \<notin> set effective" using g(1) by blast
  then have "selection_universe t snapshot_paths - set effective'
      \<subset> selection_universe t snapshot_paths - set effective" using g(1,2) by blast
  then have "card (selection_universe t snapshot_paths - set effective')
      < card (selection_universe t snapshot_paths - set effective)" by (intro psubset_card_mono) auto
  then show "((t, snapshot_paths, effective'), t, snapshot_paths, effective)
      \<in> measure (\<lambda>(t, s, e). card (selection_universe t s - set e))" by simp
qed simp

declare normalize_loop.simps [simp del]

definition normalize_discard_selection_with_snapshot ::
  "project_tree \<Rightarrow> tracked_path list \<Rightarrow> tracked_path list \<Rightarrow> tracked_path list result" where
  "normalize_discard_selection_with_snapshot t snapshot_paths selected =
     res_bind (reject_selected_directory_meta t selected) (\<lambda>_.
     normalize_loop t (btree_set snapshot_paths) (btree_set selected))"

text \<open>The loop computes the least set that holds the selection and everything its members ask for.\<close>

lemma normalize_loop_closure:
  assumes "normalize_loop t snapshot_paths effective = Inr result"
  shows "set result = (asking t snapshot_paths)\<^sup>* `` set effective \<and> sorted_wrt (<) result"
  using assms
proof (induction t snapshot_paths effective rule: normalize_loop.induct)
  case (1 t snapshot_paths effective)
  let ?R = "asking t snapshot_paths"
  from "1.prems" obtain effective' where r: "discard_round t snapshot_paths effective = Inr effective'"
    by (subst (asm) normalize_loop.simps) (auto split: sum.splits)
  from r obtain mid where m: "mid = set effective \<union> (\<Union>p \<in> set effective.
        case companions_of t snapshot_paths p of Inr cs \<Rightarrow> set cs | Inl _ \<Rightarrow> {})"
    "set effective' = mid \<union> (\<Union>p \<in> mid \<inter> set snapshot_paths.
        case add_required_discard_topology_paths t p of Inr rs \<Rightarrow> set rs | Inl _ \<Rightarrow> {})"
    "sorted_wrt (<) effective'"
    by (rule discard_round_unfold)
  have up: "set effective' \<subseteq> ?R\<^sup>* `` set effective" by (rule discard_round_within [OF r])
  note g = discard_round_grows [OF r]
  show ?case
  proof (cases "length effective' = length (btree_set effective)")
    case True
    then have res: "result = effective'" using "1.prems" r by (subst (asm) normalize_loop.simps) simp
    have same: "set effective' = set effective"
    proof -
      have "card (set effective) = card (set effective')" using True g(3) by (simp add: length_btree_set)
      from card_subset_eq [OF List.finite_set g(1) this] show ?thesis by simp
    qed
    have "?R `` set effective \<subseteq> set effective"
    proof -
      have "asks_for t snapshot_paths p \<subseteq> set effective'" if p: "p \<in> set effective" for p
        unfolding asks_for_def m(1,2) using p by auto
      then show ?thesis using same by (auto simp: asking_def)
    qed
    then have "?R\<^sup>* `` set effective = set effective" by (rule Image_closed_trancl)
    then show ?thesis using res same m(3) by simp
  next
    case False
    then have "normalize_loop t snapshot_paths effective' = Inr result"
      using "1.prems" r by (subst (asm) normalize_loop.simps) simp
    with "1.IH" [OF r False] have "set result = ?R\<^sup>* `` set effective' \<and> sorted_wrt (<) result" by blast
    moreover have "?R\<^sup>* `` set effective' = ?R\<^sup>* `` set effective"
    proof
      show "?R\<^sup>* `` set effective' \<subseteq> ?R\<^sup>* `` set effective" using up by (auto intro: rtrancl_trans)
      show "?R\<^sup>* `` set effective \<subseteq> ?R\<^sup>* `` set effective'" using g(1) by blast
    qed
    ultimately show ?thesis by simp
  qed
qed

text \<open>What is looked at for a path of the selection can be inspected.\<close>

definition inspectable :: "project_tree \<Rightarrow> tracked_path list \<Rightarrow> tracked_path \<Rightarrow> bool" where
  "inspectable t snapshot_paths p \<longleftrightarrow>
     is_ok (companions_of t snapshot_paths p)
     \<and> (p \<in> set snapshot_paths \<longrightarrow> is_ok (add_required_discard_topology_paths t p))"

lemma discard_round_inspects:
  assumes "discard_round t snapshot_paths effective = Inr effective'" and "p \<in> set effective"
  shows "inspectable t snapshot_paths p"
  using assms(2) by (auto simp: inspectable_def intro: discard_round_unfold [OF assms(1)])

lemma discard_round_returns:
  assumes "\<forall>p \<in> (asking t snapshot_paths)\<^sup>* `` set effective. inspectable t snapshot_paths p"
  shows "is_ok (discard_round t snapshot_paths effective)"
proof -
  let ?R = "asking t snapshot_paths"
  have "\<forall>p \<in> set effective. is_ok (companions_of t snapshot_paths p)"
    using assms by (auto simp: inspectable_def)
  then obtain css where c: "try_map (companions_of t snapshot_paths) effective = Inr css"
    using try_map_total by blast
  have "set (concat css) \<subseteq> ?R `` set effective"
  proof
    fix q assume "q \<in> set (concat css)"
    then obtain p cs where "p \<in> set effective" "companions_of t snapshot_paths p = Inr cs" "q \<in> set cs"
      unfolding try_map_concat_mem [OF c] by blast
    then have "(p, q) \<in> ?R" "p \<in> set effective" by (simp_all add: asking_def asks_for_def)
    then show "q \<in> ?R `` set effective" by (rule ImageI)
  qed
  then have within: "set (btree_set (effective @ concat css)) \<subseteq> ?R\<^sup>* `` set effective" by auto
  have "is_ok (add_required_discard_topology_paths t p)"
    if "p \<in> set (btree_set (effective @ concat css))" "p \<in> set snapshot_paths" for p
    using assms subsetD [OF within that(1)] that(2) unfolding inspectable_def by blast
  then have "\<forall>p \<in> set (filter (\<lambda>p. p \<in> set snapshot_paths) (btree_set (effective @ concat css))).
      is_ok (add_required_discard_topology_paths t p)" unfolding set_filter by blast
  then obtain rss where "try_map (add_required_discard_topology_paths t)
      (filter (\<lambda>p. p \<in> set snapshot_paths) (btree_set (effective @ concat css))) = Inr rss"
    using try_map_total by blast
  with c show ?thesis by (simp add: discard_round_def Let_def)
qed

text \<open>The loop returns exactly when every path of the closure can be inspected.\<close>

lemma normalize_loop_returns:
  "is_ok (normalize_loop t snapshot_paths effective) \<longleftrightarrow>
     (\<forall>p \<in> (asking t snapshot_paths)\<^sup>* `` set effective. inspectable t snapshot_paths p)"
proof
  assume "\<forall>p \<in> (asking t snapshot_paths)\<^sup>* `` set effective. inspectable t snapshot_paths p"
  then show "is_ok (normalize_loop t snapshot_paths effective)"
  proof (induction t snapshot_paths effective rule: normalize_loop.induct)
    case (1 t snapshot_paths effective)
    let ?R = "asking t snapshot_paths"
    obtain effective' where r: "discard_round t snapshot_paths effective = Inr effective'"
      using discard_round_returns [OF "1.prems"] by (cases "discard_round t snapshot_paths effective") auto
    show ?case
    proof (cases "length effective' = length (btree_set effective)")
      case False
      have "set effective' \<subseteq> ?R\<^sup>* `` set effective" by (rule discard_round_within [OF r])
      then have "?R\<^sup>* `` set effective' \<subseteq> ?R\<^sup>* `` set effective" by (auto intro: rtrancl_trans)
      then have "\<forall>p \<in> ?R\<^sup>* `` set effective'. inspectable t snapshot_paths p" using "1.prems" by blast
      from "1.IH" [OF r False this] r False show ?thesis by (subst normalize_loop.simps) simp
    qed (use r in \<open>subst normalize_loop.simps, simp\<close>)
  qed
next
  assume "is_ok (normalize_loop t snapshot_paths effective)"
  then obtain result where "normalize_loop t snapshot_paths effective = Inr result"
    by (cases "normalize_loop t snapshot_paths effective") auto
  then have "\<forall>p \<in> set result. inspectable t snapshot_paths p"
  proof (induction t snapshot_paths effective rule: normalize_loop.induct)
    case (1 t snapshot_paths effective)
    from "1.prems" obtain effective' where r: "discard_round t snapshot_paths effective = Inr effective'"
      by (subst (asm) normalize_loop.simps) (auto split: sum.splits)
    show ?case
    proof (cases "length effective' = length (btree_set effective)")
      case True
      then have "result = effective'" using "1.prems" r by (subst (asm) normalize_loop.simps) simp
      moreover have "set effective' = set effective"
        using card_subset_eq [OF List.finite_set discard_round_grows(1) [OF r]] True discard_round_grows(3) [OF r]
        by (simp add: length_btree_set)
      ultimately show ?thesis using discard_round_inspects [OF r] by simp
    next
      case False
      then have "normalize_loop t snapshot_paths effective' = Inr result"
        using "1.prems" r by (subst (asm) normalize_loop.simps) simp
      with "1.IH" [OF r False] show ?thesis .
    qed
  qed
  then show "\<forall>p \<in> (asking t snapshot_paths)\<^sup>* `` set effective. inspectable t snapshot_paths p"
    using normalize_loop_closure [OF \<open>normalize_loop t snapshot_paths effective = Inr result\<close>] by simp
qed

section \<open>The scope of a discard\<close>

definition deletes_and_replaces :: "operation_plan \<Rightarrow> tracked_path \<Rightarrow> bool" where
  "deletes_and_replaces plan candidate \<longleftrightarrow>
     (\<exists>o' \<in> set (plan_operations plan). operation_path o' = candidate \<and> operation_type o' = Delete)
     \<and> candidate \<in> set (plan_create plan)"

definition blocks_authorized_target :: "operation_plan \<Rightarrow> tracked_path list \<Rightarrow> tracked_path \<Rightarrow> bool" where
  "blocks_authorized_target plan authorized candidate \<longleftrightarrow>
     (\<exists>o' \<in> set (plan_operations plan). operation_path o' \<in> set authorized
        \<and> operation_type o' \<in> {Restore, Replace}
        \<and> path_is_strict_descendant (operation_path o') candidate)"

text \<open>The second half of a round goes through the candidates while it adds to the set.\<close>

definition authorize_blockers ::
  "operation_plan \<Rightarrow> tracked_path list \<Rightarrow> tracked_path list \<Rightarrow> tracked_path list" where
  "authorize_blockers plan candidates authorized =
     fold (\<lambda>c a. if deletes_and_replaces plan c \<and> blocks_authorized_target plan a c
                 then btree_set (c # a) else a) candidates authorized"

definition authorize_round ::
  "operation_plan \<Rightarrow> tracked_path list \<Rightarrow> tracked_path list \<Rightarrow> tracked_path list" where
  "authorize_round plan selected authorized =
     (let companions = filter (\<lambda>c. c \<in> set selected)
            (List.map_filter unity_asset_companion_path authorized);
          authorized = btree_set (authorized @ companions)
      in authorize_blockers plan (filter (\<lambda>c. c \<notin> set authorized) selected) authorized)"

lemma authorize_blockers_grows:
  "set authorized \<subseteq> set (authorize_blockers plan candidates authorized)
   \<and> set (authorize_blockers plan candidates authorized) \<subseteq> set authorized \<union> set candidates
   \<and> (sorted_wrt (<) authorized \<longrightarrow> sorted_wrt (<) (authorize_blockers plan candidates authorized))"
proof (induction candidates arbitrary: authorized)
  case (Cons c cs)
  let ?a = "if deletes_and_replaces plan c \<and> blocks_authorized_target plan authorized c
    then btree_set (c # authorized) else authorized"
  have step: "authorize_blockers plan (c # cs) authorized = authorize_blockers plan cs ?a"
    by (simp add: authorize_blockers_def)
  have a: "set authorized \<subseteq> set ?a" "set ?a \<subseteq> insert c (set authorized)"
    "sorted_wrt (<) authorized \<longrightarrow> sorted_wrt (<) ?a" by auto
  show ?case unfolding step using Cons [of ?a] a by auto
qed (simp add: authorize_blockers_def)

lemma authorize_round_grows:
  shows "set authorized \<subseteq> set (authorize_round plan selected authorized)"
    and "set (authorize_round plan selected authorized) \<subseteq> set authorized \<union> set selected"
    and "sorted_wrt (<) (authorize_round plan selected authorized)"
proof -
  let ?b = "btree_set (authorized @ filter (\<lambda>c. c \<in> set selected)
    (List.map_filter unity_asset_companion_path authorized))"
  have r: "authorize_round plan selected authorized
      = authorize_blockers plan (filter (\<lambda>c. c \<notin> set ?b) selected) ?b"
    by (simp add: authorize_round_def Let_def)
  have b: "set authorized \<subseteq> set ?b" "set ?b \<subseteq> set authorized \<union> set selected" "sorted_wrt (<) ?b" by auto
  note g = authorize_blockers_grows [where plan = plan and authorized = ?b
      and candidates = "filter (\<lambda>c. c \<notin> set ?b) selected"]
  show "set authorized \<subseteq> set (authorize_round plan selected authorized)" unfolding r using b(1) g by blast
  show "set (authorize_round plan selected authorized) \<subseteq> set authorized \<union> set selected"
    unfolding r using b(2) g by auto
  show "sorted_wrt (<) (authorize_round plan selected authorized)" unfolding r using b(3) g by blast
qed

function authorize_loop ::
  "operation_plan \<Rightarrow> tracked_path list \<Rightarrow> tracked_path list \<Rightarrow> tracked_path list" where
  "authorize_loop plan selected authorized =
     (let authorized' = authorize_round plan selected authorized in
      if length authorized' = length (btree_set authorized) then authorized'
      else authorize_loop plan selected authorized')"
  by pat_completeness auto

termination
proof (relation "measure (\<lambda>(plan, selected, a). card (set selected - set a))")
  fix plan selected authorized authorized'
  assume a: "authorized' = authorize_round plan selected authorized"
    and ne: "length authorized' \<noteq> length (btree_set authorized)"
  note g = authorize_round_grows [where plan = plan and selected = selected and authorized = authorized, folded a]
  have "length authorized' = card (set authorized')"
    using distinct_card [OF sorted_lt_distinct [OF g(3)]] by simp
  then have "set authorized \<noteq> set authorized'" using ne length_btree_set by metis
  then obtain x where "x \<in> set authorized'" "x \<notin> set authorized" using g(1) by blast
  then have "set selected - set authorized' \<subset> set selected - set authorized" using g(1,2) by blast
  then have "card (set selected - set authorized') < card (set selected - set authorized)"
    by (intro psubset_card_mono) auto
  then show "((plan, selected, authorized'), plan, selected, authorized)
      \<in> measure (\<lambda>(plan, selected, a). card (set selected - set a))" by simp
qed simp

declare authorize_loop.simps [simp del]

definition validate_discard_request_scope ::
  "(operation_plan \<Rightarrow> bytes) \<Rightarrow> (bytes \<Rightarrow> str) \<Rightarrow> project_tree \<Rightarrow> tracked_path list \<Rightarrow> operation_plan
    \<Rightarrow> unit result" where
  "validate_discard_request_scope to_json keyed_hash t requested plan =
     (if plan_kind plan \<noteq> DiscardKind
      then Inl (Corruption (lit ''discard request requires a discard operation plan''))
      else
      res_bind (reject_selected_directory_meta t requested) (\<lambda>_.
      if requested = []
      then Inl (InvalidTrackedPath (lit ''discard requires selected tracked paths''))
      else
      res_bind (ok_or (Corruption (lit ''discard plan requires selected paths'')) (plan_selected plan)) (\<lambda>selected.
      if length (btree_set selected) \<noteq> length selected \<or> selected \<noteq> btree_set selected
      then Inl (Corruption (lit ''discard plan selected paths are not normalized''))
      else if \<not> set requested \<subseteq> set selected
      then Inl (WorkingTreeChanged (lit ''discard path set changed after preview''))
      else if authorize_loop plan selected
             (btree_set (requested
               @ filter (\<lambda>c. \<exists>r \<in> set requested. path_is_same_or_descendant c r) selected))
           \<noteq> selected
      then Inl (WorkingTreeChanged (lit ''discard path set changed after preview''))
      else validate_operation_plan_authorization to_json keyed_hash plan)))"

text \<open>
  How one path of the frozen selection authorizes another: as its Unity companion, or because the
  other is a file that the plan deletes and replaces by a directory above it.
\<close>

definition authorizes :: "operation_plan \<Rightarrow> tracked_path \<Rightarrow> tracked_path \<Rightarrow> bool" where
  "authorizes plan p q \<longleftrightarrow>
     unity_asset_companion_path p = Some q
     \<or> deletes_and_replaces plan q
        \<and> (\<exists>o' \<in> set (plan_operations plan). operation_path o' = p
            \<and> operation_type o' \<in> {Restore, Replace} \<and> path_is_strict_descendant p q)"

definition authorized_from :: "operation_plan \<Rightarrow> tracked_path list \<Rightarrow> tracked_path set \<Rightarrow> tracked_path set" where
  "authorized_from plan selected roots =
     {(p, q). q \<in> set selected \<and> authorizes plan p q}\<^sup>* `` roots"

lemma authorize_blockers_sound:
  assumes "set authorized \<subseteq> authorized_from plan selected roots" and "set candidates \<subseteq> set selected"
  shows "set (authorize_blockers plan candidates authorized) \<subseteq> authorized_from plan selected roots"
  using assms
proof (induction candidates arbitrary: authorized)
  case (Cons c cs)
  let ?R = "{(p, q). q \<in> set selected \<and> authorizes plan p q}"
  let ?a = "if deletes_and_replaces plan c \<and> blocks_authorized_target plan authorized c
    then btree_set (c # authorized) else authorized"
  have "set ?a \<subseteq> authorized_from plan selected roots"
  proof (cases "deletes_and_replaces plan c \<and> blocks_authorized_target plan authorized c")
    case True
    then obtain o' where "o' \<in> set (plan_operations plan)" "operation_path o' \<in> set authorized"
      "operation_type o' \<in> {Restore, Replace}" "path_is_strict_descendant (operation_path o') c"
      by (auto simp: blocks_authorized_target_def)
    then have "(operation_path o', c) \<in> ?R" "operation_path o' \<in> ?R\<^sup>* `` roots"
      using True Cons.prems by (auto simp: authorizes_def authorized_from_def)
    then have "c \<in> authorized_from plan selected roots"
      unfolding authorized_from_def by (auto intro: rtrancl_into_rtrancl)
    then show ?thesis using Cons.prems(1) True by simp
  qed (use Cons.prems(1) in auto)
  moreover have "authorize_blockers plan (c # cs) authorized = authorize_blockers plan cs ?a"
    by (simp add: authorize_blockers_def)
  ultimately show ?case using Cons.IH [of ?a] Cons.prems(2) by simp
qed (simp add: authorize_blockers_def)

lemma authorize_blockers_fixpoint:
  assumes "set (authorize_blockers plan candidates authorized) \<subseteq> set authorized"
    and "set candidates \<inter> set authorized = {}" "c \<in> set candidates"
  shows "\<not> (deletes_and_replaces plan c \<and> blocks_authorized_target plan authorized c)"
  using assms
proof (induction candidates)
  case (Cons x cs)
  let ?a = "if deletes_and_replaces plan x \<and> blocks_authorized_target plan authorized x
    then btree_set (x # authorized) else authorized"
  have step: "authorize_blockers plan (x # cs) authorized = authorize_blockers plan cs ?a"
    by (simp add: authorize_blockers_def)
  have "set ?a \<subseteq> set authorized"
    using Cons.prems(1) authorize_blockers_grows [where authorized = ?a and plan = plan and candidates = cs]
    unfolding step by blast
  then have no: "\<not> (deletes_and_replaces plan x \<and> blocks_authorized_target plan authorized x)"
    using Cons.prems(2) by (auto split: if_splits)
  then have "authorize_blockers plan (x # cs) authorized = authorize_blockers plan cs authorized"
    unfolding step by (simp only: if_not_P if_False)
  then show ?case using Cons no by auto
qed simp

lemma authorize_round_sound:
  assumes "set authorized \<subseteq> authorized_from plan selected roots"
  shows "set (authorize_round plan selected authorized) \<subseteq> authorized_from plan selected roots"
proof -
  let ?R = "{(p, q). q \<in> set selected \<and> authorizes plan p q}"
  let ?b = "btree_set (authorized @ filter (\<lambda>c. c \<in> set selected)
    (List.map_filter unity_asset_companion_path authorized))"
  have "c \<in> authorized_from plan selected roots" if c: "c \<in> set ?b" for c
  proof (cases "c \<in> set authorized")
    case False
    then obtain p where "p \<in> set authorized" "unity_asset_companion_path p = Some c" "c \<in> set selected"
      using c by (auto simp: map_filter_def)
    then have "(p, c) \<in> ?R" "p \<in> ?R\<^sup>* `` roots" using assms by (auto simp: authorizes_def authorized_from_def)
    then show ?thesis unfolding authorized_from_def by (auto intro: rtrancl_into_rtrancl)
  qed (use assms in blast)
  then have "set ?b \<subseteq> authorized_from plan selected roots" by blast
  from authorize_blockers_sound [OF this, of "filter (\<lambda>c. c \<notin> set ?b) selected"]
  show ?thesis by (simp add: authorize_round_def Let_def)
qed

lemma authorize_round_closed:
  assumes stays: "set (authorize_round plan selected authorized) \<subseteq> set authorized"
    and p: "p \<in> set authorized" and q: "q \<in> set selected" "authorizes plan p q"
  shows "q \<in> set authorized"
proof (rule ccontr)
  assume no: "q \<notin> set authorized"
  let ?b = "btree_set (authorized @ filter (\<lambda>c. c \<in> set selected)
    (List.map_filter unity_asset_companion_path authorized))"
  let ?c = "filter (\<lambda>c. c \<notin> set ?b) selected"
  have r: "authorize_round plan selected authorized = authorize_blockers plan ?c ?b"
    by (simp add: authorize_round_def Let_def)
  have "set ?b \<subseteq> set authorized"
    using stays authorize_blockers_grows [where authorized = ?b and plan = plan and candidates = ?c]
    unfolding r by blast
  then have b: "set ?b = set authorized" by auto
  have "unity_asset_companion_path p \<noteq> Some q"
  proof
    assume "unity_asset_companion_path p = Some q"
    then have "q \<in> set ?b" using p q(1) by (auto simp: map_filter_def intro!: image_eqI [of _ _ p])
    then show False using b no by blast
  qed
  then have bl: "deletes_and_replaces plan q \<and> blocks_authorized_target plan ?b q"
    using q p b unfolding authorizes_def blocks_authorized_target_def by blast
  have "q \<in> set ?c" using q no b by simp
  moreover have "set (authorize_blockers plan ?c ?b) \<subseteq> set ?b" using stays b unfolding r by blast
  moreover have "set ?c \<inter> set ?b = {}" by auto
  ultimately show False using bl authorize_blockers_fixpoint by blast
qed

lemma authorize_loop_closure:
  "set (authorize_loop plan selected authorized) = authorized_from plan selected (set authorized)
   \<and> sorted_wrt (<) (authorize_loop plan selected authorized)"
proof (induction plan selected authorized rule: authorize_loop.induct)
  case (1 plan selected authorized)
  let ?a = "authorize_round plan selected authorized"
  have init: "set authorized \<subseteq> authorized_from plan selected (set authorized)"
    by (auto simp: authorized_from_def)
  note g = authorize_round_grows [where plan = plan and selected = selected and authorized = authorized]
  show ?case
  proof (cases "length ?a = length (btree_set authorized)")
    case True
    have "card (set authorized) = card (set ?a)"
      using True distinct_card [OF sorted_lt_distinct [OF g(3)]] by (simp add: length_btree_set)
    from card_subset_eq [OF List.finite_set g(1) this] have same: "set ?a = set authorized" by simp
    have "{(p, q). q \<in> set selected \<and> authorizes plan p q} `` set authorized \<subseteq> set authorized"
      using authorize_round_closed [of plan selected authorized] same by blast
    then have "authorized_from plan selected (set authorized) = set authorized"
      unfolding authorized_from_def by (rule Image_closed_trancl)
    then show ?thesis using True same g(3) by (subst (1 2) authorize_loop.simps) (simp add: Let_def)
  next
    case False
    have "authorized_from plan selected (set ?a) = authorized_from plan selected (set authorized)"
    proof
      show "authorized_from plan selected (set ?a) \<subseteq> authorized_from plan selected (set authorized)"
        using authorize_round_sound [OF init] unfolding authorized_from_def by (auto intro: rtrancl_trans)
      show "authorized_from plan selected (set authorized) \<subseteq> authorized_from plan selected (set ?a)"
        using g(1) unfolding authorized_from_def by blast
    qed
    moreover have "authorize_loop plan selected authorized = authorize_loop plan selected ?a"
      using False by (subst authorize_loop.simps) (simp add: Let_def)
    ultimately show ?thesis using "1.IH" [OF refl False] by simp
  qed
qed

lemma validate_discard_request_scope_iff:
  "validate_discard_request_scope to_json keyed_hash t requested plan = Inr u \<longleftrightarrow>
     plan_kind plan = DiscardKind
     \<and> reject_selected_directory_meta t requested = Inr ()
     \<and> requested \<noteq> []
     \<and> plan_authorization plan = operation_plan_authorization to_json keyed_hash plan
     \<and> (\<exists>selected. plan_selected plan = Some selected \<and> sorted_wrt (<) selected
          \<and> set requested \<subseteq> set selected
          \<and> set selected = authorized_from plan selected
              (set requested \<union> {c \<in> set selected. \<exists>r \<in> set requested. path_is_strict_descendant c r}))"
proof -
  let ?roots = "\<lambda>selected. requested
    @ filter (\<lambda>c. \<exists>r \<in> set requested. path_is_same_or_descendant c r) selected"
  have norm: "selected = btree_set selected \<longleftrightarrow> sorted_wrt (<) selected" for selected :: "tracked_path list"
    by (metis btree_set_id sorted_btree_set)
  have roots: "set (?roots selected)
      = set requested \<union> {c \<in> set selected. \<exists>r \<in> set requested. path_is_strict_descendant c r}" for selected
    by (auto simp: path_is_same_or_descendant_def)
  have loop: "authorize_loop plan selected (btree_set (?roots selected)) = selected
      \<longleftrightarrow> set selected = authorized_from plan selected
            (set requested \<union> {c \<in> set selected. \<exists>r \<in> set requested. path_is_strict_descendant c r})"
    if "sorted_wrt (<) selected" for selected
  proof -
    have "set (authorize_loop plan selected (btree_set (?roots selected)))
        = authorized_from plan selected (set (?roots selected))"
      using authorize_loop_closure [where authorized = "btree_set (?roots selected)"] by simp
    then show ?thesis
      using sorted_lt_set_unique [OF _ that] authorize_loop_closure [where authorized = "btree_set (?roots selected)"]
      unfolding roots by metis
  qed
  show ?thesis
    by (cases "plan_selected plan")
      (auto simp: validate_discard_request_scope_def validate_operation_plan_authorization_def res_simps
        norm [symmetric] btree_set_id loop [simplified norm [symmetric]])
qed

definition reached_selection :: "project_tree \<Rightarrow> tracked_path list \<Rightarrow> tracked_path list \<Rightarrow> tracked_path set" where
  "reached_selection t snapshot_paths selected = (asking t (btree_set snapshot_paths))\<^sup>* `` set selected"

definition selection_inspectable :: "project_tree \<Rightarrow> tracked_path list \<Rightarrow> tracked_path list \<Rightarrow> bool" where
  "selection_inspectable t snapshot_paths selected \<longleftrightarrow>
     reject_selected_directory_meta t selected = Inr ()
     \<and> (\<forall>p \<in> reached_selection t snapshot_paths selected. inspectable t (btree_set snapshot_paths) p)"

text \<open>C32: Extending a discard selection ends, and it ends well exactly when every path it reaches can
  be inspected. The result is the least set that holds the selection and, with a path, what the
  path asks for: its Unity companion, and, for a file of the checkpoint, the files in its way.\<close>

theorem discard_selection_closure:
  "case normalize_discard_selection_with_snapshot t snapshot_paths selected of
     Inr result \<Rightarrow> selection_inspectable t snapshot_paths selected
       \<and> set result = reached_selection t snapshot_paths selected \<and> sorted_wrt (<) result
   | Inl _ \<Rightarrow> \<not> selection_inspectable t snapshot_paths selected"
proof (cases "normalize_discard_selection_with_snapshot t snapshot_paths selected")
  case (Inl e)
  then have "\<not> selection_inspectable t snapshot_paths selected"
    using normalize_loop_returns [of t "btree_set snapshot_paths" "btree_set selected"]
    by (auto simp: normalize_discard_selection_with_snapshot_def selection_inspectable_def reached_selection_def)
  with Inl show ?thesis by simp
next
  case (Inr result)
  then have "reject_selected_directory_meta t selected = Inr ()"
    and loop: "normalize_loop t (btree_set snapshot_paths) (btree_set selected) = Inr result"
    by (auto simp: normalize_discard_selection_with_snapshot_def res_simps)
  then show ?thesis
    using Inr normalize_loop_returns [of t "btree_set snapshot_paths" "btree_set selected"] normalize_loop_closure [OF loop]
    by (simp add: selection_inspectable_def reached_selection_def)
qed

text \<open>C33: A discard plan is accepted for a request exactly when it is the plan that was authorized and
  every path it selects is needed by the request: the paths of the request, those below them, and,
  step by step, the Unity companion of such a path and a file of the plan that has to make room for
  one. A plan that names any other path is refused.\<close>

theorem discard_scope_iff:
  "validate_discard_request_scope to_json keyed_hash t requested plan = Inr () \<longleftrightarrow>
     plan_kind plan = DiscardKind
     \<and> reject_selected_directory_meta t requested = Inr ()
     \<and> requested \<noteq> []
     \<and> plan_authorization plan = operation_plan_authorization to_json keyed_hash plan
     \<and> (\<exists>selected. plan_selected plan = Some selected \<and> sorted_wrt (<) selected
          \<and> set requested \<subseteq> set selected
          \<and> set selected = authorized_from plan selected
              (set requested \<union> {c \<in> set selected. \<exists>r \<in> set requested. path_is_strict_descendant c r}))"
  by (rule validate_discard_request_scope_iff)

end
