(* ===== verification/PlanPreview.thy ===== *)
theory PlanPreview
  imports PlanSelect
begin

text \<open>
  Building a plan, the check of a plan that comes back from the user against the working tree
  (\<open>validate_expected_plan\<close>), and what holds of a preview of a restore that is applied while the
  project stays as it is.
\<close>

section \<open>Building a plan\<close>

text \<open>
  The scan of a restore sees the directory at its three moments \<open>t1\<close>, \<open>t2\<close>, \<open>t3\<close>; everything else
  sees it as \<open>t\<close>.
\<close>

record scan_moments =
  at_enumeration :: project_tree
  at_assessment :: project_tree
  at_hashing :: project_tree

definition scan_with_baseline ::
  "(bytes \<Rightarrow> bytes) \<Rightarrow> scan_moments \<Rightarrow> fingerprint_cache option \<Rightarrow> snapshot_file
    \<Rightarrow> scanned_file list \<times> scan_warning list \<times> bool" where
  "scan_with_baseline digest ts cached s =
     scan_project_for_checkpoint_with_baseline digest (at_enumeration ts) (at_assessment ts)
       (at_hashing ts) cached (Some s)"

definition planned_operations ::
  "(bytes \<Rightarrow> bytes) \<Rightarrow> scan_moments \<Rightarrow> fingerprint_cache option \<Rightarrow> project_tree \<Rightarrow> snapshot_file
    \<Rightarrow> operation_plan_kind \<Rightarrow> tracked_path list option \<Rightarrow> (file_operation list \<times> str list) result" where
  "planned_operations digest ts cached t s kind effective =
     (case kind of
        RestoreKind \<Rightarrow>
          (case scan_with_baseline digest ts cached s of
             (working, warnings, _) \<Rightarrow>
               Inr (restore_operations s working, map format_scan_warning warnings))
      | DiscardKind \<Rightarrow>
          res_bind (ok_or (InvalidTrackedPath (lit ''discard requires selected tracked paths'')) effective) (\<lambda>selected.
          res_bind (discard_operations digest t s selected) (\<lambda>operations. Inr (operations, []))))"

definition build_unsigned_plan ::
  "(bytes \<Rightarrow> bytes) \<Rightarrow> (snapshot_id \<Rightarrow> snapshot_file result) \<Rightarrow> scan_moments \<Rightarrow> fingerprint_cache option
    \<Rightarrow> project_tree \<Rightarrow> snapshot_id \<Rightarrow> operation_plan_kind \<Rightarrow> tracked_path list option
    \<Rightarrow> operation_plan result" where
  "build_unsigned_plan digest load ts cached t checkpoint kind selected =
     res_bind (load checkpoint) (\<lambda>s.
     res_bind (case (kind, selected) of
         (DiscardKind, Some sel) \<Rightarrow>
           res_bind (normalize_discard_selection_with_snapshot t (map fst (files_by_path s)) sel)
             (\<lambda>effective. Inr (Some effective))
       | _ \<Rightarrow> Inr None) (\<lambda>effective.
     res_bind (planned_operations digest ts cached t s kind effective) (\<lambda>(operations, warnings).
     res_bind (plan_directory_topology_changes t operations) (\<lambda>(remove, create).
     Inr (with_warnings warnings (with_directory_changes remove create
       (operation_plan_new checkpoint kind (map_option btree_set effective) operations)))))))"

definition build_plan ::
  "(operation_plan \<Rightarrow> bytes) \<Rightarrow> (bytes \<Rightarrow> str) \<Rightarrow> (bytes \<Rightarrow> bytes) \<Rightarrow> (snapshot_id \<Rightarrow> snapshot_file result)
    \<Rightarrow> scan_moments \<Rightarrow> fingerprint_cache option \<Rightarrow> project_tree \<Rightarrow> snapshot_id \<Rightarrow> operation_plan_kind
    \<Rightarrow> tracked_path list option \<Rightarrow> operation_plan result" where
  "build_plan to_json keyed_hash digest load ts cached t checkpoint kind selected =
     res_bind (build_unsigned_plan digest load ts cached t checkpoint kind selected) (\<lambda>plan.
     Inr (authorize_operation_plan to_json keyed_hash plan))"

definition verify_full_restore_target ::
  "(bytes \<Rightarrow> bytes) \<Rightarrow> (snapshot_id \<Rightarrow> snapshot_file result) \<Rightarrow> scan_moments \<Rightarrow> fingerprint_cache option
    \<Rightarrow> project_tree \<Rightarrow> snapshot_id \<Rightarrow> unit result" where
  "verify_full_restore_target digest load ts cached t checkpoint =
     res_bind (build_unsigned_plan digest load ts cached t checkpoint RestoreKind None) (\<lambda>remaining.
     ensure (plan_warnings remaining = [] \<and> \<not> plan_has_changes remaining)
       (WorkingTreeChanged (lit ''the working tree does not exactly match the restored checkpoint'')))"

section \<open>Checking a plan against the working tree\<close>

definition precondition_state ::
  "(bytes \<Rightarrow> bytes) \<Rightarrow> project_tree \<Rightarrow> operation_plan \<Rightarrow> file_operation \<Rightarrow> current_file_state option result" where
  "precondition_state digest t plan o' =
     (let changed = WorkingTreeChanged (tracked_as_str (operation_path o')) in
      case project_lstat t (path_segments (operation_path o')) of
        Inr ProjectLink \<Rightarrow> Inl changed
      | Inr (ProjectFile _ _) \<Rightarrow>
          res_bind (current_file_state_from_anchor digest t (operation_path o')) (\<lambda>s. Inr (Some s))
      | Inr ProjectDirectory \<Rightarrow>
          if before_hash o' = None \<and> operation_path o' \<in> set (plan_remove plan) then Inr None
          else Inl changed
      | Inr ProjectSpecial \<Rightarrow> Inl changed
      | Inl (Io _ NotFound) \<Rightarrow> Inr None
      | Inl (Io q NotADirectory) \<Rightarrow>
          if has_tracked_ancestor (operation_path o')
               (map operation_path (filter (\<lambda>c. before_hash c \<noteq> None) (plan_operations plan)))
          then Inr None else Inl (Io q NotADirectory)
      | Inl e \<Rightarrow> Inl e)"

definition recheck_operation ::
  "(bytes \<Rightarrow> bytes) \<Rightarrow> project_tree \<Rightarrow> operation_plan \<Rightarrow> file_operation \<Rightarrow> unit result" where
  "recheck_operation digest t plan o' =
     res_bind (if plan_kind plan = DiscardKind
               then ensure_discard_folder_meta_operation_is_safe t (operation_path o') else Inr ()) (\<lambda>_.
     res_bind (precondition_state digest t plan o') (\<lambda>current.
     ensure (map_option state_hash current = before_hash o'
         \<and> map_option state_size current = before_size o'
         \<and> map_option state_modified current = before_modified o')
       (WorkingTreeChanged (tracked_as_str (operation_path o')))))"

definition recheck_removed_directory :: "project_tree \<Rightarrow> tracked_path \<Rightarrow> unit result" where
  "recheck_removed_directory t d =
     res_bind (project_lstat t (path_segments d)) (\<lambda>n.
     ensure (n = ProjectDirectory) (WorkingTreeChanged (tracked_as_str d)))"

definition recheck_created_directory :: "project_tree \<Rightarrow> tracked_path list \<Rightarrow> tracked_path \<Rightarrow> unit result" where
  "recheck_created_directory t before_file_paths d =
     (case project_lstat t (path_segments d) of
        Inr (ProjectFile _ _) \<Rightarrow>
          ensure (d \<in> set before_file_paths) (WorkingTreeChanged (tracked_as_str d))
      | Inr _ \<Rightarrow> Inl (WorkingTreeChanged (tracked_as_str d))
      | Inl (Io _ NotFound) \<Rightarrow> Inr ()
      | Inl (Io q NotADirectory) \<Rightarrow>
          if has_tracked_ancestor d before_file_paths then Inr () else Inl (Io q NotADirectory)
      | Inl e \<Rightarrow> Inl e)"

definition recheck_preconditions ::
  "(bytes \<Rightarrow> bytes) \<Rightarrow> project_tree \<Rightarrow> operation_plan \<Rightarrow> unit result" where
  "recheck_preconditions digest t plan =
     res_bind (try_all (recheck_operation digest t plan) (plan_operations plan)) (\<lambda>_.
     res_bind (try_all (recheck_removed_directory t) (plan_remove plan)) (\<lambda>_.
     try_all (recheck_created_directory t
         (map operation_path (filter (\<lambda>o'. before_hash o' \<noteq> None) (plan_operations plan))))
       (plan_create plan)))"

definition validate_expected_plan ::
  "(operation_plan \<Rightarrow> bytes) \<Rightarrow> (bytes \<Rightarrow> str) \<Rightarrow> (bytes \<Rightarrow> bytes) \<Rightarrow> (snapshot_id \<Rightarrow> snapshot_file result)
    \<Rightarrow> project_tree \<Rightarrow> operation_plan \<Rightarrow> unit result" where
  "validate_expected_plan to_json keyed_hash digest load t plan =
     res_bind (validate_plan_shape load plan) (\<lambda>_.
     res_bind (validate_operation_plan_authorization to_json keyed_hash plan) (\<lambda>_.
     recheck_preconditions digest t plan))"

section \<open>A plan and the tree it was made for\<close>

lemma plan_new_simps [simp]:
  "plan_operations (operation_plan_new c k s ops) = sort_key operation_path ops"
  "plan_checkpoint (operation_plan_new c k s ops) = c" "plan_kind (operation_plan_new c k s ops) = k"
  "plan_selected (operation_plan_new c k s ops) = s"
  by (simp_all add: operation_plan_new_def Let_def)

lemma plan_with_simps [simp]:
  "plan_operations (with_warnings ws p) = plan_operations p" "plan_warnings (with_warnings ws p) = ws"
  "plan_remove (with_warnings ws p) = plan_remove p" "plan_create (with_warnings ws p) = plan_create p"
  "plan_checkpoint (with_warnings ws p) = plan_checkpoint p" "plan_kind (with_warnings ws p) = plan_kind p"
  "plan_selected (with_warnings ws p) = plan_selected p"
  "plan_operations (with_directory_changes rm cr p) = plan_operations p"
  "plan_remove (with_directory_changes rm cr p) = dedup (deepest_first rm)"
  "plan_create (with_directory_changes rm cr p) = dedup (sort cr)"
  "plan_checkpoint (with_directory_changes rm cr p) = plan_checkpoint p"
  "plan_kind (with_directory_changes rm cr p) = plan_kind p"
  "plan_selected (with_directory_changes rm cr p) = plan_selected p"
  by (simp_all add: with_warnings_def with_directory_changes_def Let_def)

text \<open>The parts of a plan that \<open>operation_plan_new\<close> computes match its operations.\<close>

lemma plan_built_shape:
  fixes ops rm cr ws c k s
  defines "plan \<equiv> with_warnings ws (with_directory_changes rm cr (operation_plan_new c k s ops))"
  assumes "sum_list (map unat (staged_sizes (plan_operations plan)))
      + sum_list (map unat (backup_sizes (plan_operations plan))) < 2 ^ 64"
  shows "plan_schema_version plan = OPERATION_PLAN_SCHEMA_VERSION" "plan_counts_match plan"
    "validate_plan_bytes plan = Inr ()"
proof -
  let ?ops = "sort_key operation_path ops"
  show "plan_schema_version plan = OPERATION_PLAN_SCHEMA_VERSION" "plan_counts_match plan"
    by (auto simp: plan_def with_warnings_def with_directory_changes_def operation_plan_new_def Let_def
        plan_counts_match_def)
  have o: "plan_operations plan = ?ops" by (simp add: plan_def)
  have le: "sum_list (map unat (staged_sizes ?ops)) + sum_list (map unat (backup_sizes ?ops)) < 2 ^ 64"
    using assms(2) by (simp only: o)
  let ?st = "of_nat (sum_list (map unat (staged_sizes ?ops))) :: u64"
  let ?bk = "of_nat (sum_list (map unat (backup_sizes ?ops))) :: u64"
  have u: "unat ?st = sum_list (map unat (staged_sizes ?ops))" "unat ?bk = sum_list (map unat (backup_sizes ?ops))"
    using le by (simp_all add: unat_of_nat take_bit_nat_eq_self)
  then have st: "checked_sum (staged_sizes ?ops) = Some ?st" "checked_sum (backup_sizes ?ops) = Some ?bk"
    by (simp_all add: checked_sum_Some_iff)
  have add: "unat (?st + ?bk) = unat ?st + unat ?bk"
    using le u by (subst unat_add_lem [symmetric]) simp
  have "plan_staged_bytes plan = ?st" "plan_backup_bytes plan = ?bk"
    "plan_temporary_bytes plan = ?st + ?bk"
    using checked_sum_saturating [OF st(1)] checked_sum_saturating [OF st(2)] le u
    by (simp_all add: plan_def with_warnings_def with_directory_changes_def operation_plan_new_def Let_def
        saturating_add_def)
  then show "validate_plan_bytes plan = Inr ()"
    using u add by (simp add: validate_plan_bytes_iff o)
qed

lemma sorted_operations_strict:
  "distinct (map operation_path ops) \<Longrightarrow> sorted_wrt (<) (map operation_path (sort_key operation_path ops))"
  by (simp add: strict_sorted_iff distinct_map)

section \<open>A restore preview that is applied at once\<close>

definition still :: "project_tree \<Rightarrow> scan_moments" where
  "still t = \<lparr>at_enumeration = t, at_assessment = t, at_hashing = t\<rparr>"

text \<open>What a loaded snapshot satisfies and planning relies on.\<close>

definition snapshot_paths_ok :: "snapshot_file \<Rightarrow> bool" where
  "snapshot_paths_ok s \<longleftrightarrow>
     distinct (map snap_path (snap_files s))
     \<and> (\<forall>f \<in> set (snap_files s). tracked_path_valid (snap_path f)
          \<and> (\<forall>g \<in> set (path_segments (snap_path f)). utf8_valid g))"

text \<open>The cache of a missing database is empty.\<close>

definition honest :: "(bytes \<Rightarrow> bytes) \<Rightarrow> project_tree \<Rightarrow> fingerprint_cache option \<Rightarrow> bool" where
  "honest digest t cached \<longleftrightarrow> (case cached of None \<Rightarrow> True | Some c \<Rightarrow> cache_honest digest t c)"

lemma scan_with_baseline_internal:
  "\<exists>base c. scan_with_baseline digest ts cached s
      = scan_project_internal digest (at_enumeration ts) (at_assessment ts) (at_hashing ts) c base
    \<and> (honest digest (at_assessment ts) cached \<longrightarrow> cache_honest digest (at_assessment ts) c)"
  by (cases cached)
    (auto simp: scan_with_baseline_def scan_project_for_checkpoint_with_baseline_def honest_def cache_honest_def)

lemma working_states_still:
  assumes wf: "project_tree_wf t" and hon: "honest digest t cached"
    and scan: "scan_with_baseline digest (still t) cached s = (files, ws, inc)" and ws: "ws = []"
  shows "working_states files = tracked_states digest t"
    and "\<not> snd (snd (collect_project_files t))" and "fst (snd (collect_project_files t)) = []"
proof -
  obtain base c where sc: "scan_project_internal digest t t t c base = (files, ws, inc)"
    and hc: "cache_honest digest t c"
    using scan_with_baseline_internal [of digest "still t" cached s] scan hon by (auto simp: still_def)
  have ni: "\<not> inc" and w: "fst (snd (collect_project_files t)) = []" using scan_warnings [OF sc ws] by auto
  then have sc': "scan_project_internal digest t t t c base = (files, ws, False)" using sc by simp
  show "fst (snd (collect_project_files t)) = []" by (rule w)
  show "\<not> snd (snd (collect_project_files t))" using incomplete_collect w by blast
  let ?st = "\<lambda>x. \<lparr>state_hash = scanned_hash x, state_size = scanned_size x, state_modified = scanned_modified x\<rparr>"
  let ?kv = "map (\<lambda>x. (scanned_path x, ?st x)) files"
  have known: "tracked_states digest t (scanned_path x) = Some (?st x)" if "x \<in> set files" for x
    using scan_still(1) [OF wf hc sc' that] unfolding tracked_states_Some by blast
  show "working_states files = tracked_states digest t"
  proof
    fix p
    have m: "working_states files p = map_of (rev ?kv) p" by (simp add: working_states_def working_map_def)
    show "working_states files p = tracked_states digest t p"
    proof (cases "map_of (rev ?kv) p")
      case None
      then have "p \<notin> scanned_path ` set files" by (auto simp: map_of_eq_None_iff image_iff)
      then have "tracked_states digest t p = None"
        using scan_still(2) [OF wf hc sc'] tracked_states_Some [of digest t p] by (cases "tracked_states digest t p") fastforce+
      with None m show ?thesis by simp
    next
      case (Some v)
      then have "(p, v) \<in> set ?kv" by (auto dest: map_of_SomeD)
      then obtain x where "x \<in> set files" "p = scanned_path x" "v = ?st x" by auto
      with known Some m show ?thesis by simp
    qed
  qed
qed

lemma build_restore_unfold:
  assumes "build_unsigned_plan digest load ts cached t checkpoint RestoreKind selected = Inr plan"
  obtains s working warnings inc rm cr where "load checkpoint = Inr s"
    and "scan_with_baseline digest ts cached s = (working, warnings, inc)"
    and "plan_directory_topology_changes t (restore_operations s working) = Inr (rm, cr)"
    and "plan = with_warnings (map format_scan_warning warnings) (with_directory_changes rm cr
        (operation_plan_new checkpoint RestoreKind None (restore_operations s working)))"
proof -
  from assms obtain s where s: "load checkpoint = Inr s" by (auto simp: build_unsigned_plan_def res_simps)
  obtain working warnings inc where w: "scan_with_baseline digest ts cached s = (working, warnings, inc)"
    by (cases "scan_with_baseline digest ts cached s") auto
  from assms s w obtain rm cr where "plan_directory_topology_changes t (restore_operations s working) = Inr (rm, cr)"
    by (auto simp: build_unsigned_plan_def planned_operations_def res_simps)
  with assms s w that show thesis by (auto simp: build_unsigned_plan_def planned_operations_def)
qed

lemma topology_normalized:
  assumes "plan_directory_topology_changes t ops = Inr (rm, cr)"
  shows "dedup (deepest_first rm) = rm" "dedup (sort cr) = cr"
proof -
  obtain ch where "deepest_first (btree_set (concat (map fst ch))) = rm" "btree_set (concat (map snd ch)) = cr"
    using assms unfolding topology_changes_unfold by blast
  then show "dedup (deepest_first rm) = rm" "dedup (sort cr) = cr"
    using normalized_remove normalized_create by metis+
qed

lemma topology_same_set:
  "set ops' = set ops \<Longrightarrow> validate_journal_directory_topology ops' rm cr = Inr u
     \<longleftrightarrow> validate_journal_directory_topology ops rm cr = Inr u"
  by (simp add: validate_journal_directory_topology_iff)

lemma restore_plan_accepted:
  assumes wf: "project_tree_wf t" and b: "build_unsigned_plan digest load ts cached t checkpoint RestoreKind selected = Inr plan"
    and s: "load checkpoint = Inr s" "snapshot_paths_ok s"
    and scan: "scan_with_baseline digest ts cached s = (working, warnings, inc)"
    and sz: "sizes_agree s (working_states working)" and nw: "plan_warnings plan = []"
    and sum: "sum_list (map unat (staged_sizes (plan_operations plan)))
      + sum_list (map unat (backup_sizes (plan_operations plan))) < 2 ^ 64"
  shows "validate_plan_shape load plan = Inr ()"
    and "apply_operations (plan_operations plan) (working_states working) = snapshot_states s"
proof -
  let ?ops = "restore_operations s working"
  from b s(1) scan obtain rm cr where topo: "plan_directory_topology_changes t ?ops = Inr (rm, cr)"
    and plan: "plan = with_warnings (map format_scan_warning warnings) (with_directory_changes rm cr
        (operation_plan_new checkpoint RestoreKind None ?ops))"
    by (auto elim: build_restore_unfold)
  have d: "distinct (map snap_path (snap_files s))" using s(2) by (simp add: snapshot_paths_ok_def)
  have o: "plan_operations plan = sort_key operation_path ?ops" by (simp add: plan)
  have dis: "distinct (map operation_path ?ops)" by (rule distinct_restore_operations [OF d])
  have "validate_journal_operations load (plan_checkpoint plan) (plan_operations plan) = Inr ()"
    using sorted_operations_strict [OF dis] restore_operation_fits [OF d sz] s(1)
    by (simp add: validate_journal_operations_iff plan)
  moreover have "validate_journal_directory_topology (plan_operations plan) (plan_remove plan) (plan_create plan) = Inr ()"
    using directory_topology(1) [OF wf topo] topology_normalized [OF topo]
    by (simp add: plan topology_same_set [of "sort_key operation_path ?ops" ?ops])
  moreover have "validate_plan_selection plan = Inr ()" by (simp add: validate_plan_selection_iff plan)
  moreover have "plan_schema_version plan = OPERATION_PLAN_SCHEMA_VERSION" "plan_counts_match plan"
    "validate_plan_bytes plan = Inr ()"
    using sum unfolding plan by (rule plan_built_shape)+
  ultimately show "validate_plan_shape load plan = Inr ()" using nw by (simp add: validate_plan_shape_iff)
  have "distinct (map operation_path (sort_key operation_path ?ops))"
    by (rule sorted_lt_distinct [OF sorted_operations_strict [OF dis]])
  then show "apply_operations (plan_operations plan) (working_states working) = snapshot_states s"
    unfolding o by (intro restore_operations_reach [OF d sz]) simp_all
qed

lemma recheck_operation_iff:
  "recheck_operation digest t plan o' = Inr u \<longleftrightarrow>
     (plan_kind plan = DiscardKind \<longrightarrow> ensure_discard_folder_meta_operation_is_safe t (operation_path o') = Inr ())
     \<and> (\<exists>c. precondition_state digest t plan o' = Inr c
        \<and> map_option state_hash c = before_hash o' \<and> map_option state_size c = before_size o'
        \<and> map_option state_modified c = before_modified o')"
  by (auto simp: recheck_operation_def res_simps)

lemma node_below:
  assumes "project_tree_wf t" "r \<in> set (proper_prefixes q)"
    "project_node_at t r \<notin> {Some ProjectDirectory, Some ProjectLink}"
  shows "project_node_at t q = None"
  using tree_wf_parents [OF assms(1) _ assms(2)] assms(3) by (cases "project_node_at t q") auto

lemma fits_restore:
  assumes "operation_fits files x" "operation_type x = Restore"
  shows "no_before x \<and> after_hash x \<noteq> None \<and> (\<exists>f. files (operation_path x) = Some f)"
proof (cases "files (operation_path x)")
  case (Some f)
  then have "after_state x = Some (entry_state f)" using assms by (simp add: operation_fits_def)
  then show ?thesis using assms Some by (simp add: operation_fits_def after_state_Some)
qed (use assms in \<open>auto simp: operation_fits_def\<close>)

lemma fits_without_before:
  "operation_fits files x \<Longrightarrow> before_state x = None \<Longrightarrow> operation_type x = Restore"
  by (cases "operation_type x") (auto simp: operation_fits_def)

text \<open>
  A directory that was scanned completely and without a warning, and operations planned for it:
  each finds what the scan reported, and the directory changes are those of the plan.
\<close>

definition previewed ::
  "(bytes \<Rightarrow> bytes) \<Rightarrow> project_tree \<Rightarrow> snapshot_file \<Rightarrow> file_operation list \<Rightarrow> tracked_path list
    \<Rightarrow> tracked_path list \<Rightarrow> bool" where
  "previewed digest t s ops rm cr \<longleftrightarrow>
     project_tree_wf t \<and> \<not> snd (snd (collect_project_files t)) \<and> fst (snd (collect_project_files t)) = []
     \<and> snapshot_paths_ok s \<and> plan_directory_topology_changes t ops = Inr (rm, cr)
     \<and> (\<forall>x \<in> set ops. operation_fits (map_of (files_by_path s)) x
          \<and> before_state x = tracked_states digest t (operation_path x))"

definition paths_before :: "file_operation list \<Rightarrow> tracked_path list" where
  "paths_before ops = map operation_path (filter (\<lambda>o'. before_hash o' \<noteq> None) ops)"

lemma previewed_root:
  assumes "previewed digest t s ops rm cr" and "tracked_path_valid p"
    and "project_node_at t [hd (path_segments p)] = Some n"
  shows "project_node_at t [hd (path_segments p)] = Some ProjectDirectory"
proof -
  have "project_lstat t [hd (path_segments p)] = Inr ProjectDirectory"
    using complete_root assms tracked_root_segment unfolding previewed_def by blast
  then show ?thesis by (rule project_lstat_Inr)
qed

lemma previewed_steps:
  assumes "previewed digest t s ops rm cr" and "p \<in> written_paths ops"
  obtains ds ms where
    "directories_blocking t (map operation_path (filter (\<lambda>o'. operation_type o' = Delete) ops)) p = Inr ds"
    "directories_missing t (paths_before ops) False (tl (proper_prefixes (path_segments p))) = Inr ms"
proof -
  have wf: "project_tree_wf t" and topo: "plan_directory_topology_changes t ops = Inr (rm, cr)"
    using assms(1) by (auto simp: previewed_def)
  show thesis using directory_topology(4) [OF wf topo assms(2)] that unfolding paths_before_def by blast
qed

text \<open>What lies at a written path lies below real directories.\<close>

lemma previewed_parents:
  assumes pv: "previewed digest t s ops rm cr" and w: "p \<in> written_paths ops" and v: "tracked_path_valid p"
    and node: "project_node_at t (path_segments p) = Some n"
    and r: "r \<in> set (proper_prefixes (path_segments p))"
  shows "project_node_at t r = Some ProjectDirectory"
proof -
  have wf: "project_tree_wf t" using pv by (simp add: previewed_def)
  obtain ms where m: "directories_missing t (paths_before ops) False (tl (proper_prefixes (path_segments p))) = Inr ms"
    using previewed_steps [OF pv w] by blast
  from proper_prefix_cases [OF r] show ?thesis
  proof
    assume rr: "r = [hd (path_segments p)]"
    then obtain k where "project_node_at t [hd (path_segments p)] = Some k"
      using tree_wf_parents [OF wf node r] by auto
    then show ?thesis using previewed_root [OF pv v] rr by blast
  next
    assume rtl: "r \<in> set (tl (proper_prefixes (path_segments p)))"
    have no: "project_node_at t b \<in> {Some ProjectDirectory, Some ProjectLink}"
      if "b \<in> set (tl (proper_prefixes (path_segments p)))" for b
      using tree_wf_parents [OF wf node] tl_proper_prefixes_subset [OF that] by blast
    from missing_parents [OF wf m] show ?thesis
    proof (elim disjE bexE conjE exE)
      fix b e assume "b \<in> set (tl (proper_prefixes (path_segments p)))" "project_lstat t b = Inl (Io e NotFound)"
      then show ?thesis using no [of b] lstat_not_found by fastforce
    next
      fix b d f n assume "b \<in> set (tl (proper_prefixes (path_segments p)))" "project_lstat t b = Inr (ProjectFile f n)"
      then show ?thesis using no [of b] project_lstat_Inr by fastforce
    qed (use rtl project_lstat_Inr in blast)
  qed
qed

text \<open>A written path that is blocked by a file lies below a file of the plan.\<close>

lemma previewed_ancestor:
  assumes pv: "previewed digest t s ops rm cr" and w: "p \<in> written_paths ops" and v: "tracked_path_valid p"
    and l: "project_lstat t (path_segments p) = Inl (Io z NotADirectory)"
  shows "\<exists>d \<in> set (paths_before ops). path_is_strict_descendant p d"
proof -
  let ?q = "path_segments p"
  have wf: "project_tree_wf t" using pv by (simp add: previewed_def)
  obtain ms where m: "directories_missing t (paths_before ops) False (tl (proper_prefixes ?q)) = Inr ms"
    using previewed_steps [OF pv w] by blast
  obtain r where r: "r \<in> set (proper_prefixes ?q)" "no_directory (project_node_at t r)"
    using l by (auto simp: project_lstat_def split: if_splits option.splits)
  then obtain k where k: "project_node_at t r = Some k" "k \<noteq> ProjectDirectory"
    by (cases "project_node_at t r") (auto simp: no_directory_def split: project_node.splits)
  have "r \<noteq> [hd ?q]" using previewed_root [OF pv v] k by auto
  then have rtl: "r \<in> set (tl (proper_prefixes ?q))" using proper_prefix_cases [OF r(1)] by blast
  have notdir: "project_lstat t r \<noteq> Inr ProjectDirectory" using k project_lstat_Inr [of t r] by auto
  have "\<exists>d \<in> set (paths_before ops). path_segments d \<in> set (tl (proper_prefixes ?q))"
    using missing_parents [OF wf m]
  proof (elim disjE bexE conjE exE)
    fix b e assume b: "b \<in> set (tl (proper_prefixes ?q))" "project_lstat t b = Inl (Io e NotFound)"
      and up: "\<forall>q \<in> set (tl (proper_prefixes ?q)). q \<in> set (proper_prefixes b) \<longrightarrow> project_lstat t q = Inr ProjectDirectory"
    have "r \<notin> set (proper_prefixes b)" using up rtl notdir by blast
    then have "r = b \<or> b \<in> set (proper_prefixes r)"
      using prefix_total [OF r(1) tl_proper_prefixes_subset [OF b(1)]] by blast
    then have "project_node_at t r = None" using lstat_not_found [OF b(2)] node_below [OF wf, of b r] by auto
    then show ?thesis using k by simp
  qed (use rtl notdir in blast)+
  then show ?thesis using tl_proper_prefixes_subset unfolding strict_descendant_iff by blast
qed

text \<open>An operation that restores a missing file finds its place free, or becoming free.\<close>

lemma previewed_absent:
  assumes pv: "previewed digest t s ops rm cr" and x: "x \<in> set ops"
    and none: "tracked_states digest t (operation_path x) = None"
    and plan: "set (plan_remove plan) = set rm"
      "set (map operation_path (filter (\<lambda>c. before_hash c \<noteq> None) (plan_operations plan))) = set (paths_before ops)"
  shows "no_before x \<and> precondition_state digest t plan x = Inr None"
proof -
  let ?p = "operation_path x" and ?q = "path_segments (operation_path x)"
  have wf: "project_tree_wf t" and topo: "plan_directory_topology_changes t ops = Inr (rm, cr)"
    and fit: "operation_fits (map_of (files_by_path s)) x" "before_state x = None"
    and sp: "snapshot_paths_ok s" and quiet: "\<not> snd (snd (collect_project_files t))" "fst (snd (collect_project_files t)) = []"
    using pv x none by (auto simp: previewed_def)
  from fits_restore [OF fit(1) fits_without_before [OF fit]] obtain f where nb: "no_before x"
    and ah: "after_hash x \<noteq> None" and "map_of (files_by_path s) ?p = Some f" by blast
  then have v: "tracked_path_valid ?p" "\<forall>g \<in> set ?q. utf8_valid g"
    using sp map_of_files_by_path [of s ?p f] by (auto simp: snapshot_paths_ok_def)
  have w: "?p \<in> written_paths ops" using x ah by (auto simp: written_paths_def)
  obtain ds where step: "directories_blocking t (map operation_path (filter (\<lambda>o'. operation_type o' = Delete) ops)) ?p = Inr ds"
    using previewed_steps [OF pv w] by blast
  have "precondition_state digest t plan x = Inr None"
  proof (cases "project_lstat t ?q")
    case (Inr n)
    have node: "project_node_at t ?q = Some n" by (rule project_lstat_Inr [OF Inr])
    have dirs: "\<forall>r \<in> set (proper_prefixes ?q). project_node_at t r = Some ProjectDirectory"
      using previewed_parents [OF pv w v(1) node] by blast
    show ?thesis
    proof (cases n)
      case (ProjectFile bs m)
      have "\<not> is_checkpo_temporary_file (tracked_as_str ?p)"
        using temporary_warns [OF wf quiet(1) v dirs node [unfolded ProjectFile]] quiet(2) by blast
      then have "scannable t ?p bs m" using node ProjectFile dirs v by (simp add: scannable_def)
      then show ?thesis using none by (auto simp: tracked_states_def scannable_def)
    next
      case ProjectDirectory
      have "?q \<in> blocking_directories t ops"
        using w Inr node ProjectDirectory by (auto simp: blocking_directories_def walked_def starts_with_iff)
      then have "?p \<in> set rm" using directory_topology(2) [OF wf topo] by (metis image_iff path_segments_inj)
      then show ?thesis using Inr ProjectDirectory nb by (simp add: precondition_state_def no_before_def plan(1))
    qed (use step Inr in \<open>simp_all add: directories_blocking_def\<close>)
  next
    case (Inl e)
    have "\<exists>z. e = Io z NotFound \<or> e = Io z NotADirectory"
      using step Inl by (auto simp: directories_blocking_def split: checkpo_error.splits io_error_kind.splits)
    moreover have "has_tracked_ancestor ?p (map operation_path (filter (\<lambda>c. before_hash c \<noteq> None) (plan_operations plan)))"
      if "e = Io z NotADirectory" for z
      using previewed_ancestor [OF pv w v(1)] Inl that unfolding has_tracked_ancestor_def plan(2) by blast
    ultimately show ?thesis using Inl by (auto simp: precondition_state_def)
  qed
  with nb show ?thesis by blast
qed

text \<open>A directory to create is missing, or a file of the plan is in its place or above it.\<close>

lemma previewed_created:
  assumes pv: "previewed digest t s ops rm cr" and c: "c \<in> set cr" and bf: "set before = set (paths_before ops)"
  shows "recheck_created_directory t before c = Inr ()"
proof -
  have wf: "project_tree_wf t" and topo: "plan_directory_topology_changes t ops = Inr (rm, cr)"
    using pv by (auto simp: previewed_def)
  obtain p where p: "p \<in> written_paths ops" "path_segments c \<in> set (tl (proper_prefixes (path_segments p)))"
    "\<exists>n. 1 < n \<and> n \<le> length (path_segments c) \<and> project_lstat t (take n (path_segments c)) \<noteq> Inr ProjectDirectory"
    using c directory_topology(3) [OF wf topo] unfolding missing_below_roots_def by blast
  obtain ms where step: "directories_missing t (paths_before ops) False (tl (proper_prefixes (path_segments p))) = Inr ms"
    using previewed_steps [OF pv p(1)] by blast
  have "path_segments c \<in> path_segments ` set ms"
    unfolding directories_missing_exact [OF step] using p(2,3) by blast
  then have cm: "c \<in> set ms" by (metis image_iff path_segments_inj)
  from missing_parents [OF wf step] show ?thesis
  proof (elim disjE bexE conjE exE)
    assume "\<forall>q \<in> set (tl (proper_prefixes (path_segments p))). project_lstat t q = Inr ProjectDirectory"
    moreover obtain n where "1 < n" "n \<le> length (path_segments c)" "project_lstat t (take n (path_segments c)) \<noteq> Inr ProjectDirectory"
      using p(3) by blast
    moreover obtain k where "path_segments c = take k (path_segments p)" "k < length (path_segments p)" "1 < k"
      using p(2) by (auto simp: set_tl_proper_prefixes)
    ultimately have "take n (path_segments c) = take n (path_segments p)"
      "take n (path_segments p) \<in> set (tl (proper_prefixes (path_segments p)))"
      by (auto simp: set_tl_proper_prefixes intro!: exI [of _ n])
    then have False
      using \<open>project_lstat t (take n (path_segments c)) \<noteq> Inr ProjectDirectory\<close>
        \<open>\<forall>q \<in> set (tl (proper_prefixes (path_segments p))). project_lstat t q = Inr ProjectDirectory\<close> by simp
    then show ?thesis ..
  next
    fix b e assume "project_lstat t b = Inl (Io e NotFound)"
      and "\<forall>d \<in> set ms. path_segments d = b \<or> b \<in> set (proper_prefixes (path_segments d))"
    then have l: "project_lstat t b = Inl (Io e NotFound)" and bc: "path_segments c = b \<or> b \<in> set (proper_prefixes (path_segments c))"
      using cm by blast+
    note nf = lstat_not_found [OF l]
    have nn: "project_node_at t r = None" if "r = b \<or> b \<in> set (proper_prefixes r)" for r
      using that nf node_below [OF wf, of b r] by auto
    have "\<not> no_directory (project_node_at t r)" if r: "r \<in> set (proper_prefixes (path_segments c))" for r
    proof -
      from bc have "r \<in> set (proper_prefixes b) \<or> r = b \<or> b \<in> set (proper_prefixes r)"
        using r prefix_total [OF r] by auto
      then show ?thesis using nf nn by (auto simp: no_directory_def)
    qed
    then have "project_lstat t (path_segments c) = Inl (Io (path_segments c) NotFound)"
      using lstat_missing [OF wf nn [of "path_segments c"]] bc by auto
    then show ?thesis by (simp add: recheck_created_directory_def)
  next
    fix b d f n assume bd: "d \<in> set (paths_before ops)" "path_segments d = b" "project_lstat t b = Inr (ProjectFile f n)"
      and "\<forall>d \<in> set ms. path_segments d = b \<or> b \<in> set (proper_prefixes (path_segments d))"
    then consider "path_segments c = b" | "b \<in> set (proper_prefixes (path_segments c))" using cm by blast
    then show ?thesis
    proof cases
      case 1
      then have "path_segments c = path_segments d" using bd(2) by simp
      then have "c = d" by (simp only: path_segments_inj)
      then show ?thesis using bd(1,3) 1 bf by (simp add: recheck_created_directory_def)
    next
      case 2
      have nb: "project_node_at t b = Some (ProjectFile f n)" by (rule project_lstat_Inr [OF bd(3)])
      then have "project_node_at t (path_segments c) = None" using node_below [OF wf 2] by simp
      then have "project_lstat t (path_segments c) = Inl (Io (path_segments c) NotADirectory)"
        using lstat_missing [OF wf] nb 2 by (auto simp: no_directory_def intro!: bexI [of _ b])
      moreover have "has_tracked_ancestor c before"
        unfolding has_tracked_ancestor_def bf using bd(1,2) 2 by (auto simp: strict_descendant_iff)
      ultimately show ?thesis by (simp add: recheck_created_directory_def)
    qed
  qed
qed

text \<open>The preconditions of the plan hold on the directory it was made for.\<close>

lemma previewed_recheck:
  assumes pv: "previewed digest t s ops rm cr"
    and plan: "plan_operations plan = sort_key operation_path ops" "set (plan_remove plan) = set rm"
      "set (plan_create plan) = set cr" "plan_kind plan = RestoreKind"
    and rd: "\<And>p c. tracked_states digest t p = Some c \<Longrightarrow> path_segments p \<notin> set (tree_unreadable t)"
  shows "recheck_preconditions digest t plan = Inr ()"
proof -
  have wf: "project_tree_wf t" and topo: "plan_directory_topology_changes t ops = Inr (rm, cr)"
    and quiet: "\<not> snd (snd (collect_project_files t))" using pv by (auto simp: previewed_def)
  have before: "set (map operation_path (filter (\<lambda>c. before_hash c \<noteq> None) (plan_operations plan))) = set (paths_before ops)"
    by (simp add: plan(1) paths_before_def)
  have "recheck_operation digest t plan x = Inr ()" if x: "x \<in> set ops" for x
  proof (cases "tracked_states digest t (operation_path x)")
    case None
    then show ?thesis
      using previewed_absent [OF pv x None plan(2) before] plan(4) by (auto simp: recheck_operation_iff no_before_def)
  next
    case (Some c)
    then obtain f m where f: "scannable t (operation_path x) f m" "c = file_state digest f m"
      by (auto simp: tracked_states_Some)
    have "open_project_file t (path_segments (operation_path x)) = Inr (f, m)"
      using f(1) rd [OF Some] by (simp add: open_project_file_def scannable_def res_bind_Inr_iff try_all_Inr_iff open_project_component_def)
    then have "precondition_state digest t plan x = Inr (Some c)"
      using collect_complete(2) [OF wf quiet f(1)] f(2)
      by (simp add: precondition_state_def current_file_state_from_anchor_def)
    moreover have "before_state x = Some c" using pv x Some by (simp add: previewed_def)
    ultimately show ?thesis using plan(4) by (auto simp: recheck_operation_iff before_state_Some)
  qed
  moreover have "recheck_removed_directory t d = Inr ()" if "d \<in> set rm" for d
    using directory_topology(5) [OF wf topo that] by (simp add: recheck_removed_directory_def)
  moreover have "recheck_created_directory t
      (map operation_path (filter (\<lambda>o'. before_hash o' \<noteq> None) (plan_operations plan))) c = Inr ()" if "c \<in> set cr" for c
    by (rule previewed_created [OF pv that before])
  ultimately show ?thesis
    unfolding recheck_preconditions_def by (simp add: res_bind_Inr_iff try_all_Inr_iff plan)
qed

lemma restore_previewed:
  assumes wf: "project_tree_wf t" and hon: "honest digest t cached"
    and b: "build_unsigned_plan digest load (still t) cached t checkpoint RestoreKind selected = Inr plan"
    and s: "load checkpoint = Inr s" "snapshot_paths_ok s"
    and sz: "sizes_agree s (tracked_states digest t)" and nw: "plan_warnings plan = []"
  obtains working rm cr where "scan_with_baseline digest (still t) cached s = (working, [], False)"
    and "working_states working = tracked_states digest t"
    and "previewed digest t s (restore_operations s working) rm cr"
    and "plan = with_directory_changes rm cr (operation_plan_new checkpoint RestoreKind None (restore_operations s working))"
proof -
  from b s(1) obtain working ws inc rm cr where scan: "scan_with_baseline digest (still t) cached s = (working, ws, inc)"
    and topo: "plan_directory_topology_changes t (restore_operations s working) = Inr (rm, cr)"
    and plan: "plan = with_warnings (map format_scan_warning ws) (with_directory_changes rm cr
        (operation_plan_new checkpoint RestoreKind None (restore_operations s working)))"
    by (auto elim: build_restore_unfold)
  have ws: "ws = []" using nw by (simp add: plan)
  note st = working_states_still [OF wf hon scan ws]
  have d: "distinct (map snap_path (snap_files s))" using s(2) by (simp add: snapshot_paths_ok_def)
  have "\<not> inc"
    using scan_with_baseline_internal [of digest "still t" cached s] scan scan_warnings(1) [OF _ ws] by metis
  moreover have "previewed digest t s (restore_operations s working) rm cr"
    using wf st(2,3) s(2) topo restore_operation_fits [OF d sz [folded st(1)]] st(1) by (simp add: previewed_def)
  moreover have "plan = with_directory_changes rm cr
      (operation_plan_new checkpoint RestoreKind None (restore_operations s working))"
    by (simp add: plan ws with_warnings_def with_directory_changes_def operation_plan_new_def Let_def)
  ultimately show thesis using that [of working rm cr] scan ws st(1) by simp
qed

text \<open>C1: A plan that passes the checks made before it is applied can only do what its checkpoint says:
  whatever the project holds, its operations put every path they name into the state the checkpoint
  has for it, absent included, and leave every other path alone. A discard names only selected
  paths, and every directory the plan removes or creates is one that a file written by the plan
  needs out of the way or needs as its parent.\<close>

theorem accepted_plan_effect:
  assumes "validate_plan_shape load plan = Inr ()"
  shows "\<exists>s. load (plan_checkpoint plan) = Inr s
      \<and> apply_operations (plan_operations plan) project =
          (\<lambda>p. if p \<in> operation_paths (plan_operations plan) then snapshot_states s p else project p)
      \<and> (plan_kind plan = DiscardKind \<longrightarrow> (\<exists>selected. plan_selected plan = Some selected
            \<and> operation_paths (plan_operations plan) \<subseteq> set selected))
      \<and> (\<forall>d \<in> set (plan_remove plan). \<exists>p \<in> written_paths (plan_operations plan). path_is_same_or_descendant d p)
      \<and> (\<forall>d \<in> set (plan_create plan). \<exists>p \<in> written_paths (plan_operations plan). path_is_strict_descendant p d)"
proof -
  have journal: "validate_journal_operations load (plan_checkpoint plan) (plan_operations plan) = Inr ()"
    and selection: "validate_plan_selection plan = Inr ()"
    and topology: "validate_journal_directory_topology (plan_operations plan) (plan_remove plan) (plan_create plan) = Inr ()"
    using assms by (auto simp: validate_plan_shape_iff)
  from journal obtain s where s: "load (plan_checkpoint plan) = Inr s"
    by (auto simp: validate_journal_operations_iff)
  have "\<exists>p \<in> written_paths (plan_operations plan). path_is_same_or_descendant d p" if "d \<in> set (plan_remove plan)" for d
    using topology that by (fastforce simp: validate_journal_directory_topology_iff written_paths_def)
  moreover have "\<exists>p \<in> written_paths (plan_operations plan). path_is_strict_descendant p d" if "d \<in> set (plan_create plan)" for d
    using topology that by (fastforce simp: validate_journal_directory_topology_iff written_paths_def)
  ultimately show ?thesis
    using s validated_operations_effect [OF journal s] selection by (auto simp: validate_plan_selection_iff)
qed

lemma authorize_plan_simps [simp]:
  "plan_operations (authorize_operation_plan j k plan) = plan_operations plan"
  "plan_remove (authorize_operation_plan j k plan) = plan_remove plan"
  "plan_create (authorize_operation_plan j k plan) = plan_create plan"
  "plan_kind (authorize_operation_plan j k plan) = plan_kind plan"
  "plan_checkpoint (authorize_operation_plan j k plan) = plan_checkpoint plan"
  "plan_selected (authorize_operation_plan j k plan) = plan_selected plan"
  "plan_warnings (authorize_operation_plan j k plan) = plan_warnings plan"
  by (simp_all add: authorize_operation_plan_def)

lemma authorize_plan_shape:
  "validate_plan_shape load (authorize_operation_plan j k plan) = validate_plan_shape load plan"
proof -
  let ?a = "authorize_operation_plan j k plan"
  have "plan_counts_match ?a = plan_counts_match plan" "validate_plan_bytes ?a = validate_plan_bytes plan"
    "validate_plan_selection ?a = validate_plan_selection plan"
    "plan_schema_version ?a = plan_schema_version plan"
    by (simp_all only: validate_plan_selection_def authorize_plan_simps)
      (simp_all add: authorize_operation_plan_def plan_counts_match_def validate_plan_bytes_def)
  then show ?thesis by (simp only: validate_plan_shape_def authorize_plan_simps)
qed

lemma authorize_plan_passes:
  "validate_operation_plan_authorization j k (authorize_operation_plan j k plan) = Inr ()"
  by (simp add: validate_operation_plan_authorization_def authorize_operation_plan_def operation_plan_authorization_def)

text \<open>C2: While the project stays as it is, the preview of a full restore that shows no warning is
  accepted when it is submitted, and its operations take the tracked files of the project to exactly
  the files of the checkpoint: contents, sizes and modification times.\<close>

theorem restore_preview_applies:
  assumes "project_tree_wf t" and "honest digest t cached"
    and "load checkpoint = Inr s" and "snapshot_paths_ok s" and "sizes_agree s (tracked_states digest t)"
    and "\<And>p. tracked_states digest t p \<noteq> None \<Longrightarrow> path_segments p \<notin> set (tree_unreadable t)"
    and "build_plan to_json keyed_hash digest load (still t) cached t checkpoint RestoreKind selected = Inr plan"
    and "plan_warnings plan = []"
    and "sum_list (map unat (staged_sizes (plan_operations plan)))
      + sum_list (map unat (backup_sizes (plan_operations plan))) < 2 ^ 64"
  shows "validate_expected_plan to_json keyed_hash digest load t plan = Inr ()
    \<and> apply_operations (plan_operations plan) (tracked_states digest t) = snapshot_states s"
proof
  from assms(7) obtain bare where bare: "build_unsigned_plan digest load (still t) cached t checkpoint RestoreKind selected = Inr bare"
    and plan: "plan = authorize_operation_plan to_json keyed_hash bare"
    by (auto simp: build_plan_def res_simps)
  have nw: "plan_warnings bare = []" using assms(8) plan by simp
  obtain working rm cr where w: "scan_with_baseline digest (still t) cached s = (working, [], False)"
    "working_states working = tracked_states digest t" "previewed digest t s (restore_operations s working) rm cr"
    and b: "bare = with_directory_changes rm cr (operation_plan_new checkpoint RestoreKind None (restore_operations s working))"
    using restore_previewed [OF assms(1,2) bare assms(3,4,5) nw] .
  have sum: "sum_list (map unat (staged_sizes (plan_operations bare))) + sum_list (map unat (backup_sizes (plan_operations bare))) < 2 ^ 64"
    using assms(9) plan by simp
  note accepted = restore_plan_accepted [OF assms(1) bare assms(3,4) w(1) _ nw sum, unfolded w(2), OF assms(5)]
  have "recheck_preconditions digest t plan = Inr ()"
    using assms(6) by (intro previewed_recheck [OF w(3)]) (auto simp: plan b)
  then show "validate_expected_plan to_json keyed_hash digest load t plan = Inr ()"
    using accepted(1) by (simp add: validate_expected_plan_def plan authorize_plan_shape authorize_plan_passes)
  show "apply_operations (plan_operations plan) (tracked_states digest t) = snapshot_states s"
    using accepted(2) by (simp add: plan)
qed

lemma no_operations_no_directories: "plan_directory_topology_changes t [] = Inr ([], [])"
  by (simp add: topology_changes_unfold deepest_first_def btree_set_def)

text \<open>The comparison at the end of a restore accepts what a scan without warnings and changes gives.\<close>

lemma verify_full_restore_unfold:
  assumes "load checkpoint = Inr s" and "scan_with_baseline digest ts cached s = (working, warnings, incomplete)"
  shows "verify_full_restore_target digest load ts cached t checkpoint = Inr ()
    \<longleftrightarrow> warnings = [] \<and> restore_operations s working = []"
proof
  assume "verify_full_restore_target digest load ts cached t checkpoint = Inr ()"
  then show "warnings = [] \<and> restore_operations s working = []"
    using assms
    by (auto simp: verify_full_restore_target_def build_unsigned_plan_def planned_operations_def res_simps
        with_warnings_def with_directory_changes_def operation_plan_new_def Let_def sort_key_Nil_iff)
next
  assume "warnings = [] \<and> restore_operations s working = []"
  then show "verify_full_restore_target digest load ts cached t checkpoint = Inr ()"
    using assms no_operations_no_directories
    by (simp add: verify_full_restore_target_def build_unsigned_plan_def planned_operations_def
        with_warnings_def with_directory_changes_def operation_plan_new_def Let_def deepest_first_def)
qed

text \<open>C29: The check at the end of a restore accepts a project that does not change while it is read
  exactly when the scan of it gives no warning and its tracked files are the files of the checkpoint:
  a project with any warning is refused, whatever its files are.\<close>

theorem full_restore_verified_iff:
  assumes "project_tree_wf t" and "honest digest t cached" and "load checkpoint = Inr s"
    and "snapshot_paths_ok s" and "sizes_agree s (tracked_states digest t)"
  shows "verify_full_restore_target digest load (still t) cached t checkpoint = Inr ()
    \<longleftrightarrow> fst (snd (scan_with_baseline digest (still t) cached s)) = []
      \<and> tracked_states digest t = snapshot_states s"
proof -
  obtain working warnings incomplete where
    scan: "scan_with_baseline digest (still t) cached s = (working, warnings, incomplete)"
    by (cases "scan_with_baseline digest (still t) cached s")
  have d: "distinct (map snap_path (snap_files s))" using assms(4) by (simp add: snapshot_paths_ok_def)
  have "restore_operations s working = [] \<longleftrightarrow> tracked_states digest t = snapshot_states s" if "warnings = []"
  proof -
    let ?ops = "restore_operations s working"
    have st: "working_states working = tracked_states digest t"
      by (rule working_states_still(1) [OF assms(1,2) scan that])
    have reach: "apply_operations ?ops (tracked_states digest t) = snapshot_states s"
      using restore_operations_reach [OF d assms(5) [folded st] refl distinct_restore_operations [OF d]] st by simp
    show ?thesis
    proof
      assume "?ops = []"
      then show "tracked_states digest t = snapshot_states s" using reach by (simp add: apply_operations_def)
    next
      assume "tracked_states digest t = snapshot_states s"
      then have "working_states working = snapshot_states s" using st by simp
      then show "?ops = []" by (rule restore_operations_settled [OF d])
    qed
  qed
  then show ?thesis using verify_full_restore_unfold [where load = load, OF assms(3) scan] scan by auto
qed

text \<open>C31: A scan that no one disturbs and that gives no warning reports exactly the tracked files of
  the project, each with the hash, size and time of its content.\<close>

theorem quiet_scan_exact:
  assumes "project_tree_wf t" and "honest digest t cached"
    and "scan_with_baseline digest (still t) cached s = (files, [], incomplete)"
  shows "\<not> incomplete \<and> working_states files = tracked_states digest t"
proof
  show "\<not> incomplete"
    using scan_with_baseline_internal [of digest "still t" cached s] assms(3) scan_warnings(1) by metis
  show "working_states files = tracked_states digest t" by (rule working_states_still(1) [OF assms]) simp
qed

end
