(* ===== verification/WorkingDiff.thy ===== *)
theory WorkingDiff
  imports PlanPreview
begin

text \<open>
  The comparison of a checkpoint with the working tree (\<open>diff.rs\<close>), by content and by metadata.
\<close>

section \<open>Comparing a checkpoint with the working tree\<close>

record diff_result =
  diff_added :: "str list"
  diff_modified :: "str list"
  diff_deleted :: "str list"
  diff_unknown :: "str list"
  diff_unchanged_count :: nat
  diff_complete :: bool
  diff_warnings :: "str list"

definition compare_path ::
  "(tracked_path \<Rightarrow> 'a option) \<Rightarrow> (tracked_path \<Rightarrow> 'a option) \<Rightarrow> bool \<Rightarrow> tracked_path
    \<Rightarrow> diff_result \<Rightarrow> diff_result" where
  "compare_path snapshot working incomplete p d =
     (case (snapshot p, working p) of
        (None, Some _) \<Rightarrow> d\<lparr>diff_added := diff_added d @ [tracked_as_str p]\<rparr>
      | (Some _, None) \<Rightarrow>
          if incomplete then d\<lparr>diff_unknown := diff_unknown d @ [tracked_as_str p]\<rparr>
          else d\<lparr>diff_deleted := diff_deleted d @ [tracked_as_str p]\<rparr>
      | (Some expected, Some actual) \<Rightarrow>
          if expected \<noteq> actual then d\<lparr>diff_modified := diff_modified d @ [tracked_as_str p]\<rparr>
          else d\<lparr>diff_unchanged_count := diff_unchanged_count d + 1\<rparr>
      | (None, None) \<Rightarrow> d)"

definition compare_maps ::
  "(tracked_path \<times> 'a) list \<Rightarrow> (tracked_path \<times> 'a) list \<Rightarrow> bool \<Rightarrow> diff_result" where
  "compare_maps snapshot working incomplete =
     fold (compare_path (map_of snapshot) (map_of working) incomplete)
       (btree_set (map fst snapshot @ map fst working))
       \<lparr>diff_added = [], diff_modified = [], diff_deleted = [], diff_unknown = [],
        diff_unchanged_count = 0, diff_complete = (\<not> incomplete), diff_warnings = []\<rparr>"

definition diff_checkpoint ::
  "(bytes \<Rightarrow> bytes) \<Rightarrow> scan_moments \<Rightarrow> fingerprint_cache option \<Rightarrow> snapshot_file \<Rightarrow> diff_result" where
  "diff_checkpoint digest ts cached s =
     (case scan_with_baseline digest ts cached s of
        (working, warnings, incomplete) \<Rightarrow>
          (compare_maps
             (btree_map (map (\<lambda>f. (snap_path f, (content_hash f, snap_modified f))) (snap_files s)))
             (btree_map (map (\<lambda>f. (scanned_path f, (scanned_hash f, scanned_modified f))) working))
             incomplete)
          \<lparr>diff_warnings := map format_scan_warning warnings\<rparr>)"

definition diff_checkpoint_metadata :: "project_tree \<Rightarrow> snapshot_file \<Rightarrow> diff_result" where
  "diff_checkpoint_metadata t s =
     (case scan_project_metadata t of
        (working, warnings, incomplete) \<Rightarrow>
          (compare_maps
             (btree_map (map (\<lambda>f. (snap_path f, (snap_size f, snap_modified f))) (snap_files s)))
             (btree_map (map (\<lambda>f. (metadata_path f, (metadata_size f, metadata_modified f))) working))
             incomplete)
          \<lparr>diff_warnings := map format_scan_warning warnings\<rparr>)"

text \<open>Every path of either map is put in the one class it belongs to.\<close>

definition class_of :: "'a option \<Rightarrow> 'a option \<Rightarrow> nat" where
  "class_of e a =
     (case (e, a) of
        (None, None) \<Rightarrow> 0 | (None, Some _) \<Rightarrow> 1 | (Some _, None) \<Rightarrow> 2
      | (Some x, Some y) \<Rightarrow> if x \<noteq> y then 3 else 4)"

definition paths_of_class ::
  "(tracked_path \<Rightarrow> 'a option) \<Rightarrow> (tracked_path \<Rightarrow> 'a option) \<Rightarrow> nat \<Rightarrow> tracked_path list \<Rightarrow> str list" where
  "paths_of_class s w k ps = map tracked_as_str (filter (\<lambda>p. class_of (s p) (w p) = k) ps)"

lemma fold_compare_path:
  "fold (compare_path s w inc) ps d =
     d\<lparr>diff_added := diff_added d @ paths_of_class s w 1 ps,
       diff_modified := diff_modified d @ paths_of_class s w 3 ps,
       diff_deleted := diff_deleted d @ (if inc then [] else paths_of_class s w 2 ps),
       diff_unknown := diff_unknown d @ (if inc then paths_of_class s w 2 ps else []),
       diff_unchanged_count := diff_unchanged_count d + length (paths_of_class s w 4 ps)\<rparr>"
proof (induction ps arbitrary: d)
  case (Cons p ps)
  then show ?case
    by (cases "s p"; cases "w p") (simp_all add: compare_path_def paths_of_class_def class_of_def)
qed (simp add: paths_of_class_def)

lemma compare_maps_classes:
  "compare_maps s w inc =
     (let ps = btree_set (map fst s @ map fst w); c = (\<lambda>k. paths_of_class (map_of s) (map_of w) k ps) in
      \<lparr>diff_added = c 1, diff_modified = c 3, diff_deleted = (if inc then [] else c 2),
       diff_unknown = (if inc then c 2 else []), diff_unchanged_count = length (c 4),
       diff_complete = (\<not> inc), diff_warnings = []\<rparr>)"
  by (simp add: compare_maps_def fold_compare_path Let_def)

text \<open>The operation of a path, and the class that the comparison puts the path in.\<close>

definition snapshot_marks :: "snapshot_file \<Rightarrow> (tracked_path \<times> object_id \<times> str) list" where
  "snapshot_marks s = btree_map (map (\<lambda>f. (snap_path f, (content_hash f, snap_modified f))) (snap_files s))"

definition working_marks :: "scanned_file list \<Rightarrow> (tracked_path \<times> object_id \<times> str) list" where
  "working_marks w = btree_map (map (\<lambda>f. (scanned_path f, (scanned_hash f, scanned_modified f))) w)"

definition mark :: "current_file_state \<Rightarrow> object_id \<times> str" where
  "mark c = (state_hash c, state_modified c)"

lemma snapshot_marks_at:
  "map_of (snapshot_marks s) p = map_option (\<lambda>f. (content_hash f, snap_modified f)) (map_of (files_by_path s) p)"
  using map_of_map_values [where k = snap_path and h = "\<lambda>f. f" and xs = "rev (snap_files s)"]
  by (simp add: snapshot_marks_def files_by_path_def rev_map)

lemma working_marks_at: "map_of (working_marks w) p = map_option mark (working_states w p)"
  using map_of_map_values [where k = scanned_path and g = mark and xs = "rev w"
      and h = "\<lambda>f. \<lparr>state_hash = scanned_hash f, state_size = scanned_size f, state_modified = scanned_modified f\<rparr>"]
  by (simp add: working_marks_def working_states_def working_map_def rev_map mark_def)

abbreviation path_class :: "snapshot_file \<Rightarrow> scanned_file list \<Rightarrow> tracked_path \<Rightarrow> nat" where
  "path_class s w p \<equiv> class_of (map_of (snapshot_marks s) p) (map_of (working_marks w) p)"

lemma restore_operation_class:
  assumes d: "distinct (map snap_path (snap_files s))" and x: "x \<in> set (restore_operations s w)"
  shows "path_class s w (operation_path x) =
    (case operation_type x of Delete \<Rightarrow> 1 | Restore \<Rightarrow> 2 | Replace \<Rightarrow> 3 | SetMetadata \<Rightarrow> 3)"
proof -
  from x consider f where "f \<in> set (snap_files s)" "x \<in> set (operation_for f (working_states w (snap_path f)))"
    | p c where "working_states w p = Some c" "map_of (files_by_path s) p = None" "x = delete_operation p c"
    unfolding set_restore_operations working_states_Some by blast
  then show ?thesis
  proof cases
    case 1
    have "map_of (files_by_path s) (snap_path f) = Some f" using 1(1) by (simp add: map_of_files_by_path [OF d])
    then show ?thesis using 1(2)
      by (cases "working_states w (snap_path f)")
        (auto simp: class_of_def snapshot_marks_at working_marks_at mark_def operation_for_def
          restore_operation_def change_operation_def split: if_splits)
  next
    case 2
    then show ?thesis
      by (simp add: class_of_def snapshot_marks_at working_marks_at delete_operation_def)
  qed
qed

lemma restore_operation_of_class:
  assumes d: "distinct (map snap_path (snap_files s))" and p: "path_class s w p \<in> {1, 2, 3}"
  shows "p \<in> operation_path ` set (restore_operations s w)"
proof (cases "map_of (files_by_path s) p")
  case None
  then obtain c where "working_states w p = Some c"
    using p by (cases "working_states w p") (auto simp: class_of_def snapshot_marks_at working_marks_at)
  with None have "delete_operation p c \<in> set (restore_operations s w)"
    unfolding set_restore_operations working_states_Some [symmetric] by blast
  then show ?thesis by (force simp: delete_operation_def)
next
  case (Some f)
  then have f: "f \<in> set (snap_files s)" "snap_path f = p" by (simp_all add: map_of_files_by_path [OF d])
  have "operation_for f (working_states w p) \<noteq> []"
    using p Some by (auto simp: operation_for_none class_of_def snapshot_marks_at working_marks_at mark_def)
  then obtain x where x: "x \<in> set (operation_for f (working_states w p))" by (cases "operation_for f (working_states w p)") auto
  then have "x \<in> set (restore_operations s w)" using f unfolding set_restore_operations by blast
  moreover have "operation_path x = p" using operation_for_cases(1) [OF x] f(2) by simp
  ultimately show ?thesis by blast
qed

lemma operations_of_class:
  assumes d: "distinct (map snap_path (snap_files s))"
    and ks: "\<And>k'. k' \<in> ks \<longleftrightarrow> (case k' of Delete \<Rightarrow> 1 | Restore \<Rightarrow> 2 | Replace \<Rightarrow> 3 | SetMetadata \<Rightarrow> 3) = k"
    and k: "k \<in> {1, 2, 3}"
  shows "map (tracked_as_str \<circ> operation_path)
      (filter (\<lambda>o'. operation_type o' \<in> ks) (sort_key operation_path (restore_operations s w)))
    = paths_of_class (map_of (snapshot_marks s)) (map_of (working_marks w)) k
        (btree_set (map fst (snapshot_marks s) @ map fst (working_marks w)))"
proof -
  let ?ops = "restore_operations s w"
  let ?l = "map operation_path (filter (\<lambda>o'. operation_type o' \<in> ks) (sort_key operation_path ?ops))"
  let ?r = "filter (\<lambda>p. path_class s w p = k) (btree_set (map fst (snapshot_marks s) @ map fst (working_marks w)))"
  have all: "sorted_wrt (<) (map operation_path (sort_key operation_path ?ops))"
    by (rule sorted_operations_strict [OF distinct_restore_operations [OF d]])
  have l: "sorted_wrt (<) ?l" using all by (auto simp: sorted_wrt_map intro: sorted_wrt_filter)
  have r: "sorted_wrt (<) ?r" by (intro sorted_wrt_filter sorted_btree_set)
  have known: "p \<in> set (map fst (snapshot_marks s)) \<union> set (map fst (working_marks w))" if "path_class s w p = k" for p
  proof (rule ccontr)
    assume "p \<notin> set (map fst (snapshot_marks s)) \<union> set (map fst (working_marks w))"
    then have "map_of (snapshot_marks s) p = None" "map_of (working_marks w) p = None"
      by (simp_all add: map_of_eq_None_iff)
    then show False using that k by (auto simp: class_of_def)
  qed
  have "set ?l = {p. path_class s w p = k}"
  proof
    show "set ?l \<subseteq> {p. path_class s w p = k}"
      using restore_operation_class [OF d] ks by auto
    show "{p. path_class s w p = k} \<subseteq> set ?l"
    proof
      fix p assume p: "p \<in> {p. path_class s w p = k}"
      then obtain x where x: "x \<in> set ?ops" "operation_path x = p"
        using restore_operation_of_class [OF d, where w = w and p = p] k by auto
      then have "operation_type x \<in> ks" using restore_operation_class [OF d x(1)] p ks by simp
      then show "p \<in> set ?l" using x by auto
    qed
  qed
  moreover have "set ?r = {p. path_class s w p = k}"
    unfolding set_filter set_btree_set set_append using known by blast
  ultimately have "?l = ?r" using strict_sorted_equal [OF l r] by (simp only:)
  then have "map tracked_as_str ?l = map tracked_as_str ?r" by (rule arg_cong)
  then show ?thesis by (simp add: paths_of_class_def)
qed

text \<open>C35: The comparison shown to the user is what a restore would do. For the same scan, the added
  paths are the ones a restore plan deletes, the deleted or unknown ones those it restores, the
  modified ones those it replaces or sets the time of, in the same order, with the same warnings.\<close>

theorem diff_is_restore_plan:
  assumes "distinct (map snap_path (snap_files s))" and "load checkpoint = Inr s"
    and "build_unsigned_plan digest load ts cached t checkpoint RestoreKind selected = Inr plan"
  defines "paths \<equiv> \<lambda>ks. map (tracked_as_str \<circ> operation_path) (filter (\<lambda>o'. operation_type o' \<in> ks) (plan_operations plan))"
    and "diff \<equiv> diff_checkpoint digest ts cached s"
  shows "diff_added diff = paths {Delete} \<and> diff_deleted diff @ diff_unknown diff = paths {Restore}
    \<and> diff_modified diff = paths {Replace, SetMetadata} \<and> diff_warnings diff = plan_warnings plan"
proof -
  obtain working warnings inc rm cr where
    scan: "scan_with_baseline digest ts cached s = (working, warnings, inc)"
    and plan: "plan = with_warnings (map format_scan_warning warnings) (with_directory_changes rm cr
        (operation_plan_new checkpoint RestoreKind None (restore_operations s working)))"
    using assms(2,3) by (auto elim: build_restore_unfold)
  have ops: "plan_operations plan = sort_key operation_path (restore_operations s working)" by (simp add: plan)
  note same = operations_of_class [OF assms(1)]
  have "paths {Delete} = paths_of_class (map_of (snapshot_marks s)) (map_of (working_marks working)) 1
      (btree_set (map fst (snapshot_marks s) @ map fst (working_marks working)))"
    "paths {Restore} = paths_of_class (map_of (snapshot_marks s)) (map_of (working_marks working)) 2
      (btree_set (map fst (snapshot_marks s) @ map fst (working_marks working)))"
    "paths {Replace, SetMetadata} = paths_of_class (map_of (snapshot_marks s)) (map_of (working_marks working)) 3
      (btree_set (map fst (snapshot_marks s) @ map fst (working_marks working)))"
    unfolding assms(4) ops by (rule same; simp split: file_operation_type.split)+
  then show ?thesis
    by (simp add: assms(5) diff_checkpoint_def scan compare_maps_classes Let_def plan
        snapshot_marks_def working_marks_def)
qed

end
