(* ===== verification/PlanSample.thy ===== *)
theory PlanSample
  imports WorkingDiff "HOL-Library.Code_Target_Nat"
begin

text \<open>
  A sample project with a changed file and a directory where the checkpoint has a file. The scan,
  the plan and the directory changes are computed on it, and the properties of planning are seen to
  hold there.
\<close>

section \<open>The project and the checkpoint\<close>

definition demo_tree :: project_tree where
  "demo_tree =
     \<lparr>tree_nodes =
        [([lit ''Assets''], ProjectDirectory),
         ([lit ''Assets'', lit ''a''], ProjectFile [1] (lit ''t1'')),
         ([lit ''Assets'', lit ''d''], ProjectDirectory),
         ([lit ''Assets'', lit ''d'', lit ''x''], ProjectFile [4, 4, 4] (lit ''t1''))],
      tree_unstatable = [], tree_unreadable = [], tree_fingerprint = (\<lambda>_. None)\<rparr>"

lemma walked_iff: "walked t root q \<longleftrightarrow> starts_with root q \<and> (\<forall>n \<in> set [length root..<length q]. descends t (take n q))"
  by (auto simp: walked_def)

lemmas demo_inspect = demo_tree_def project_node_at_def proper_prefixes_def project_lstat_def
  walked_iff descends_def starts_with_def walk_dir_def no_directory_def atLeastLessThanSuc

lemma demo_walk:
  "walk_dir demo_tree [lit ''Assets''] =
     map WalkEntry [[lit ''Assets''], [lit ''Assets'', lit ''a''], [lit ''Assets'', lit ''d''], [lit ''Assets'', lit ''d'', lit ''x'']]"
  by (simp add: demo_inspect)

lemma demo_lstat:
  "project_lstat demo_tree [lit ''Assets''] = Inr ProjectDirectory"
  "project_lstat demo_tree [lit ''Packages''] = Inl (Io [lit ''Packages''] NotFound)"
  "project_lstat demo_tree [lit ''ProjectSettings''] = Inl (Io [lit ''ProjectSettings''] NotFound)"
  "project_lstat demo_tree [lit ''Assets'', lit ''a''] = Inr (ProjectFile [1] (lit ''t1''))"
  "project_lstat demo_tree [lit ''Assets'', lit ''d''] = Inr ProjectDirectory"
  "project_lstat demo_tree [lit ''Assets'', lit ''d'', lit ''x''] = Inr (ProjectFile [4, 4, 4] (lit ''t1''))"
  by (simp_all add: demo_inspect)

definition demo_a :: tracked_path where "demo_a = TrackedPath (lit ''Assets/a'')"
definition demo_d :: tracked_path where "demo_d = TrackedPath (lit ''Assets/d'')"
definition demo_x :: tracked_path where "demo_x = TrackedPath (lit ''Assets/d/x'')"

lemma demo_paths:
  "tracked_path_parse (lit ''Assets/a'') = Inr demo_a"
  "tracked_path_parse (lit ''Assets/d/x'') = Inr demo_x"
  "tracked_path_parse (lit ''Assets/d'') = Inr demo_d"
  "\<not> is_checkpo_temporary_file (lit ''Assets/a'')" "\<not> is_checkpo_temporary_file (lit ''Assets/d/x'')"
  by code_simp+

lemma demo_joined:
  "joined [lit ''Assets'', lit ''a''] = lit ''Assets/a''" 
  "joined [lit ''Assets'', lit ''d'', lit ''x''] = lit ''Assets/d/x''"
  "joined [lit ''Assets'', lit ''d''] = lit ''Assets/d''"
  "relative_of_entry [lit ''Assets'', lit ''a''] = Inr (lit ''Assets/a'')"
  "relative_of_entry [lit ''Assets'', lit ''d''] = Inr (lit ''Assets/d'')"
  "relative_of_entry [lit ''Assets'', lit ''d'', lit ''x''] = Inr (lit ''Assets/d/x'')"
  by code_simp+

lemma demo_order: "demo_a < demo_d" "demo_d < demo_x" "demo_a < demo_x"
  by code_simp+

lemmas demo_sort = demo_order [THEN less_imp_le] demo_order [unfolded not_le [symmetric]] demo_order

lemma demo_segments:
  "path_segments demo_a = [lit ''Assets'', lit ''a'']" "path_segments demo_d = [lit ''Assets'', lit ''d'']"
  "path_segments demo_x = [lit ''Assets'', lit ''d'', lit ''x'']"
  by code_simp+

declare lit_simps [simp del]

lemma demo_roots:
  "collect_root demo_tree (lit ''Assets'') = ([pending_of demo_a [1] (lit ''t1''), pending_of demo_x [4, 4, 4] (lit ''t1'')], [], False)"
  "collect_root demo_tree (lit ''Packages'') = ([], [], False)"
  "collect_root demo_tree (lit ''ProjectSettings'') = ([], [], False)"
  by (simp_all add: collect_root_def demo_lstat demo_walk skips_nothing_def collect_entry_def demo_joined demo_paths
      append_step_def pending_of_def) (simp add: demo_tree_def)

lemma demo_collect:
  "collect_project_files demo_tree = ([pending_of demo_a [1] (lit ''t1''), pending_of demo_x [4, 4, 4] (lit ''t1'')], [], False)"
  by (simp add: collect_project_files_def tracked_roots_def demo_roots append_step_def demo_sort pending_of_def)


definition demo_digest :: "bytes \<Rightarrow> bytes" where
  "demo_digest bs = replicate 32 (of_nat (length bs))"

definition demo_snapshot_entry :: "tracked_path \<Rightarrow> bytes \<Rightarrow> snapshot_entry" where
  "demo_snapshot_entry p bs =
     \<lparr>snap_path = p, snap_size = of_nat (length bs), snap_modified = lit ''t2'',
      snap_content = Whole (object_id_from_bytes demo_digest bs) (of_nat (length bs))\<rparr>"

definition demo_snapshot :: snapshot_file where
  "demo_snapshot =
     \<lparr>snap_schema = 2, snap_project = ProjectId [], snap_parent = None, snap_created = [], snap_name = [],
      snap_tool = [], snap_roots = tracked_roots,
      snap_files = [demo_snapshot_entry demo_a [2, 2], demo_snapshot_entry demo_d [6, 6]]\<rparr>"

definition demo_scanned :: "tracked_path \<Rightarrow> bytes \<Rightarrow> scanned_file" where
  "demo_scanned p bs =
     \<lparr>scanned_path = p, scanned_size = of_nat (length bs), scanned_modified = lit ''t1'',
      scanned_hash = object_id_from_bytes demo_digest bs, scanned_fingerprint = None\<rparr>"

lemma demo_nodes:
  "project_node_at demo_tree [lit ''Assets''] = Some ProjectDirectory"
  "project_node_at demo_tree [lit ''Assets'', lit ''a''] = Some (ProjectFile [1] (lit ''t1''))"
  "project_node_at demo_tree [lit ''Assets'', lit ''d''] = Some ProjectDirectory"
  "project_node_at demo_tree [lit ''Assets'', lit ''d'', lit ''x''] = Some (ProjectFile [4, 4, 4] (lit ''t1''))"
  by (simp_all add: project_node_at_def demo_tree_def lit_simps)

lemma demo_marks [simp]: "tree_fingerprint demo_tree q = None" "tree_unstatable demo_tree = []" "tree_unreadable demo_tree = []"
  by (simp_all add: demo_tree_def)

lemma demo_parents: "btree_set [[lit ''Assets''], [lit ''Assets'', lit ''d'']] = [[lit ''Assets''], [lit ''Assets'', lit ''d'']]"
  by (rule btree_set_id) simp

lemma demo_opened:
  "open_project_directory demo_tree [lit ''Assets''] = Inr ()"
  "open_project_directory demo_tree [lit ''Assets'', lit ''d''] = Inr ()"
  "open_project_file demo_tree [lit ''Assets'', lit ''a''] = Inr ([1], lit ''t1'')"
  "open_project_file demo_tree [lit ''Assets'', lit ''d'', lit ''x''] = Inr ([4, 4, 4], lit ''t1'')"
  by (simp_all add: open_project_directory_def open_project_file_def proper_prefixes_def open_project_component_def demo_nodes)

lemma demo_assess:
  "assess_file demo_tree Map.empty base (pending_of demo_a [1] (lit ''t1'')) = (Some (pending_of demo_a [1] (lit ''t1'')), None)"
  "assess_file demo_tree Map.empty base (pending_of demo_x [4, 4, 4] (lit ''t1'')) = (Some (pending_of demo_x [4, 4, 4] (lit ''t1'')), None)"
  by (simp_all add: assess_file_def pending_of_def demo_segments demo_lstat reused_hash_def)

lemma demo_pending_parents:
  "pending_parent (pending_of demo_a bs m) = [lit ''Assets'']"
  "pending_parent (pending_of demo_x bs m) = [lit ''Assets'', lit ''d'']"
  by (simp_all add: pending_parent_def pending_of_def demo_segments)

lemma demo_hashed:
  "hash_file demo_digest demo_tree (pending_of demo_a [1] (lit ''t1''))
     = ((pending_of demo_a [1] (lit ''t1''))\<lparr>pending_hash := Some (object_id_from_bytes demo_digest [1])\<rparr>, None)"
  "hash_file demo_digest demo_tree (pending_of demo_x [4, 4, 4] (lit ''t1''))
     = ((pending_of demo_x [4, 4, 4] (lit ''t1''))\<lparr>pending_hash := Some (object_id_from_bytes demo_digest [4, 4, 4])\<rparr>, None)"
  by (simp_all add: hash_file_def pending_of_def demo_segments demo_opened)

lemma demo_assessed:
  "assess_files demo_tree Map.empty base [pending_of demo_a [1] (lit ''t1''), pending_of demo_x [4, 4, 4] (lit ''t1'')]
     = [(Some (pending_of demo_a [1] (lit ''t1'')), None), (Some (pending_of demo_x [4, 4, 4] (lit ''t1'')), None)]"
  by (simp add: assess_files_def demo_pending_parents demo_parents assess_group_def demo_opened demo_assess)

lemma demo_reported:
  "to_scanned ((pending_of p bs (lit ''t1''))\<lparr>pending_hash := Some (object_id_from_bytes demo_digest bs)\<rparr>) = [demo_scanned p bs]"
  by (simp add: to_scanned_def pending_of_def demo_scanned_def)

lemma demo_scan:
  "scan_with_baseline demo_digest (still demo_tree) None demo_snapshot
     = ([demo_scanned demo_a [1], demo_scanned demo_x [4, 4, 4]], [], False)"
  by (simp add: scan_with_baseline_def still_def scan_project_for_checkpoint_with_baseline_def scan_project_internal_def
      demo_collect demo_assessed demo_hashed demo_reported Let_def map_filter_simps)
    (simp add: demo_scanned_def demo_sort)

abbreviation demo_content :: "bytes \<Rightarrow> current_file_state" where
  "demo_content bs \<equiv> file_state demo_digest bs (lit ''t1'')"

lemma demo_working:
  "working_map [demo_scanned demo_a [1], demo_scanned demo_x [4, 4, 4]] = [(demo_a, demo_content [1]), (demo_x, demo_content [4, 4, 4])]"
  unfolding working_map_def
  by (subst btree_map_id) (simp_all add: demo_scanned_def demo_sort file_state_def)

lemma demo_files:
  "files_by_path demo_snapshot = [(demo_a, demo_snapshot_entry demo_a [2, 2]), (demo_d, demo_snapshot_entry demo_d [6, 6])]"
  unfolding files_by_path_def
  by (subst btree_map_id) (simp_all add: demo_snapshot_def demo_snapshot_entry_def demo_sort)

lemma demo_distinct: "demo_a \<noteq> demo_d" "demo_d \<noteq> demo_x" "demo_a \<noteq> demo_x" "demo_d \<noteq> demo_a" "demo_x \<noteq> demo_d" "demo_x \<noteq> demo_a"
  using demo_order by auto

lemma demo_hashes: "object_id_from_bytes demo_digest [1] \<noteq> object_id_from_bytes demo_digest [2, 2]"
proof
  assume "object_id_from_bytes demo_digest [1] = object_id_from_bytes demo_digest [2, 2]"
  then have "object_digest_bytes (object_id_from_digest_bytes (replicate 32 1))
      = object_digest_bytes (object_id_from_digest_bytes (replicate 32 2))"
    by (simp add: object_id_from_bytes_def object_id_from_digest_bytes_def demo_digest_def)
  then have "replicate 32 (1 :: byte) = replicate 32 2" by (simp only: object_digest_bytes_from length_replicate)
  then show False by simp
qed

definition demo_operations :: "file_operation list" where
  "demo_operations =
     [change_operation Replace (demo_content [1]) (demo_snapshot_entry demo_a [2, 2]),
      restore_operation (demo_snapshot_entry demo_d [6, 6]), delete_operation demo_x (demo_content [4, 4, 4])]"

lemma demo_restore: "restore_operations demo_snapshot [demo_scanned demo_a [1], demo_scanned demo_x [4, 4, 4]] = demo_operations"
proof -
  have f: "snap_files demo_snapshot = [demo_snapshot_entry demo_a [2, 2], demo_snapshot_entry demo_d [6, 6]]"
    by (simp add: demo_snapshot_def)
  have p: "snap_path (demo_snapshot_entry p bs) = p" "content_hash (demo_snapshot_entry p bs) = object_id_from_bytes demo_digest bs" for p bs
    by (simp_all add: demo_snapshot_entry_def content_hash_def)
  show ?thesis
    by (simp add: restore_operations_def demo_working demo_files f p demo_distinct operation_for_def
        demo_operations_def)
      (simp add: file_state_def demo_hashes)
qed

lemma demo_topology: "plan_directory_topology_changes demo_tree demo_operations = Inr ([demo_d], [])"
proof -
  have ops: "map operation_path (filter (\<lambda>o'. after_hash o' \<noteq> None) demo_operations) = [demo_a, demo_d]"
    "map operation_path (filter (\<lambda>o'. operation_type o' = Delete) demo_operations) = [demo_x]"
    "map operation_path (filter (\<lambda>o'. before_hash o' \<noteq> None) demo_operations) = [demo_a, demo_x]"
    by (simp_all add: demo_operations_def change_operation_def restore_operation_def delete_operation_def
        demo_snapshot_entry_def)
  have walk: "walk_dir demo_tree [lit ''Assets'', lit ''d''] = [WalkEntry [lit ''Assets'', lit ''d''], WalkEntry [lit ''Assets'', lit ''d'', lit ''x'']]"
    by (simp add: demo_inspect lit_simps)
  have steps: "topology_step demo_tree demo_operations demo_a = Inr ([], [])"
    "topology_step demo_tree demo_operations demo_d = Inr ([demo_d], [])"
    unfolding topology_step_def ops
    by (simp_all add: directories_blocking_def demo_segments demo_lstat walk blocker_entry_def demo_paths demo_joined
        proper_prefixes_def)
  show ?thesis unfolding topology_changes_unfold ops
    by (intro exI [of _ "[([], []), ([demo_d], [])]"]) (simp add: steps deepest_first_def btree_set_def)
qed

section \<open>The properties on the sample\<close>

definition demo_load :: "snapshot_id \<Rightarrow> snapshot_file result" where
  "demo_load c = Inr demo_snapshot"

definition demo_bare :: operation_plan where
  "demo_bare = with_warnings [] (with_directory_changes [demo_d] []
     (operation_plan_new (SnapshotId []) RestoreKind None demo_operations))"

definition demo_plan :: operation_plan where
  "demo_plan = authorize_operation_plan (\<lambda>_. []) (\<lambda>_. lit ''mac'') demo_bare"

lemma demo_built:
  "build_unsigned_plan demo_digest demo_load (still demo_tree) None demo_tree (SnapshotId []) RestoreKind None
     = Inr demo_bare"
  "build_plan (\<lambda>_. []) (\<lambda>_. lit ''mac'') demo_digest demo_load (still demo_tree) None demo_tree
     (SnapshotId []) RestoreKind None = Inr demo_plan"
  by (simp_all add: build_plan_def build_unsigned_plan_def planned_operations_def demo_load_def demo_scan
      demo_restore demo_topology demo_plan_def demo_bare_def)

lemma demo_wf: "project_tree_wf demo_tree"
  by code_simp

lemma demo_honest: "honest demo_digest demo_tree None"
  by (simp add: honest_def)

lemma demo_snapshot_ok: "snapshot_paths_ok demo_snapshot"
proof -
  have "tracked_path_valid demo_a" "tracked_path_valid demo_d" using demo_paths by (auto simp: tracked_path_valid_def demo_a_def demo_d_def)
  moreover have "\<forall>g \<in> set (path_segments demo_a @ path_segments demo_d). utf8_valid g" by (simp add: demo_segments) code_simp
  ultimately show ?thesis
    by (simp add: snapshot_paths_ok_def demo_snapshot_def demo_snapshot_entry_def demo_distinct)
qed

lemma demo_states: "tracked_states demo_digest demo_tree = map_of [(demo_a, demo_content [1]), (demo_x, demo_content [4, 4, 4])]"
  using working_states_still(1) [OF demo_wf demo_honest demo_scan] by (simp add: working_states_def demo_working)

lemma demo_sizes: "sizes_agree demo_snapshot (tracked_states demo_digest demo_tree)"
  using demo_hashes
  by (auto simp: sizes_agree_def demo_states snapshot_states_def demo_files demo_snapshot_entry_def entry_state_def
      content_hash_def file_state_def demo_distinct split: if_splits)

lemma demo_sorted: "sort_key operation_path demo_operations = demo_operations"
  by (simp add: demo_operations_def change_operation_def restore_operation_def delete_operation_def
      demo_snapshot_entry_def demo_sort)

lemma demo_sums:
  "sum_list (map unat (staged_sizes (plan_operations demo_plan)))
     + sum_list (map unat (backup_sizes (plan_operations demo_plan))) < 2 ^ 64"
  "sum_list (map unat (staged_sizes (plan_operations demo_bare)))
     + sum_list (map unat (backup_sizes (plan_operations demo_bare))) < 2 ^ 64"
  by (simp_all add: demo_plan_def demo_bare_def demo_sorted)
    (simp_all add: demo_operations_def staged_sizes_def backup_sizes_def change_operation_def restore_operation_def
      delete_operation_def demo_snapshot_entry_def content_size_bytes_def file_state_def map_filter_simps)

lemma demo_quiet: "plan_warnings demo_plan = []" "plan_warnings demo_bare = []"
  by (simp_all add: demo_plan_def demo_bare_def)

lemma restore_preview_applies_witness:
  "validate_expected_plan (\<lambda>_. []) (\<lambda>_. lit ''mac'') demo_digest demo_load demo_tree demo_plan = Inr ()
    \<and> apply_operations (plan_operations demo_plan) (tracked_states demo_digest demo_tree) = snapshot_states demo_snapshot"
  by (rule restore_preview_applies [OF demo_wf demo_honest _ demo_snapshot_ok demo_sizes _ demo_built(2) demo_quiet(1) demo_sums(1)])
    (simp_all add: demo_load_def)

lemma demo_accepted: "validate_plan_shape demo_load demo_bare = Inr ()"
  using restore_plan_accepted(1) [OF demo_wf demo_built(1) _ demo_snapshot_ok demo_scan _ demo_quiet(2) demo_sums(2)]
    demo_sizes by (simp add: demo_load_def demo_states working_states_def demo_working)

lemma accepted_plan_effect_witness:
  "\<exists>s. demo_load (plan_checkpoint demo_bare) = Inr s
      \<and> apply_operations (plan_operations demo_bare) Map.empty =
          (\<lambda>p. if p \<in> operation_paths (plan_operations demo_bare) then snapshot_states s p else None)"
  using accepted_plan_effect [OF demo_accepted, of Map.empty] by blast

text \<open>A project with a link and nothing else, and a checkpoint without files.\<close>

definition linked_tree :: project_tree where
  "linked_tree =
     \<lparr>tree_nodes = [([lit ''Assets''], ProjectDirectory), ([lit ''Assets'', lit ''a''], ProjectLink)],
      tree_unstatable = [], tree_unreadable = [], tree_fingerprint = (\<lambda>_. None)\<rparr>"

definition empty_snapshot :: snapshot_file where
  "empty_snapshot = demo_snapshot\<lparr>snap_files := []\<rparr>"

lemma linked_inspect:
  "project_lstat linked_tree [lit ''Assets''] = Inr ProjectDirectory"
  "project_lstat linked_tree [lit ''Packages''] = Inl (Io [lit ''Packages''] NotFound)"
  "project_lstat linked_tree [lit ''ProjectSettings''] = Inl (Io [lit ''ProjectSettings''] NotFound)"
  "project_lstat linked_tree [lit ''Assets'', lit ''a''] = Inr ProjectLink"
  "walk_dir linked_tree [lit ''Assets''] = map WalkEntry [[lit ''Assets''], [lit ''Assets'', lit ''a'']]"
  by (simp_all add: linked_tree_def demo_inspect [unfolded demo_tree_def] lit_simps)

lemma linked_warned: "fst (snd (scan_with_baseline demo_digest (still linked_tree) None empty_snapshot)) \<noteq> []"
proof -
  have "collect_project_files linked_tree
      = ([], [\<lparr>warning_path = joined [lit ''Assets'', lit ''a''],
               warning_reason = lit ''symbolic links and reparse points are not supported''\<rparr>], True)"
    by (simp add: collect_project_files_def tracked_roots_def collect_root_def linked_inspect skips_nothing_def
        collect_entry_def append_step_def scan_warned_def) (simp add: linked_tree_def)
  then show ?thesis
    by (simp add: scan_with_baseline_def still_def scan_project_for_checkpoint_with_baseline_def scan_project_internal_def Let_def)
qed

lemma linked_wf: "project_tree_wf linked_tree"
  by code_simp

lemma linked_empty: "tracked_states demo_digest linked_tree = Map.empty" "snapshot_states empty_snapshot = Map.empty"
proof
  fix p show "tracked_states demo_digest linked_tree p = None"
    by (auto simp: tracked_states_def project_node_at_def linked_tree_def)
qed (auto simp: snapshot_states_def empty_snapshot_def files_by_path_def)

lemma full_restore_verified_iff_witness:
  "verify_full_restore_target demo_digest demo_load (still demo_tree) None demo_tree (SnapshotId []) \<noteq> Inr ()
   \<and> tracked_states demo_digest linked_tree = snapshot_states empty_snapshot
   \<and> verify_full_restore_target demo_digest (\<lambda>_. Inr empty_snapshot) (still linked_tree) None linked_tree (SnapshotId []) \<noteq> Inr ()"
proof -
  have "tracked_states demo_digest demo_tree demo_x \<noteq> snapshot_states demo_snapshot demo_x"
    by (simp add: demo_states snapshot_states_def demo_files demo_distinct)
  then have d: "tracked_states demo_digest demo_tree \<noteq> snapshot_states demo_snapshot" by metis
  have e: "honest demo_digest linked_tree None" "snapshot_paths_ok empty_snapshot"
    "sizes_agree empty_snapshot (tracked_states demo_digest linked_tree)"
    by (simp_all add: honest_def snapshot_paths_ok_def empty_snapshot_def sizes_agree_def linked_empty)
  show ?thesis
    using full_restore_verified_iff [OF demo_wf demo_honest _ demo_snapshot_ok demo_sizes, of demo_load "SnapshotId []"]
      full_restore_verified_iff [OF linked_wf e(1) _ e(2,3), of "\<lambda>_. Inr empty_snapshot" "SnapshotId []"]
      d linked_warned linked_empty by (simp add: demo_load_def)
qed

lemma diff_is_restore_plan_witness:
  "diff_added (diff_checkpoint demo_digest (still demo_tree) None demo_snapshot)
     = map (tracked_as_str \<circ> operation_path) (filter (\<lambda>o'. operation_type o' \<in> {Delete}) (plan_operations demo_bare))"
proof -
  have d: "distinct (map snap_path (snap_files demo_snapshot))"
    using demo_snapshot_ok by (simp add: snapshot_paths_ok_def)
  show ?thesis
    using diff_is_restore_plan [OF d _ demo_built(1)] by (simp add: demo_load_def)
qed

lemma scan_reports_observed_witness:
  "sorted (map scanned_path (fst (scan_project_internal demo_digest demo_tree demo_tree demo_tree Map.empty Map.empty)))"
proof -
  have "cache_honest demo_digest demo_tree Map.empty" by (simp add: cache_honest_def)
  from scan_reports_observed [OF demo_wf this, of demo_tree] show ?thesis
    by (cases "scan_project_internal demo_digest demo_tree demo_tree demo_tree Map.empty Map.empty") auto
qed

lemma quiet_scan_exact_witness:
  "working_states [demo_scanned demo_a [1], demo_scanned demo_x [4, 4, 4]] = tracked_states demo_digest demo_tree"
  using quiet_scan_exact [OF demo_wf demo_honest demo_scan] by simp

lemma plan_directories_exact_witness:
  "path_segments ` set [demo_d] = blocking_directories demo_tree demo_operations"
  using plan_directories_exact [OF demo_wf demo_topology] by simp

text \<open>
  A file below a tracked root that is missing: the plan creates the directory below the root and
  leaves the root out, although it is missing too.
\<close>

definition orphan_path :: tracked_path where "orphan_path = TrackedPath (lit ''Packages/sub/x'')"
definition orphan_parent :: tracked_path where "orphan_parent = TrackedPath (lit ''Packages/sub'')"

lemma orphan_segments:
  "path_segments orphan_path = [lit ''Packages'', lit ''sub'', lit ''x'']"
  "tracked_path_parse (joined [lit ''Packages'', lit ''sub'']) = Inr orphan_parent"
  by code_simp+

lemma missing_root_not_created:
  defines "ops \<equiv> [restore_operation (demo_snapshot_entry orphan_path [5])]"
  shows "plan_directory_topology_changes demo_tree ops = Inr ([], [orphan_parent])
    \<and> [lit ''Packages''] \<in> missing_directories demo_tree ops"
proof -
  have ops: "map operation_path (filter (\<lambda>o'. after_hash o' \<noteq> None) ops) = [orphan_path]"
    "map operation_path (filter (\<lambda>o'. operation_type o' = Delete) ops) = []"
    "map operation_path (filter (\<lambda>o'. before_hash o' \<noteq> None) ops) = []" "written_paths ops = {orphan_path}"
    by (simp_all add: ops_def restore_operation_def demo_snapshot_entry_def written_paths_def)
  have n: "project_lstat demo_tree [lit ''Packages'', lit ''sub''] = Inl (Io [lit ''Packages'', lit ''sub''] NotFound)"
    "project_lstat demo_tree [lit ''Packages'', lit ''sub'', lit ''x''] = Inl (Io [lit ''Packages'', lit ''sub'', lit ''x''] NotFound)"
    "project_node_at demo_tree [lit ''Packages''] = None"
    by (simp_all add: demo_inspect lit_simps)
  have "topology_step demo_tree ops orphan_path = Inr ([], [orphan_parent])"
    unfolding topology_step_def ops
    by (simp add: directories_blocking_def orphan_segments n proper_prefixes_def)
  then have "plan_directory_topology_changes demo_tree ops = Inr ([], [orphan_parent])"
    unfolding topology_changes_unfold ops
    by (intro exI [of _ "[([], [orphan_parent])]"]) (simp add: deepest_first_def btree_set_def)
  then show ?thesis
    using n(3) by (simp add: missing_directories_def ops orphan_segments proper_prefixes_def)
qed

end
