(* ===== verification/Spec2Isabelle.thy ===== *)
theory Spec2Isabelle
  imports ManifestTotal InventorySample PlanSample
begin

text \<open>
  CheckPo keeps checkpoints of a Unity project. This development models the
  core of the Rust crate CheckPo.Core (src/src/CheckPo.Core/src) and proves what
  makes it correct.

  \<^bold>\<open>Parts.\<close> A project file is named by a tracked path (path.rs). A checkpoint
  is a snapshot root that refers to a manifest, a radix tree of leaves and nodes
  that are stored under their hashes; merkle_codec.rs is the byte format and
  snapshot_v2.rs builds, validates, streams and searches manifests. The snapshots
  of a project are its inventory (snapshot_inventory.rs), a chain of immutable
  states with a head file; snapshot_store.rs stores and lists the roots. A restore
  or a discard is planned from a scan of the project (scanner.rs) and a checkpoint,
  shown to the user, and checked again when it is submitted (transaction/plan.rs,
  transaction/project_file_ops.rs).

  \<^bold>\<open>Theories.\<close>
  Prelude: result values and their chaining, stateful results, checked machine
  arithmetic, big-endian integers, list functions of the Rust library.
  RustStr: strings as UTF-8 byte lists and the string functions the code uses.
  CoreError: the error type of lib.rs and its wire kinds.
  TrackedPath: path.rs.
  MerkleCodec: merkle_codec.rs; the locale codec states the contract of a reader
  and a writer of one field and is interpreted on the field codecs of the code.
  SnapshotV2: the definitions of snapshot_v2.rs.
  ManifestSums: the summary arithmetic, in unbounded numbers.
  Manifest: the predicate radix, the abstract description of a canonical
  manifest, and the locale manifest\_provider, the contract between whoever
  provides a manifest and the readers (iterator and lookup).
  ManifestBuild: the builder satisfies that contract.
  ManifestValidate: the validator establishes that contract on any source.
  ManifestTotal: where building and validating succeed, and a sample.
  RepoFs: the repository as a map from paths to nodes, the contract of the
  anchored file operations; a fault schedule decides which of them fail, before
  or after they took effect, so a theorem for every schedule covers every I/O
  error and every crash between two operations.
  SnapshotStore: snapshot_store.rs; SnapshotListing: what it lists.
  InventoryCodec: the bytes of states, set roots and set leaves.
  Inventory: the operations of snapshot_inventory.rs.
  InventoryStore: the locale content\_store, the contract of a store of immutable
  values named by their hash, interpreted for states, set roots and set leaves;
  how a step leaves what was stored. InventorySet: the 256 leaves as one set.
  InventoryTransition: atomicity of a transition under faults. InventoryProgress:
  transitions that succeed. InventoryReplay: transitions that are repeated.
  InventoryReads: the ids, membership, projected removal. InventoryGc: garbage.
  InventoryInit: the first state. InventorySample: sample repositories.
  ProjectTree: the project directory as a tree with links and unreadable entries,
  and what is asked of one tracked path in it (transaction/plan.rs, project.rs).
  Scanner: scanner.rs; its three phases see the directory at three moments.
  OperationPlan: models/transaction.rs and the checks of transaction/plan.rs that
  a plan and a journal pass; what they establish.
  PlanBuild: the operations and the directory changes of a plan. PlanSelect: the
  selection of a discard and the scope of a discard request; two loops, each ended
  by a finite set that grows. PlanPreview: building a plan, checking it against the
  working tree when it comes back (transaction/project\_file\_ops.rs), the check
  after a full restore. WorkingDiff: diff.rs. PlanSample: a sample project.

  \<^bold>\<open>Conventions.\<close> A fallible function returns a sum, its error left. A function
  with a mutable argument returns the changed value, also when it fails.
  Machine integers are words, \<open>usize\<close> is a natural number with the 64-bit checks
  written out. Code outside the repository (BLAKE3, Unicode normalisation, the
  lower-case table) is the record external, an argument of the functions that use
  it; the law used is that a BLAKE3 digest has 32 bytes (hash\_length), and for the
  inventory that the files on the disks at hand do not collide (hash\_sound).
  Walks along the states recurse on the generation, which goes down by one, so
  no fuel is needed.
  Strings are compared bytewise, as in Rust.

  \<^bold>\<open>Not modelled.\<close> The texts of error messages beyond their fixed part, the
  operating system layers (anchored\_fs, atomic\_io, windows\_durability, lock)
  below the contract in RepoFs, cancellation tokens, the calendar of chrono (a
  parameter), SQLite (db.rs), and the command line and desktop programs.
\<close>

end
